(* ===== verification/Prelude.thy ===== *)
theory Prelude
  imports Main "HOL-Library.Word" "HOL-Library.Sublist"
begin

text \<open>
  Shared vocabulary of the development: the machine integers and result types of the Go code,
  the lemma collections the component proofs use, generic facts on association lists and
  filtered lists, and the two locales every stateful component is an instance of
  (a machine whose operations keep an invariant, and a machine that refines an abstract one).
\<close>

section \<open>Types of the Go code\<close>

text \<open>Go's \<open>int64\<close> and \<open>uint32\<close>; a Go string is a byte sequence.\<close>

type_synonym int64 = "64 word"
type_synonym uint32 = "32 word"
type_synonym path = "string list"

text \<open>
  Errors. The code builds them with \<open>fmt.Errorf\<close> (\<open>Errorf\<close>), receives them from the operating
  system (\<open>SysErr\<close>, with the call, its path and the error number), and wraps them with the
  \<open>%w\<close> verb (\<open>Wrapf\<close>, with the text before the verb).
\<close>

datatype errno = ENOENT | ENOTDIR | EISDIR | EEXIST | EINVAL | EIO

datatype goerr =
    Errorf string
  | SysErr string path errno
  | Wrapf string goerr

type_synonym 'a res = "goerr + 'a"

section \<open>Lemma collections\<close>

named_theorems inv_intros \<open>preservation of the components' invariants\<close>
named_theorems fs_simps \<open>lookups after a file-system operation\<close>

section \<open>Generic lemmas\<close>

lemma filter_fst_neq_id:
  "a \<notin> fst ` set xs \<Longrightarrow> filter (\<lambda>p. fst p \<noteq> a) xs = xs"
  by (induction xs) auto

lemma distinct_map_filter_fst:
  "distinct (map fst xs) \<Longrightarrow> distinct (map fst (filter P xs))"
  by (induction xs) auto

lemma map_of_filter_fst:
  "map_of (filter (\<lambda>p. P (fst p)) xs) k = (if P k then map_of xs k else None)"
  by (induction xs) auto

lemma map_of_eq_Some_iff_distinct:
  "distinct (map fst xs) \<Longrightarrow> map_of xs k = Some v \<longleftrightarrow> (k, v) \<in> set xs"
  by (rule map_of_eq_Some_iff)

lemma filter_fst_eq_single:
  "distinct (map fst xs) \<Longrightarrow> map_of xs k = Some v \<Longrightarrow> filter (\<lambda>p. fst p = k) xs = [(k, v)]"
proof (induction xs)
  case Nil
  then show ?case by simp
next
  case (Cons x xs)
  show ?case
  proof (cases "fst x = k")
    case True
    with Cons.prems have "k \<notin> fst ` set xs" by auto
    then have "filter (\<lambda>p. fst p = k) xs = []" by (induction xs) auto
    with True Cons.prems show ?thesis by (cases x) simp
  next
    case False
    with Cons show ?thesis by (cases x) simp
  qed
qed

lemma length_filter_last:
  assumes "xs \<noteq> []" and "\<not> P (last xs)"
  shows "length (filter P xs) < length xs"
proof -
  from assms(1) obtain ys y where xs: "xs = ys @ [y]" by (cases xs rule: rev_cases) auto
  with assms(2) have "length (filter P xs) = length (filter P ys)" by simp
  also have "\<dots> \<le> length ys" by (rule length_filter_le)
  finally show ?thesis using xs by simp
qed

lemma filter_fst_last_butlast:
  assumes "distinct (map fst xs)" and "xs \<noteq> []"
  shows "filter (\<lambda>p. fst p \<noteq> fst (last xs)) xs = butlast xs"
proof -
  from assms(2) obtain ys y where xs: "xs = ys @ [y]" by (cases xs rule: rev_cases) auto
  with assms(1) have "fst y \<notin> fst ` set ys" by auto
  then show ?thesis by (simp add: xs filter_fst_neq_id)
qed

lemma sum_list_filter_split:
  fixes f :: "'a \<Rightarrow> 'b::comm_monoid_add"
  shows "sum_list (map f xs) = sum_list (map f (filter P xs)) + sum_list (map f (filter (\<lambda>x. \<not> P x) xs))"
  by (induction xs) (auto simp: ac_simps)

lemma prefix_butlastD: "prefix p (butlast q) \<Longrightarrow> prefix p q"
  by (metis prefix_order.trans prefixeq_butlast)

lemma not_prefix_butlast: "p \<noteq> [] \<Longrightarrow> \<not> prefix p (butlast p)"
  using prefix_length_le [of p "butlast p"] by (cases p) auto

text \<open>A signed word comparison read as integers.\<close>

lemma sless_sint: "(a <s b) = (sint a < sint b)"
  by (simp add: word_sless_alt)

lemma sle_sint: "(a <=s b) = (sint a \<le> sint b)"
  by (simp add: word_sle_eq)

text \<open>64-bit sums that do not leave the signed range are sums of integers.\<close>

lemma sint_add64:
  fixes a b :: int64
  assumes "- (2 ^ 63) \<le> sint a + sint b" and "sint a + sint b < 2 ^ 63"
  shows "sint (a + b) = sint a + sint b"
  using assms by (simp add: sint_word_ariths signed_take_bit_int_eq_self)

lemma sint_mult64:
  fixes a b :: int64
  assumes "- (2 ^ 63) \<le> sint a * sint b" and "sint a * sint b < 2 ^ 63"
  shows "sint (a * b) = sint a * sint b"
  using assms by (simp add: sint_word_ariths signed_take_bit_int_eq_self)

lemma sint_of_int64:
  "- (2 ^ 63) \<le> k \<Longrightarrow> k < 2 ^ 63 \<Longrightarrow> sint (of_int k :: int64) = k"
  by (simp add: signed_of_int signed_take_bit_int_eq_self)

lemma sint_sum_list64:
  fixes ws :: "int64 list"
  assumes "\<forall>w \<in> set ws. 0 \<le> sint w" and "sum_list (map sint ws) < 2 ^ 63"
  shows "sint (sum_list ws) = sum_list (map sint ws)"
  using assms
proof (induction ws)
  case Nil
  then show ?case by simp
next
  case (Cons w ws)
  have "0 \<le> sum_list (map sint ws)" using Cons.prems(1) by (intro sum_list_nonneg) auto
  with Cons show ?case by (simp add: sint_add64)
qed

section \<open>Machines: operations that keep an invariant, and refinement\<close>

text \<open>
  Every stateful component is a state, an operation type and a step function; the operations of
  a component run under its mutex, so an execution is a sequence of whole operations.
\<close>

locale op_machine =
  fixes step :: "'s \<Rightarrow> 'o \<Rightarrow> 's"
    and inv :: "'s \<Rightarrow> bool"
  assumes step_inv: "inv s \<Longrightarrow> inv (step s q)"
begin

lemma run_inv: "inv s \<Longrightarrow> inv (foldl step s qs)"
  by (induction qs arbitrary: s) (auto intro: step_inv)

end

locale refined_machine = op_machine step inv
  for step :: "'s \<Rightarrow> 'o \<Rightarrow> 's" and inv :: "'s \<Rightarrow> bool" +
  fixes abs :: "'s \<Rightarrow> 'a"
    and astep :: "'a \<Rightarrow> 'o \<Rightarrow> 'a"
  assumes step_abs: "inv s \<Longrightarrow> abs (step s q) = astep (abs s) q"
begin

lemma run_abs: "inv s \<Longrightarrow> abs (foldl step s qs) = foldl astep (abs s) qs"
proof (induction qs arbitrary: s)
  case Nil
  then show ?case by simp
next
  case (Cons q qs)
  from Cons.IH [OF step_inv [OF Cons.prems]] Cons.prems show ?case by (simp add: step_abs)
qed

end

end
