(* ===== verification/Lru.thy ===== *)
theory Lru
  imports Prelude
begin

text \<open>
  The size-bounded recency list of \<open>internal/cache/lru.go\<close>: the map \<open>items\<close> from adapter IDs
  to elements of a \<open>container/list\<close>, the list \<open>order\<close> (most recent first), and the running total
  \<open>curSize\<close> in 64-bit arithmetic.  A list element is a Go pointer: it is modelled by its
  identity, a number that \<open>PushFront\<close> takes fresh.  The invariant says that the map and the
  list agree and that the total is the sum of the sizes; the abstraction is the list of
  (adapter, size) pairs, on which touch, evict and remove have their simple meaning.
\<close>

section \<open>State\<close>

record lruEntry =
  adapterID :: string
  entrySize :: int64
  accessedAt :: int

text \<open>\<open>container/list\<close>: the elements front to back, each with its identity.\<close>

type_synonym elem = nat
type_synonym 'v golist = "(elem \<times> 'v) list"

record LRU =
  items :: "string \<Rightarrow> elem option"
  order :: "lruEntry golist"
  nextElem :: elem
  curSize :: int64
  maxSize :: int64

definition NewLRU :: "int64 \<Rightarrow> LRU" where
  "NewLRU mx = \<lparr>items = Map.empty, order = [], nextElem = 0, curSize = 0, maxSize = mx\<rparr>"

section \<open>Operations\<close>

definition move_to_front :: "elem \<Rightarrow> 'v golist \<Rightarrow> 'v golist" where
  "move_to_front el xs =
     (case map_of xs el of None \<Rightarrow> xs | Some v \<Rightarrow> (el, v) # filter (\<lambda>p. fst p \<noteq> el) xs)"

definition list_remove :: "elem \<Rightarrow> 'v golist \<Rightarrow> 'v golist" where
  "list_remove el xs = filter (\<lambda>p. fst p \<noteq> el) xs"

text \<open>Writing a field of the entry an element points to.\<close>

definition update_elem :: "elem \<Rightarrow> ('v \<Rightarrow> 'v) \<Rightarrow> 'v golist \<Rightarrow> 'v golist" where
  "update_elem el f xs = map (\<lambda>(k, v). (k, if k = el then f v else v)) xs"

definition lru_touch :: "LRU \<Rightarrow> string \<Rightarrow> int64 \<Rightarrow> int \<Rightarrow> LRU" where
  "lru_touch l aid sz now =
     (case items l aid of
        Some el \<Rightarrow>
          l\<lparr>order := move_to_front el (update_elem el (\<lambda>e. e\<lparr>accessedAt := now\<rparr>) (order l))\<rparr>
      | None \<Rightarrow>
          let el = nextElem l; entry = \<lparr>adapterID = aid, entrySize = sz, accessedAt = now\<rparr>
          in l\<lparr>order := (el, entry) # order l, nextElem := Suc el,
               items := (items l)(aid \<mapsto> el), curSize := curSize l + sz\<rparr>)"

text \<open>The eviction loop, with the slice of evicted IDs as accumulator.\<close>

definition drop_tail :: "LRU \<Rightarrow> LRU" where
  "drop_tail l =
     (let (el, entry) = last (order l)
      in l\<lparr>order := list_remove el (order l), items := (items l)(adapterID entry := None),
           curSize := curSize l - entrySize entry\<rparr>)"

function evict_loop :: "LRU \<Rightarrow> int64 \<Rightarrow> string list \<Rightarrow> LRU \<times> string list" where
  "evict_loop l req evicted =
     (if maxSize l <s curSize l + req \<and> order l \<noteq> []
      then evict_loop (drop_tail l) req (evicted @ [adapterID (snd (last (order l)))])
      else (l, evicted))"
  by pat_completeness auto
termination
  by (relation "measure (\<lambda>(l, _, _). length (order l))")
    (auto simp: drop_tail_def list_remove_def case_prod_beta intro!: length_filter_last)

definition lru_evict :: "LRU \<Rightarrow> int64 \<Rightarrow> LRU \<times> string list" where
  "lru_evict l req = evict_loop l req []"

definition lru_remove :: "LRU \<Rightarrow> string \<Rightarrow> LRU \<times> bool" where
  "lru_remove l aid =
     (case items l aid of
        None \<Rightarrow> (l, False)
      | Some el \<Rightarrow>
          (l\<lparr>order := list_remove el (order l), items := (items l)(aid := None),
             curSize := curSize l - (case map_of (order l) el of Some e \<Rightarrow> entrySize e | None \<Rightarrow> 0)\<rparr>,
           True))"

definition lru_contains :: "LRU \<Rightarrow> string \<Rightarrow> bool" where
  "lru_contains l aid = (items l aid \<noteq> None)"

definition lru_len :: "LRU \<Rightarrow> nat" where
  "lru_len l = length (order l)"

definition lru_size :: "LRU \<Rightarrow> int64" where
  "lru_size l = curSize l"

definition lru_maxSize :: "LRU \<Rightarrow> int64" where
  "lru_maxSize l = maxSize l"

definition lru_items :: "LRU \<Rightarrow> string list" where
  "lru_items l = map (\<lambda>(el, e). adapterID e) (order l)"

declare evict_loop.simps [simp del]

section \<open>Invariant\<close>

definition lru_inv :: "LRU \<Rightarrow> bool" where
  "lru_inv l \<longleftrightarrow>
     distinct (map fst (order l)) \<and>
     distinct (lru_items l) \<and>
     (\<forall>p \<in> set (order l). fst p < nextElem l \<and> items l (adapterID (snd p)) = Some (fst p)) \<and>
     dom (items l) = set (lru_items l) \<and>
     curSize l = sum_list (map (\<lambda>p. entrySize (snd p)) (order l))"

lemma lru_items_alt: "lru_items l = map (\<lambda>p. adapterID (snd p)) (order l)"
  by (simp add: lru_items_def case_prod_beta)

lemma NewLRU_inv [inv_intros]: "lru_inv (NewLRU mx)"
  by (simp add: lru_inv_def NewLRU_def lru_items_def)

lemma lru_inv_element:
  assumes "lru_inv l" and "items l aid = Some el"
  obtains e where "(el, e) \<in> set (order l)" and "adapterID e = aid"
proof -
  from assms have "aid \<in> set (lru_items l)" by (auto simp: lru_inv_def)
  then obtain p where "p \<in> set (order l)" and "adapterID (snd p) = aid"
    by (auto simp: lru_items_alt)
  moreover from this assms have "fst p = el" by (auto simp: lru_inv_def)
  ultimately show thesis using that [of "snd p"] by (metis prod.collapse)
qed

lemma lru_inv_same_element:
  assumes "lru_inv l" and "items l aid = Some el" and "p \<in> set (order l)"
  shows "fst p = el \<longleftrightarrow> adapterID (snd p) = aid"
proof -
  obtain e where e: "(el, e) \<in> set (order l)" "adapterID e = aid"
    using lru_inv_element [OF assms(1,2)] by blast
  have "distinct (map fst (order l))" using assms(1) by (simp add: lru_inv_def)
  then have "fst p = el \<Longrightarrow> p = (el, e)"
    using assms(3) e(1) eq_key_imp_eq_value by (metis prod.collapse)
  moreover have "adapterID (snd p) = aid \<Longrightarrow> fst p = el"
    using assms by (auto simp: lru_inv_def)
  ultimately show ?thesis using e(2) by (metis snd_conv)
qed

section \<open>Abstraction: adapters with their sizes, most recently used first\<close>

definition lru_entries :: "LRU \<Rightarrow> (string \<times> int64) list" where
  "lru_entries l = map (\<lambda>p. (adapterID (snd p), entrySize (snd p))) (order l)"

definition a_touch :: "string \<Rightarrow> int64 \<Rightarrow> (string \<times> int64) list \<Rightarrow> (string \<times> int64) list" where
  "a_touch aid sz xs =
     (case map_of xs aid of Some s \<Rightarrow> (aid, s) # filter (\<lambda>p. fst p \<noteq> aid) xs | None \<Rightarrow> (aid, sz) # xs)"

definition a_remove :: "string \<Rightarrow> (string \<times> int64) list \<Rightarrow> (string \<times> int64) list" where
  "a_remove aid xs = filter (\<lambda>p. fst p \<noteq> aid) xs"

definition a_total :: "(string \<times> int64) list \<Rightarrow> int64" where
  "a_total xs = sum_list (map snd xs)"

text \<open>
  Eviction keeps the longest prefix of the recency order that leaves room for the request
  (the empty prefix when none does).
\<close>

definition a_fits :: "int64 \<Rightarrow> int64 \<Rightarrow> (string \<times> int64) list \<Rightarrow> bool" where
  "a_fits mx req xs \<longleftrightarrow> \<not> mx <s a_total xs + req"

definition keep_len :: "int64 \<Rightarrow> int64 \<Rightarrow> (string \<times> int64) list \<Rightarrow> nat" where
  "keep_len mx req xs =
     last (filter (\<lambda>k. k = 0 \<or> a_fits mx req (take k xs)) [0..<Suc (length xs)])"

definition a_evict :: "int64 \<Rightarrow> int64 \<Rightarrow> (string \<times> int64) list \<Rightarrow> (string \<times> int64) list" where
  "a_evict mx req xs = take (keep_len mx req xs) xs"

definition a_evicted :: "int64 \<Rightarrow> int64 \<Rightarrow> (string \<times> int64) list \<Rightarrow> string list" where
  "a_evicted mx req xs = rev (map fst (drop (keep_len mx req xs) xs))"

lemma map_fst_lru_entries [simp]: "map fst (lru_entries l) = lru_items l"
  by (simp add: lru_entries_def lru_items_alt)

lemma fst_image_lru_entries [simp]: "fst ` set (lru_entries l) = set (lru_items l)"
  by (metis map_fst_lru_entries set_map)

lemma a_total_lru_entries: "lru_inv l \<Longrightarrow> a_total (lru_entries l) = curSize l"
  by (simp add: lru_inv_def a_total_def lru_entries_def o_def)

lemma keep_len_full: "xs = [] \<or> a_fits mx req xs \<Longrightarrow> keep_len mx req xs = length xs"
  by (auto simp: keep_len_def)

lemma keep_len_butlast:
  assumes "\<not> a_fits mx req xs" and "xs \<noteq> []"
  shows "keep_len mx req xs = keep_len mx req (butlast xs)"
proof -
  have "filter (\<lambda>k. k = 0 \<or> a_fits mx req (take k xs)) [0..<length xs]
      = filter (\<lambda>k. k = 0 \<or> a_fits mx req (take k (butlast xs))) [0..<length xs]"
    by (rule filter_cong) (auto simp: take_butlast)
  with assms show ?thesis by (simp add: keep_len_def Suc_diff_Suc)
qed

lemma keep_len_le: "keep_len mx req xs \<le> length xs"
proof (induction xs rule: rev_induct)
  case Nil
  then show ?case by (simp add: keep_len_def)
next
  case (snoc x xs)
  then show ?case
    by (cases "a_fits mx req (xs @ [x])") (simp_all add: keep_len_full keep_len_butlast)
qed

lemma keep_len_fits: "keep_len mx req xs = 0 \<or> a_fits mx req (take (keep_len mx req xs) xs)"
proof (induction xs rule: rev_induct)
  case Nil
  then show ?case by (simp add: keep_len_def)
next
  case (snoc x xs)
  then show ?case
    by (cases "a_fits mx req (xs @ [x])")
      (simp_all add: keep_len_full keep_len_butlast keep_len_le)
qed

lemma keep_len_maximal:
  "keep_len mx req xs < k \<Longrightarrow> k \<le> length xs \<Longrightarrow> \<not> a_fits mx req (take k xs)"
proof (induction xs rule: rev_induct)
  case Nil
  then show ?case by simp
next
  case (snoc x xs)
  show ?case
  proof (cases "a_fits mx req (xs @ [x])")
    case True
    with snoc.prems show ?thesis by (simp add: keep_len_full)
  next
    case False
    then have eq: "keep_len mx req (xs @ [x]) = keep_len mx req xs" by (simp add: keep_len_butlast)
    show ?thesis
    proof (cases "k = Suc (length xs)")
      case True
      with False show ?thesis by simp
    next
      case k: False
      with snoc.prems have "k \<le> length xs" by simp
      with snoc.IH snoc.prems eq show ?thesis by simp
    qed
  qed
qed

section \<open>The operations against the abstraction\<close>

lemma list_remove_update_elem [simp]: "list_remove el (update_elem el f xs) = list_remove el xs"
  by (induction xs) (auto simp: list_remove_def update_elem_def)

lemma map_of_update_elem:
  "map_of (update_elem el f xs) k = (if k = el then map_option f (map_of xs k) else map_of xs k)"
  by (induction xs) (auto simp: update_elem_def)

lemma move_to_front_update_elem:
  assumes "map_of xs el = Some v"
  shows "move_to_front el (update_elem el f xs) = (el, f v) # list_remove el xs"
  using assms list_remove_update_elem [of el f xs]
  by (simp add: move_to_front_def map_of_update_elem list_remove_def)

lemma set_list_remove: "set (list_remove el xs) = {p \<in> set xs. fst p \<noteq> el}"
  by (auto simp: list_remove_def)

lemma list_remove_by_id:
  assumes "lru_inv l" and "items l aid = Some el"
  shows "list_remove el (order l) = filter (\<lambda>p. adapterID (snd p) \<noteq> aid) (order l)"
  unfolding list_remove_def
  by (rule filter_cong) (auto simp: lru_inv_same_element [OF assms])

lemma lru_lookup_size:
  assumes "lru_inv l" and "items l aid = Some el"
  obtains e where "map_of (order l) el = Some e" and "adapterID e = aid"
    and "map_of (lru_entries l) aid = Some (entrySize e)"
proof -
  obtain e where e: "(el, e) \<in> set (order l)" "adapterID e = aid"
    using lru_inv_element [OF assms] by blast
  have d: "distinct (map fst (order l))" "distinct (map fst (lru_entries l))"
    using assms(1) by (simp_all add: lru_inv_def)
  have "(aid, entrySize e) \<in> set (lru_entries l)" using e by (force simp: lru_entries_def)
  then show thesis using that [of e] e d by simp
qed

lemma lru_absent: "lru_inv l \<Longrightarrow> items l aid = None \<longleftrightarrow> map_of (lru_entries l) aid = None"
  by (auto simp: lru_inv_def map_of_eq_None_iff domIff)

lemma a_remove_entries:
  "map (\<lambda>p. (adapterID (snd p), entrySize (snd p))) (filter (\<lambda>p. adapterID (snd p) \<noteq> aid) xs)
   = a_remove aid (map (\<lambda>p. (adapterID (snd p), entrySize (snd p))) xs)"
  by (simp add: a_remove_def filter_map o_def)

lemma entries_touch:
  assumes "lru_inv l"
  shows "lru_entries (lru_touch l aid sz now) = a_touch aid sz (lru_entries l)"
proof (cases "items l aid")
  case None
  with assms have "map_of (lru_entries l) aid = None" by (simp add: lru_absent)
  with None show ?thesis by (simp add: lru_touch_def lru_entries_def a_touch_def Let_def)
next
  case (Some el)
  from lru_lookup_size [OF assms Some] obtain e where e: "map_of (order l) el = Some e"
    "adapterID e = aid" "map_of (lru_entries l) aid = Some (entrySize e)" by blast
  show ?thesis
    using e list_remove_by_id [OF assms Some] a_remove_entries [of aid "order l"]
    by (simp add: lru_touch_def Some move_to_front_update_elem lru_entries_def a_touch_def a_remove_def)
qed

lemma entries_remove:
  assumes "lru_inv l"
  shows "lru_entries (fst (lru_remove l aid)) = a_remove aid (lru_entries l)"
proof (cases "items l aid")
  case None
  with assms have "aid \<notin> fst ` set (lru_entries l)"
    by (metis lru_absent map_of_eq_None_iff)
  then show ?thesis by (simp add: lru_remove_def None a_remove_def filter_fst_neq_id)
next
  case (Some el)
  then show ?thesis
    using list_remove_by_id [OF assms Some] a_remove_entries [of aid "order l"]
    by (simp add: lru_remove_def lru_entries_def)
qed

lemma drop_tail_simps:
  assumes "lru_inv l" and "order l \<noteq> []"
  shows "order (drop_tail l) = butlast (order l)"
    and "items (drop_tail l) = (items l)(adapterID (snd (last (order l))) := None)"
    and "curSize (drop_tail l) = curSize l - entrySize (snd (last (order l)))"
    and "maxSize (drop_tail l) = maxSize l"
    and "nextElem (drop_tail l) = nextElem l"
    and "lru_entries (drop_tail l) = butlast (lru_entries l)"
  using assms filter_fst_last_butlast [of "order l"]
  by (simp_all add: drop_tail_def list_remove_def case_prod_beta lru_inv_def lru_entries_def map_butlast)

section \<open>Preservation of the invariant\<close>

lemma touch_new_inv:
  assumes "lru_inv l" and "items l aid = None"
  shows "lru_inv (lru_touch l aid sz now)"
proof -
  have "aid \<notin> set (lru_items l)" using assms by (auto simp: lru_inv_def)
  moreover have "fst p \<noteq> nextElem l" "adapterID (snd p) \<noteq> aid" if "p \<in> set (order l)" for p
    using that assms by (auto simp: lru_inv_def)
  ultimately show ?thesis using assms
    by (auto simp: lru_touch_def Let_def lru_inv_def lru_items_alt)
qed

lemma touch_old_inv:
  assumes "lru_inv l" and some: "items l aid = Some el"
  shows "lru_inv (lru_touch l aid sz now)"
proof -
  from lru_lookup_size [OF assms] obtain e where e: "map_of (order l) el = Some e" "adapterID e = aid"
    by blast
  have in_order: "(el, e) \<in> set (order l)" using e(1) by (rule map_of_SomeD)
  let ?rest = "list_remove el (order l)"
  have ord: "order (lru_touch l aid sz now) = (el, e\<lparr>accessedAt := now\<rparr>) # ?rest"
    using e by (simp add: lru_touch_def some move_to_front_update_elem)
  have other: "items (lru_touch l aid sz now) = items l" "curSize (lru_touch l aid sz now) = curSize l"
    "nextElem (lru_touch l aid sz now) = nextElem l" by (simp_all add: lru_touch_def some)
  have ids: "lru_items (lru_touch l aid sz now) = aid # filter (\<lambda>a. a \<noteq> aid) (lru_items l)"
    using ord e list_remove_by_id [OF assms] by (simp add: lru_items_alt filter_map o_def)
  have "curSize l = entrySize e + sum_list (map (\<lambda>p. entrySize (snd p)) ?rest)"
  proof -
    have "filter (\<lambda>p. fst p = el) (order l) = [(el, e)]"
      using assms(1) e(1) by (auto simp: lru_inv_def intro: filter_fst_eq_single)
    then show ?thesis using assms(1)
      sum_list_filter_split [of "\<lambda>p. entrySize (snd p)" "order l" "\<lambda>p. fst p = el"]
      by (simp add: lru_inv_def list_remove_def)
  qed
  moreover have "aid \<in> set (lru_items l)" using assms by (auto simp: lru_inv_def)
  ultimately show ?thesis using assms(1) e in_order
    unfolding lru_inv_def ord other ids
    by (auto simp: set_list_remove distinct_map_filter_fst list_remove_def)
qed

lemma lru_touch_inv [inv_intros]: "lru_inv l \<Longrightarrow> lru_inv (lru_touch l aid sz now)"
  by (cases "items l aid") (auto intro: touch_new_inv touch_old_inv)

lemma drop_tail_inv:
  assumes "lru_inv l" and "order l \<noteq> []"
  shows "lru_inv (drop_tail l)"
proof -
  from assms(2) obtain xs el e where ord: "order l = xs @ [(el, e)]"
    by (metis prod.collapse rev_exhaust)
  note simps = drop_tail_simps [OF assms]
  have fresh: "adapterID e \<notin> adapterID ` snd ` set xs"
    using assms(1) by (auto simp: lru_inv_def lru_items_alt ord)
  have "dom (items (drop_tail l)) = adapterID ` snd ` set xs"
    using assms(1) fresh by (auto simp: lru_inv_def lru_items_alt ord simps image_image)
  moreover have "items (drop_tail l) (adapterID (snd p)) = Some (fst p)" if "p \<in> set xs" for p
    using assms(1) fresh that by (auto simp: lru_inv_def ord simps)
  ultimately show ?thesis using assms(1)
    by (simp add: lru_inv_def lru_items_alt simps ord image_image)
qed

lemma lru_remove_inv [inv_intros]:
  assumes "lru_inv l"
  shows "lru_inv (fst (lru_remove l aid))"
proof (cases "items l aid")
  case None
  with assms show ?thesis by (simp add: lru_remove_def)
next
  case (Some el)
  from lru_lookup_size [OF assms Some] obtain e where e: "map_of (order l) el = Some e" "adapterID e = aid"
    by blast
  let ?l = "fst (lru_remove l aid)"
  have ord: "order ?l = list_remove el (order l)" "items ?l = (items l)(aid := None)"
    "nextElem ?l = nextElem l" "curSize ?l = curSize l - entrySize e"
    using e by (simp_all add: lru_remove_def Some)
  have ids: "lru_items ?l = filter (\<lambda>a. a \<noteq> aid) (lru_items l)"
    using ord list_remove_by_id [OF assms Some] by (simp add: lru_items_alt filter_map o_def)
  have "filter (\<lambda>p. fst p = el) (order l) = [(el, e)]"
    using assms e(1) by (auto simp: lru_inv_def intro: filter_fst_eq_single)
  then have "curSize l = entrySize e + sum_list (map (\<lambda>p. entrySize (snd p)) (list_remove el (order l)))"
    using assms sum_list_filter_split [of "\<lambda>p. entrySize (snd p)" "order l" "\<lambda>p. fst p = el"]
    by (simp add: lru_inv_def list_remove_def)
  then show ?thesis using assms lru_inv_same_element [OF assms Some]
    unfolding lru_inv_def ord ids
    by (auto simp: set_list_remove distinct_map_filter_fst list_remove_def)
qed

lemma evict_loop_spec:
  assumes "lru_inv l"
  shows "lru_inv (fst (evict_loop l req acc))
    \<and> lru_entries (fst (evict_loop l req acc)) = a_evict (maxSize l) req (lru_entries l)
    \<and> snd (evict_loop l req acc) = acc @ a_evicted (maxSize l) req (lru_entries l)
    \<and> maxSize (fst (evict_loop l req acc)) = maxSize l"
  using assms
proof (induction l req acc rule: evict_loop.induct)
  case (1 l req acc)
  let ?xs = "lru_entries l"
  have fits: "a_fits (maxSize l) req ?xs \<longleftrightarrow> \<not> maxSize l <s curSize l + req"
    using 1(2) by (simp add: a_fits_def a_total_lru_entries)
  show ?case
  proof (cases "maxSize l <s curSize l + req \<and> order l \<noteq> []")
    case True
    then have ne: "order l \<noteq> []" and nofit: "\<not> a_fits (maxSize l) req ?xs" using fits by auto
    have xs: "?xs \<noteq> []" using ne by (simp add: lru_entries_def)
    have bl: "lru_entries (drop_tail l) = butlast ?xs" "maxSize (drop_tail l) = maxSize l"
      using drop_tail_simps [OF 1(2) ne] by simp_all
    have k: "keep_len (maxSize l) req ?xs = keep_len (maxSize l) req (butlast ?xs)"
      using keep_len_butlast [OF nofit xs] .
    let ?k = "keep_len (maxSize l) req (butlast ?xs)"
    have "?k \<le> length (butlast ?xs)" by (rule keep_len_le)
    then have "take ?k ?xs = take ?k (butlast ?xs)" "drop ?k ?xs = drop ?k (butlast ?xs) @ [last ?xs]"
      using xs by (metis append_butlast_last_id take_append diff_is_0_eq take_0 append_Nil2)
        (metis \<open>?k \<le> length (butlast ?xs)\<close> append_butlast_last_id xs drop_append diff_is_0_eq drop_0)
    moreover have "fst (last ?xs) = adapterID (snd (last (order l)))"
      using ne by (simp add: lru_entries_def last_map)
    ultimately show ?thesis
      using 1(1) [OF True drop_tail_inv [OF 1(2) ne]] True
      by (simp add: evict_loop.simps [of l req acc] bl a_evict_def a_evicted_def k)
  next
    case False
    then have "?xs = [] \<or> a_fits (maxSize l) req ?xs" using fits by (auto simp: lru_entries_def)
    then show ?thesis using False 1(2)
      by (auto simp: evict_loop.simps [of l req acc] a_evict_def a_evicted_def keep_len_full)
  qed
qed

lemma lru_evict_inv [inv_intros]: "lru_inv l \<Longrightarrow> lru_inv (fst (lru_evict l req))"
  by (simp add: lru_evict_def evict_loop_spec)

lemma entries_evict:
  assumes "lru_inv l"
  shows "lru_entries (fst (lru_evict l req)) = a_evict (maxSize l) req (lru_entries l)"
    and "snd (lru_evict l req) = a_evicted (maxSize l) req (lru_entries l)"
  using evict_loop_spec [OF assms] by (simp_all add: lru_evict_def)

lemma lru_maxSize_simps [simp]:
  "maxSize (lru_touch l aid sz now) = maxSize l"
  "maxSize (fst (lru_remove l aid)) = maxSize l"
  by (simp_all add: lru_touch_def lru_remove_def Let_def split: option.split)

lemma maxSize_evict [simp]: "lru_inv l \<Longrightarrow> maxSize (fst (lru_evict l req)) = maxSize l"
  by (simp add: lru_evict_def evict_loop_spec)

section \<open>The LRU as a machine, and what its clients rely on\<close>

datatype lru_op = OpTouch string int64 int | OpEvict int64 | OpRemove string

fun lru_step :: "LRU \<Rightarrow> lru_op \<Rightarrow> LRU" where
  "lru_step l (OpTouch aid sz now) = lru_touch l aid sz now"
| "lru_step l (OpEvict req) = fst (lru_evict l req)"
| "lru_step l (OpRemove aid) = fst (lru_remove l aid)"

fun a_step :: "int64 \<times> (string \<times> int64) list \<Rightarrow> lru_op \<Rightarrow> int64 \<times> (string \<times> int64) list" where
  "a_step (mx, xs) (OpTouch aid sz now) = (mx, a_touch aid sz xs)"
| "a_step (mx, xs) (OpEvict req) = (mx, a_evict mx req xs)"
| "a_step (mx, xs) (OpRemove aid) = (mx, a_remove aid xs)"

lemma fst_a_run: "fst (foldl a_step s qs) = fst s"
proof (induction qs arbitrary: s)
  case Nil
  then show ?case by simp
next
  case (Cons q qs)
  then show ?case by (cases s; cases q) simp_all
qed

interpretation lru_machine: refined_machine lru_step lru_inv "\<lambda>l. (maxSize l, lru_entries l)" a_step
proof unfold_locales
  show "lru_inv (lru_step l q)" if "lru_inv l" for l q
    using that by (cases q) (auto intro: inv_intros)
  show "(maxSize (lru_step l q), lru_entries (lru_step l q)) = a_step (maxSize l, lru_entries l) q"
    if "lru_inv l" for l q
    using that by (cases q) (simp_all add: entries_touch entries_evict entries_remove)
qed

text \<open>
  What the store and the cache manager rely on: an index of adapters with sizes whose
  operations act on the recency list as the abstract operations do.
\<close>

locale recency_index =
  fixes wf :: "'l \<Rightarrow> bool"
    and entries :: "'l \<Rightarrow> (string \<times> int64) list"
    and budget :: "'l \<Rightarrow> int64"
    and touch :: "'l \<Rightarrow> string \<Rightarrow> int64 \<Rightarrow> int \<Rightarrow> 'l"
    and evict :: "'l \<Rightarrow> int64 \<Rightarrow> 'l \<times> string list"
    and remove :: "'l \<Rightarrow> string \<Rightarrow> 'l \<times> bool"
  assumes wf_distinct: "wf l \<Longrightarrow> distinct (map fst (entries l))"
    and wf_touch: "wf l \<Longrightarrow> wf (touch l a s t)"
    and wf_evict: "wf l \<Longrightarrow> wf (fst (evict l r))"
    and wf_remove: "wf l \<Longrightarrow> wf (fst (remove l a))"
    and touch_entries: "wf l \<Longrightarrow> entries (touch l a s t) = a_touch a s (entries l)"
    and evict_entries: "wf l \<Longrightarrow> entries (fst (evict l r)) = a_evict (budget l) r (entries l)"
    and evict_result: "wf l \<Longrightarrow> snd (evict l r) = a_evicted (budget l) r (entries l)"
    and remove_entries: "wf l \<Longrightarrow> entries (fst (remove l a)) = a_remove a (entries l)"
begin

lemma tracked_touch: "wf l \<Longrightarrow> fst ` set (entries (touch l a s t)) = insert a (fst ` set (entries l))"
  by (force simp: touch_entries a_touch_def map_of_eq_None_iff split: option.split
      dest: map_of_SomeD)

lemma tracked_remove: "wf l \<Longrightarrow> fst ` set (entries (fst (remove l a))) = fst ` set (entries l) - {a}"
  by (auto simp: remove_entries a_remove_def)

lemma evict_partition:
  assumes "wf l"
  shows "fst ` set (entries (fst (evict l r))) \<union> set (snd (evict l r)) = fst ` set (entries l)"
    and "fst ` set (entries (fst (evict l r))) \<inter> set (snd (evict l r)) = {}"
proof -
  let ?k = "keep_len (budget l) r (entries l)"
  have kept: "fst ` set (entries (fst (evict l r))) = set (take ?k (map fst (entries l)))"
    using assms by (simp add: evict_entries a_evict_def take_map)
  have gone: "set (snd (evict l r)) = set (drop ?k (map fst (entries l)))"
    using assms by (simp add: evict_result a_evicted_def drop_map)
  show "fst ` set (entries (fst (evict l r))) \<union> set (snd (evict l r)) = fst ` set (entries l)"
    unfolding kept gone by (metis append_take_drop_id set_append set_map)
  show "fst ` set (entries (fst (evict l r))) \<inter> set (snd (evict l r)) = {}"
    unfolding kept gone using wf_distinct [OF assms] by (metis append_take_drop_id distinct_append)
qed

lemma evict_room:
  assumes "wf l" and "\<not> budget l <s r"
  shows "\<not> budget l <s a_total (entries (fst (evict l r))) + r"
  using assms keep_len_fits [of "budget l" r "entries l"]
  by (auto simp: evict_entries a_evict_def a_fits_def a_total_def)

lemma touch_total:
  assumes "wf l"
  shows "a_total (entries (touch l a s t)) =
    (if a \<in> fst ` set (entries l) then a_total (entries l) else a_total (entries l) + s)"
proof (cases "map_of (entries l) a")
  case None
  then have "a \<notin> fst ` set (entries l)" by (simp add: map_of_eq_None_iff)
  with None assms show ?thesis
    by (simp add: touch_entries a_touch_def a_total_def add.commute)
next
  case (Some v)
  then have "a \<in> fst ` set (entries l)" by (force dest: map_of_SomeD)
  moreover have "sum_list (map snd (entries l)) = v + sum_list (map snd (filter (\<lambda>p. fst p \<noteq> a) (entries l)))"
    using filter_fst_eq_single [OF wf_distinct [OF assms] Some]
      sum_list_filter_split [of snd "entries l" "\<lambda>p. fst p = a"] by simp
  ultimately show ?thesis using assms Some by (simp add: touch_entries a_touch_def a_total_def)
qed

text \<open>Making room for a new adapter and then recording it stays within the budget.\<close>

lemma evict_then_touch:
  assumes "wf l" and "\<not> budget l <s s" and "a \<notin> fst ` set (entries l)"
  shows "\<not> budget l <s a_total (entries (touch (fst (evict l s)) a s t))"
proof -
  have "a \<notin> fst ` set (entries (fst (evict l s)))"
    using evict_partition(1) [OF assms(1), of s] assms(3) by blast
  then show ?thesis using evict_room [OF assms(1,2)]
    by (simp add: touch_total wf_evict assms(1))
qed

end

interpretation lru_index: recency_index lru_inv lru_entries maxSize lru_touch lru_evict lru_remove
proof unfold_locales
  show "distinct (map fst (lru_entries l))" if "lru_inv l" for l
    using that by (simp add: lru_inv_def)
qed (auto simp: entries_touch entries_evict entries_remove intro: inv_intros)

section \<open>Properties\<close>

text \<open>
  C10: however the cache is used (any sequence of Touch, Evict and Remove, as the mutex serialises
  them), the item map and the list stay in agreement, the running total stays the sum of the
  recorded sizes (in Go's 64-bit arithmetic), and the structure behaves as the plain recency
  list of (adapter, size) pairs.
\<close>

theorem lru_refines_recency_list:
  "lru_inv (foldl lru_step (NewLRU mx) qs)
   \<and> (mx, lru_entries (foldl lru_step (NewLRU mx) qs)) = foldl a_step (mx, []) qs"
proof -
  have new: "(maxSize (NewLRU mx), lru_entries (NewLRU mx)) = (mx, [])"
    by (simp add: NewLRU_def lru_entries_def)
  have "fst (foldl a_step (mx, []) qs) = mx"
    using fst_a_run [of "(mx, [])" qs] by simp
  with lru_machine.run_inv [OF NewLRU_inv, of mx qs] lru_machine.run_abs [OF NewLRU_inv, of mx qs]
  show ?thesis unfolding new by (metis fst_conv)
qed

lemma a_total_sint:
  assumes "\<forall>p \<in> set xs. 0 \<le> sint (snd p)" and "sum_list (map (sint \<circ> snd) xs) < 2 ^ 63"
  shows "sint (a_total xs) = sum_list (map (sint \<circ> snd) xs)"
  using assms sint_sum_list64 [of "map snd xs"] by (simp add: a_total_def)

lemma sum_sizes_take:
  assumes "\<forall>p \<in> set xs. 0 \<le> sint (snd p)"
  shows "0 \<le> sum_list (map (sint \<circ> snd) (take k xs))"
    and "sum_list (map (sint \<circ> snd) (take k xs)) \<le> sum_list (map (sint \<circ> snd) xs)"
proof -
  have nonneg: "0 \<le> sum_list (map (sint \<circ> snd) ys)" if "set ys \<subseteq> set xs" for ys
    using assms that by (intro sum_list_nonneg) auto
  show "0 \<le> sum_list (map (sint \<circ> snd) (take k xs))" by (rule nonneg) (rule set_take_subset)
  have "sum_list (map (sint \<circ> snd) xs)
      = sum_list (map (sint \<circ> snd) (take k xs)) + sum_list (map (sint \<circ> snd) (drop k xs))"
    by (metis append_take_drop_id map_append sum_list_append)
  with nonneg [OF set_drop_subset]
  show "sum_list (map (sint \<circ> snd) (take k xs)) \<le> sum_list (map (sint \<circ> snd) xs)" by simp
qed

lemma a_fits_sint:
  assumes "\<forall>p \<in> set xs. 0 \<le> sint (snd p)"
    and "sum_list (map (sint \<circ> snd) xs) + sint req < 2 ^ 63" and "0 \<le> sint req"
  shows "a_fits mx req (take k xs) \<longleftrightarrow> sum_list (map (sint \<circ> snd) (take k xs)) + sint req \<le> sint mx"
proof -
  note bounds = sum_sizes_take [OF assms(1), of k]
  have "sint (a_total (take k xs)) = sum_list (map (sint \<circ> snd) (take k xs))"
    using bounds assms by (intro a_total_sint) (auto dest: in_set_takeD)
  with bounds assms show ?thesis by (simp add: a_fits_def sless_sint sint_add64 not_less)
qed

text \<open>
  C11: Evict makes room and evicts no more than it must.  When the recorded sizes are
  non-negative, sum to less than 2^63 together with the request, and the request itself fits
  the budget, the entries kept are the most recently used ones, in order; they leave the
  requested room; the evicted IDs are the rest, least recently used first; and keeping one more
  entry would not have left the room.
\<close>

theorem lru_evict_minimal_room:
  assumes "lru_inv l" and "\<forall>p \<in> set (lru_entries l). 0 \<le> sint (snd p)"
    and "sum_list (map (sint \<circ> snd) (lru_entries l)) + sint req < 2 ^ 63"
    and "0 \<le> sint req" and "sint req \<le> sint (maxSize l)"
  shows "\<exists>k \<le> length (lru_entries l).
    lru_entries (fst (lru_evict l req)) = take k (lru_entries l)
    \<and> snd (lru_evict l req) = rev (map fst (drop k (lru_entries l)))
    \<and> sum_list (map (sint \<circ> snd) (take k (lru_entries l))) + sint req \<le> sint (maxSize l)
    \<and> (\<forall>j. k < j \<and> j \<le> length (lru_entries l) \<longrightarrow>
          sint (maxSize l) < sum_list (map (sint \<circ> snd) (take j (lru_entries l))) + sint req)"
proof -
  let ?xs = "lru_entries l" and ?mx = "maxSize l"
  let ?k = "keep_len ?mx req ?xs"
  note fits = a_fits_sint [OF assms(2,3,4), of ?mx]
  have room: "sum_list (map (sint \<circ> snd) (take ?k ?xs)) + sint req \<le> sint ?mx"
  proof (cases "?k = 0")
    case True
    then show ?thesis using assms(5) by (simp only: take_0 list.map sum_list.Nil add_0)
  next
    case False
    then have "a_fits ?mx req (take ?k ?xs)" using keep_len_fits [of ?mx req ?xs] by simp
    then show ?thesis unfolding fits .
  qed
  have "\<not> a_fits ?mx req (take j ?xs)" if "?k < j" "j \<le> length ?xs" for j
    using keep_len_maximal that .
  then have tight: "\<forall>j. ?k < j \<and> j \<le> length ?xs \<longrightarrow>
      sint ?mx < sum_list (map (sint \<circ> snd) (take j ?xs)) + sint req"
    unfolding fits by (simp add: not_le)
  have "?k \<le> length ?xs" by (rule keep_len_le)
  moreover have "lru_entries (fst (lru_evict l req)) = take ?k ?xs"
    "snd (lru_evict l req) = rev (map fst (drop ?k ?xs))"
    using entries_evict [OF assms(1)] by (simp_all add: a_evict_def a_evicted_def)
  ultimately show ?thesis using room tight by metis
qed

theorem lru_evict_minimal_room_witness:
  "\<exists>l. snd (lru_evict l 150) = [''b'']
    \<and> l = foldl lru_step (NewLRU 300) [OpTouch ''a'' 100 1, OpTouch ''b'' 100 2, OpTouch ''a'' 100 3]"
proof -
  let ?qs = "[OpTouch ''a'' 100 1, OpTouch ''b'' 100 2, OpTouch ''a'' 100 3]"
  define l where "l = foldl lru_step (NewLRU 300) ?qs"
  have inv: "lru_inv l" unfolding l_def by (rule lru_machine.run_inv [OF NewLRU_inv])
  have entries: "lru_entries l = [(''a'', 100), (''b'', 100)]" and mx: "maxSize l = 300"
    by (simp_all add: l_def NewLRU_def lru_touch_def move_to_front_def update_elem_def lru_entries_def)
  have hyps: "\<forall>p \<in> set (lru_entries l). 0 \<le> sint (snd p)"
    "sum_list (map (sint \<circ> snd) (lru_entries l)) + sint (150 :: int64) < 2 ^ 63"
    "0 \<le> sint (150 :: int64)" "sint (150 :: int64) \<le> sint (maxSize l)"
    by (simp_all add: entries mx)
  obtain k where k: "k \<le> length (lru_entries l)"
    "snd (lru_evict l 150) = rev (map fst (drop k (lru_entries l)))"
    "sum_list (map (sint \<circ> snd) (take k (lru_entries l))) + sint (150 :: int64) \<le> sint (maxSize l)"
    "\<forall>j. k < j \<and> j \<le> length (lru_entries l) \<longrightarrow>
       sint (maxSize l) < sum_list (map (sint \<circ> snd) (take j (lru_entries l))) + sint (150 :: int64)"
    using lru_evict_minimal_room [OF inv hyps] by blast
  have "k \<noteq> 0" using k(4) by (auto simp: entries mx dest: spec [of _ 1])
  moreover have "k \<noteq> 2" using k(3) by (auto simp: entries mx)
  ultimately have "k = 1" using k(1) by (simp add: entries)
  then have "snd (lru_evict l 150) = [''b'']" using k(2) by (simp add: entries)
  then show ?thesis using l_def by blast
qed

end
