(* ===== verification/GoSort.thy ===== *)
theory GoSort
  imports Prelude "HOL-Library.Multiset"
begin

text \<open>
  Go's \<open>sort\<close> package as the code uses it.  \<open>sort.Slice\<close> is not stable, so all a caller may
  rely on is that the result is some ordered permutation: the locale \<open>slice_sorter\<close> states that
  contract and proves what follows from it, and the functions of the development that sort take
  the sorting function as an argument.  \<open>sort.Search\<close> is the binary search itself.
\<close>

section \<open>sort.Slice: an ordered permutation\<close>

locale slice_sorter =
  fixes key :: "'a \<Rightarrow> 'k::linorder"
    and srt :: "'a list \<Rightarrow> 'a list"
  assumes srt_mset: "mset (srt xs) = mset xs"
    and srt_sorted: "sorted (map key (srt xs))"
begin

lemma srt_set: "set (srt xs) = set xs"
  using srt_mset by (rule mset_eq_setD)

lemma srt_length: "length (srt xs) = length xs"
  using srt_mset by (rule mset_eq_length)

lemma srt_Nil: "srt [] = []"
  using srt_length [of "[]"] by simp

lemma srt_map_mset: "mset (map f (srt xs)) = mset (map f xs)"
  by (simp add: srt_mset)

lemma srt_distinct: "distinct (srt xs) = distinct xs"
  using srt_mset by (rule mset_eq_imp_distinct_iff)

lemma srt_keys: "map key (srt xs) = sort (map key xs)"
  by (rule properties_for_sort [symmetric]) (simp_all add: srt_mset srt_sorted)

end

text \<open>The contract is met by the library's stable sort, which the executable examples use.\<close>

interpretation stable_sorter: slice_sorter k "sort_key k" for k :: "'a \<Rightarrow> 'k::linorder"
  by unfold_locales simp_all

section \<open>sort.Search: binary search\<close>

text \<open>
  The loop of \<open>sort.Search(n, f)\<close>: it keeps \<open>f (i - 1)\<close> false and \<open>f j\<close> true and halves the
  interval.
\<close>

function search_loop :: "(nat \<Rightarrow> bool) \<Rightarrow> nat \<Rightarrow> nat \<Rightarrow> nat" where
  "search_loop f i j =
     (if i < j then
        (let h = (i + j) div 2
         in if \<not> f h then search_loop f (h + 1) j else search_loop f i h)
      else i)"
  by pat_completeness auto
termination
  by (relation "measure (\<lambda>(f, i, j). j - i)") auto

definition sort_Search :: "nat \<Rightarrow> (nat \<Rightarrow> bool) \<Rightarrow> nat" where
  "sort_Search n f = search_loop f 0 n"

declare search_loop.simps [simp del]

text \<open>A test that stays true once it is true, below a bound.\<close>

definition mono_test :: "nat \<Rightarrow> (nat \<Rightarrow> bool) \<Rightarrow> bool" where
  "mono_test n f \<longleftrightarrow> (\<forall>a < n. \<forall>b < n. a \<le> b \<longrightarrow> f a \<longrightarrow> f b)"

lemma mono_testD: "mono_test n f \<Longrightarrow> f a \<Longrightarrow> a \<le> b \<Longrightarrow> b < n \<Longrightarrow> f b"
  unfolding mono_test_def using le_less_trans by blast

definition splits_at :: "nat \<Rightarrow> (nat \<Rightarrow> bool) \<Rightarrow> nat \<Rightarrow> bool" where
  "splits_at n f m \<longleftrightarrow> m \<le> n \<and> (\<forall>k < m. \<not> f k) \<and> (\<forall>k < n. m \<le> k \<longrightarrow> f k)"

lemma search_loop_spec:
  assumes "mono_test n f" and "i \<le> j" and "j \<le> n"
    and "\<forall>k < i. \<not> f k" and "\<forall>k < n. j \<le> k \<longrightarrow> f k"
  shows "splits_at n f (search_loop f i j)"
  using assms
proof (induction f i j rule: search_loop.induct)
  case (1 f i j)
  show ?case
  proof (cases "i < j")
    case True
    define h where "h = (i + j) div 2"
    have h: "i \<le> h" "h < j" using True by (auto simp: h_def)
    show ?thesis
    proof (cases "f h")
      case ft: True
      have up: "\<forall>k < n. h \<le> k \<longrightarrow> f k" using mono_testD [OF "1.prems"(1) ft] by blast
      have "h \<le> n" using h "1.prems"(3) by simp
      then have "splits_at n f (search_loop f i h)"
        using "1.IH"(2) [OF True h_def _ "1.prems"(1) h(1) _ "1.prems"(4) up] ft by blast
      then show ?thesis using True ft by (simp add: search_loop.simps [of f i j] h_def [symmetric])
    next
      case ff: False
      have "h < n" using h "1.prems"(3) by simp
      then have low: "\<forall>k < h + 1. \<not> f k"
        using mono_testD [OF "1.prems"(1), of _ h] ff by (metis less_Suc_eq_le Suc_eq_plus1)
      have "h + 1 \<le> j" using h by simp
      then have "splits_at n f (search_loop f (h + 1) j)"
        using "1.IH"(1) [OF True h_def ff "1.prems"(1) _ "1.prems"(3) low "1.prems"(5)] by blast
      then show ?thesis using True ff by (simp add: search_loop.simps [of f i j] h_def [symmetric])
    qed
  next
    case False
    then have "search_loop f i j = i" "j = i" using "1.prems"(2) by (auto simp: search_loop.simps [of f i j] search_loop.simps [of f j j])
    then show ?thesis using "1.prems"(3-5) by (simp add: splits_at_def)
  qed
qed

text \<open>The least index at which a monotone test holds, or \<open>n\<close>.\<close>

lemma sort_Search_spec: "mono_test n f \<Longrightarrow> splits_at n f (sort_Search n f)"
  unfolding sort_Search_def by (rule search_loop_spec) simp_all

lemma splits_at_filter: "splits_at n f m \<Longrightarrow> m = length (filter (\<lambda>k. \<not> f k) [0..<n])"
proof -
  assume s: "splits_at n f m"
  then have "filter (\<lambda>k. \<not> f k) [0..<n] = filter (\<lambda>k. k < m) [0..<n]"
    by (intro filter_cong) (auto simp: splits_at_def not_less)
  moreover have "filter (\<lambda>k. k < m) [0..<n] = [0..<m]"
    using s by (induction n) (auto simp: splits_at_def le_Suc_eq)
  ultimately show ?thesis by simp
qed

end
