(* ===== verification/GoPath.thy ===== *)
theory GoPath
  imports Prelude "HOL-Library.Char_ord" "HOL-Library.List_Lexorder"
begin

text \<open>
  What the code uses of Go's \<open>strings\<close> and \<open>path/filepath\<close> packages (on Unix): prefix and suffix
  tests and trims, \<open>Split\<close>, \<open>ReplaceAll\<close>, \<open>Clean\<close>, \<open>Join\<close> and \<open>Rel\<close>.  A path string denotes a
  list of components; \<open>path_of\<close> resolves it against the root directory.  The lemmas relate the
  string tests the code makes to prefix relations between component lists.
\<close>

section \<open>Strings\<close>

abbreviation slash :: char where
  "slash \<equiv> CHR ''/''"

definition trim_prefix :: "string \<Rightarrow> string \<Rightarrow> string" where
  "trim_prefix p s = (if prefix p s then drop (length p) s else s)"

definition trim_suffix :: "string \<Rightarrow> string \<Rightarrow> string" where
  "trim_suffix p s = (if suffix p s then take (length s - length p) s else s)"

fun split_on :: "char \<Rightarrow> string \<Rightarrow> string list" where
  "split_on c [] = [[]]"
| "split_on c (x # xs) =
     (if x = c then [] # split_on c xs
      else (case split_on c xs of [] \<Rightarrow> [[x]] | y # ys \<Rightarrow> (x # y) # ys))"

fun join_with :: "char \<Rightarrow> string list \<Rightarrow> string" where
  "join_with c [] = []"
| "join_with c [x] = x"
| "join_with c (x # y # zs) = x @ c # join_with c (y # zs)"

text \<open>\<open>strings.ReplaceAll(s, "/", "__")\<close>.\<close>

definition replace_slashes :: "string \<Rightarrow> string" where
  "replace_slashes s = concat (map (\<lambda>c. if c = slash then ''__'' else [c]) s)"

text \<open>\<open>strings.TrimSpace\<close> on bytes, and the \<open>%d\<close> verb.\<close>

definition is_space :: "char \<Rightarrow> bool" where
  "is_space c \<longleftrightarrow> (of_char c :: nat) \<in> {9, 10, 11, 12, 13, 32}"

definition trim_space :: "string \<Rightarrow> string" where
  "trim_space s = rev (dropWhile is_space (rev (dropWhile is_space s)))"

fun utoa :: "nat \<Rightarrow> string" where
  "utoa n = (if n < 10 then [char_of (48 + n)] else utoa (n div 10) @ [char_of (48 + n mod 10)])"

declare utoa.simps [simp del]

definition itoa :: "int \<Rightarrow> string" where
  "itoa i = (if i < 0 then CHR ''-'' # utoa (nat (- i)) else utoa (nat i))"

lemma split_on_ne [simp]: "split_on c s \<noteq> []"
  by (induction s) (auto split: list.splits)

lemma split_on_append: "split_on c (a @ c # b) = split_on c a @ split_on c b"
proof (induction a)
  case Nil
  then show ?case by simp
next
  case (Cons x a)
  then show ?case by (cases "split_on c a") auto
qed

lemma split_on_plain: "c \<notin> set s \<Longrightarrow> split_on c s = [s]"
  by (induction s) auto

lemma join_with_Cons: "join_with c (x # xs) = (if xs = [] then x else x @ c # join_with c xs)"
  by (cases xs) auto

lemma join_split [simp]: "join_with c (split_on c s) = s"
proof (induction s)
  case Nil
  then show ?case by simp
next
  case (Cons x s)
  then show ?case by (cases "split_on c s") (auto simp: join_with_Cons split: if_splits)
qed

lemma split_join: "\<forall>x \<in> set xs. c \<notin> set x \<Longrightarrow> xs \<noteq> [] \<Longrightarrow> split_on c (join_with c xs) = xs"
proof (induction xs)
  case Nil
  then show ?case by simp
next
  case (Cons x xs)
  then show ?case by (cases "xs = []") (simp_all add: join_with_Cons split_on_append split_on_plain)
qed

lemma join_with_append:
  "xs \<noteq> [] \<Longrightarrow> ys \<noteq> [] \<Longrightarrow> join_with c (xs @ ys) = join_with c xs @ c # join_with c ys"
  by (induction xs) (auto simp: join_with_Cons)

lemma split_on_no_sep: "x \<in> set (split_on c s) \<Longrightarrow> c \<notin> set x"
proof (induction s arbitrary: x)
  case Nil
  then show ?case by simp
next
  case (Cons y s)
  then show ?case by (cases "split_on c s") (auto split: if_splits)
qed

text \<open>Prefix tests on joined strings are prefix tests on the components.\<close>

lemma prefix_join_sep:
  assumes "\<forall>x \<in> set xs. c \<notin> set x" "\<forall>y \<in> set ys. c \<notin> set y" and "xs \<noteq> []"
  shows "prefix (join_with c xs @ [c]) (join_with c ys) \<longleftrightarrow> strict_prefix xs ys"
proof
  assume "prefix (join_with c xs @ [c]) (join_with c ys)"
  then obtain r where r: "join_with c ys = join_with c xs @ c # r" by (auto simp: prefix_def)
  then have "ys \<noteq> []" by (cases ys) auto
  with assms r have "ys = xs @ split_on c r" by (metis split_join split_on_append)
  then show "strict_prefix xs ys" by (simp add: strict_prefix_def)
next
  assume "strict_prefix xs ys"
  then obtain zs where "ys = xs @ zs" "zs \<noteq> []" by (auto simp: strict_prefix_def prefix_def)
  with assms show "prefix (join_with c xs @ [c]) (join_with c ys)"
    by (simp add: join_with_append)
qed

lemma join_inj:
  assumes "\<forall>x \<in> set xs. c \<notin> set x \<and> x \<noteq> []" "\<forall>y \<in> set ys. c \<notin> set y \<and> y \<noteq> []"
    and "join_with c xs = join_with c ys"
  shows "xs = ys"
proof (cases "xs = []")
  case True
  with assms(2,3) show ?thesis by (cases ys) (auto simp: join_with_Cons split: if_splits)
next
  case xs: False
  show ?thesis
  proof (cases "ys = []")
    case True
    with assms(1,3) show ?thesis by (cases xs) (auto simp: join_with_Cons split: if_splits)
  next
    case False
    with xs assms show ?thesis by (metis split_join)
  qed
qed

section \<open>filepath.Clean and filepath.Join\<close>

text \<open>
  One component against the stack of components kept so far (most recent first): empty ones and
  \<open>.\<close> vanish, \<open>..\<close> cancels the last kept one, except that at the root it vanishes and in a
  relative path a leading \<open>..\<close> stays.
\<close>

definition clean_step :: "bool \<Rightarrow> string list \<Rightarrow> string \<Rightarrow> string list" where
  "clean_step rooted stack c =
     (if c = [] \<or> c = ''.'' then stack
      else if c = ''..'' then
        (case stack of
           [] \<Rightarrow> (if rooted then [] else [''..''])
         | d # rest \<Rightarrow> (if d = ''..'' then ''..'' # stack else rest))
      else c # stack)"

definition clean_comps :: "bool \<Rightarrow> string list \<Rightarrow> string list" where
  "clean_comps rooted cs = rev (foldl (clean_step rooted) [] cs)"

definition is_abs :: "string \<Rightarrow> bool" where
  "is_abs s = (case s of [] \<Rightarrow> False | c # _ \<Rightarrow> c = slash)"

definition clean :: "string \<Rightarrow> string" where
  "clean s =
     (if s = [] then ''.''
      else if is_abs s then slash # join_with slash (clean_comps True (split_on slash s))
      else let cs = clean_comps False (split_on slash s)
           in if cs = [] then ''.'' else join_with slash cs)"

definition path_join :: "string list \<Rightarrow> string" where
  "path_join elems =
     (case dropWhile (\<lambda>e. e = []) elems of [] \<Rightarrow> [] | es \<Rightarrow> clean (join_with slash es))"

text \<open>The component list a path string denotes, relative names taken from the root.\<close>

definition path_of :: "string \<Rightarrow> path" where
  "path_of s = clean_comps True (split_on slash s)"

text \<open>Components that name a directory entry.\<close>

definition proper :: "string \<Rightarrow> bool" where
  "proper c \<longleftrightarrow> c \<noteq> [] \<and> c \<noteq> ''.'' \<and> c \<noteq> ''..'' \<and> slash \<notin> set c"

text \<open>Walking components from a directory.\<close>

definition walk_from :: "path \<Rightarrow> string list \<Rightarrow> path" where
  "walk_from p cs = rev (foldl (clean_step True) (rev p) cs)"

lemma clean_comps_walk: "clean_comps True cs = walk_from [] cs"
  by (simp add: clean_comps_def walk_from_def)

lemma walk_from_Nil [simp]: "walk_from p [] = p"
  by (simp add: walk_from_def)

lemma walk_from_append: "walk_from p (cs @ ds) = walk_from (walk_from p cs) ds"
  by (simp add: walk_from_def)

lemma walk_from_proper_comps: "\<forall>c \<in> set cs. proper c \<Longrightarrow> walk_from p cs = p @ cs"
proof (induction cs arbitrary: p)
  case Nil
  then show ?case by simp
next
  case (Cons c cs)
  have "clean_step True (rev p) c = rev (p @ [c])"
    using Cons.prems by (simp add: clean_step_def proper_def)
  then have "walk_from p (c # cs) = walk_from (p @ [c]) cs" by (simp add: walk_from_def)
  also have "\<dots> = (p @ [c]) @ cs" using Cons.prems by (intro Cons.IH) simp
  finally show ?case by simp
qed

lemma clean_step_proper:
  assumes "\<forall>d \<in> set st. proper d" and "slash \<notin> set c"
  shows "\<forall>d \<in> set (clean_step True st c). proper d"
proof (cases "c = [] \<or> c = ''.'' \<or> c = ''..''")
  case True
  then show ?thesis using assms(1) by (cases st) (auto simp: clean_step_def proper_def)
next
  case False
  then have "proper c" "clean_step True st c = c # st"
    using assms(2) by (simp_all add: proper_def clean_step_def)
  then show ?thesis using assms(1) by simp
qed

lemma walk_from_proper:
  assumes "\<forall>c \<in> set p. proper c" and "\<forall>c \<in> set cs. slash \<notin> set c"
  shows "\<forall>c \<in> set (walk_from p cs). proper c"
  using assms
proof (induction cs arbitrary: p)
  case Nil
  then show ?case by simp
next
  case (Cons c cs)
  have "\<forall>d \<in> set (clean_step True (rev p) c). proper d"
    using Cons.prems by (intro clean_step_proper) auto
  then have "\<forall>d \<in> set (rev (clean_step True (rev p) c)). proper d" by simp
  from Cons.IH [OF this] Cons.prems(2) show ?case by (simp add: walk_from_def)
qed

lemma path_of_proper: "\<forall>c \<in> set (path_of s). proper c"
  unfolding path_of_def clean_comps_walk
  by (rule walk_from_proper) (auto dest: split_on_no_sep)

lemma path_of_rooted: "path_of (slash # s) = path_of s"
  by (simp add: path_of_def clean_comps_def clean_step_def)

lemma path_of_append_slash: "path_of (a @ slash # b) = walk_from (path_of a) (split_on slash b)"
  by (simp add: path_of_def clean_comps_walk split_on_append walk_from_append)

lemma path_of_join_proper:
  assumes "\<forall>c \<in> set cs. proper c"
  shows "path_of (join_with slash cs) = cs"
proof (cases "cs = []")
  case True
  then show ?thesis by (simp add: path_of_def clean_comps_def clean_step_def)
next
  case False
  then have "split_on slash (join_with slash cs) = cs"
    using assms by (intro split_join) (auto simp: proper_def)
  then show ?thesis
    using walk_from_proper_comps [OF assms, of "[]"] by (simp add: path_of_def clean_comps_walk)
qed

lemma path_of_Nil [simp]: "path_of [] = []"
  by (simp add: path_of_def clean_comps_def clean_step_def)

lemma clean_abs: "is_abs s \<Longrightarrow> clean s = slash # join_with slash (path_of s)"
  by (auto simp: clean_def path_of_def is_abs_def)

lemma path_of_clean_abs: "is_abs s \<Longrightarrow> path_of (clean s) = path_of s"
  by (simp add: clean_abs path_of_rooted path_of_join_proper path_of_proper)

lemma clean_is_abs: "is_abs s \<Longrightarrow> is_abs (clean s)"
  by (simp add: clean_abs is_abs_def)

lemma path_join_abs:
  assumes "is_abs a"
  shows "path_join [a, b] = slash # join_with slash (walk_from (path_of a) (split_on slash b))"
proof -
  have "a \<noteq> []" and "is_abs (a @ slash # b)" using assms by (auto simp: is_abs_def split: list.splits)
  then show ?thesis by (simp add: path_join_def clean_abs path_of_append_slash)
qed

lemma path_of_path_join:
  assumes "is_abs a"
  shows "path_of (path_join [a, b]) = walk_from (path_of a) (split_on slash b)"
proof -
  have "\<forall>c \<in> set (walk_from (path_of a) (split_on slash b)). proper c"
    by (rule walk_from_proper [OF path_of_proper]) (auto dest: split_on_no_sep)
  then show ?thesis by (simp add: path_join_abs assms path_of_rooted path_of_join_proper)
qed

lemma path_join_is_abs: "is_abs a \<Longrightarrow> is_abs (path_join [a, b])"
  by (simp add: path_join_abs is_abs_def)

lemma path_of_path_join_entry:
  assumes "is_abs a" and "proper b"
  shows "path_of (path_join [a, b]) = path_of a @ [b]"
proof -
  have "split_on slash b = [b]" using assms(2) by (simp add: proper_def split_on_plain)
  then show ?thesis using assms walk_from_proper_comps [of "[b]" "path_of a"]
    by (simp add: path_of_path_join)
qed

section \<open>filepath.Rel below a directory\<close>

text \<open>\<open>filepath.Rel(base, dir)\<close> for a directory at or below the base.\<close>

definition rel_path :: "path \<Rightarrow> path \<Rightarrow> string" where
  "rel_path base dir =
     (let cs = drop (length base) dir in if cs = [] then ''.'' else join_with slash cs)"

lemma walk_from_rel_path:
  assumes "prefix base dir" and "\<forall>c \<in> set dir. proper c"
  shows "walk_from base (split_on slash (rel_path base dir)) = dir"
proof (cases "drop (length base) dir = []")
  case True
  with assms(1) have "dir = base" by (auto simp: prefix_def)
  then show ?thesis by (simp add: rel_path_def walk_from_def clean_step_def)
next
  case False
  from assms(1) obtain cs where dir: "dir = base @ cs" by (auto simp: prefix_def)
  have cs: "\<forall>c \<in> set cs. proper c" using assms(2) dir by auto
  then have "split_on slash (join_with slash cs) = cs"
    using False dir by (intro split_join) (auto simp: proper_def)
  then show ?thesis using False dir walk_from_proper_comps [OF cs] by (simp add: rel_path_def Let_def)
qed

end
