(* ===== verification/FileSystem.thy ===== *)
theory FileSystem
  imports GoPath "HOL-Library.Multiset"
begin

text \<open>
  The file system as the code sees it through package \<open>os\<close> and \<open>filepath.WalkDir\<close>: a finite set
  of paths (component lists), each a directory or a file with its bytes and modification time.
  Symbolic links and permissions are not modelled; every call can in addition fail for a reason
  outside the program, which a fault function decides (a failing call has no effect).
\<close>

section \<open>State\<close>

datatype node = DirNode | FileNode string int

type_synonym fs = "(path \<times> node) list"

text \<open>Which calls fail, and how: the call's name and its path.\<close>

type_synonym faults = "string \<Rightarrow> path \<Rightarrow> errno option"

definition no_faults :: faults where
  "no_faults op p = None"

text \<open>The root directory always exists and has no entry of its own.\<close>

definition fs_get :: "fs \<Rightarrow> path \<Rightarrow> node option" where
  "fs_get fs p = (if p = [] then Some DirNode else map_of fs p)"

definition fs_wf :: "fs \<Rightarrow> bool" where
  "fs_wf fs \<longleftrightarrow> distinct (map fst fs)
     \<and> (\<forall>e \<in> set fs. fst e \<noteq> [] \<and> fs_get fs (butlast (fst e)) = Some DirNode)"

definition is_file :: "fs \<Rightarrow> path \<Rightarrow> bool" where
  "is_file fs p = (case fs_get fs p of Some (FileNode _ _) \<Rightarrow> True | _ \<Rightarrow> False)"

section \<open>Calls\<close>

text \<open>A call that the fault function lets through, or that fails without effect.\<close>

definition syscall :: "faults \<Rightarrow> string \<Rightarrow> path \<Rightarrow> (fs \<Rightarrow> errno + fs) \<Rightarrow> fs \<Rightarrow> unit res \<times> fs" where
  "syscall flt op p f fs =
     (case flt op p of
        Some e \<Rightarrow> (Inl (SysErr op p e), fs)
      | None \<Rightarrow> (case f fs of Inl e \<Rightarrow> (Inl (SysErr op p e), fs) | Inr fs' \<Rightarrow> (Inr (), fs')))"

definition mkdir_raw :: "path \<Rightarrow> fs \<Rightarrow> errno + fs" where
  "mkdir_raw p fs =
     (if list_ex (is_file fs) (prefixes p) then Inl ENOTDIR
      else Inr (map (\<lambda>q. (q, DirNode)) (filter (\<lambda>q. fs_get fs q = None) (prefixes p)) @ fs))"

definition remove_raw :: "path \<Rightarrow> fs \<Rightarrow> errno + fs" where
  "remove_raw p fs =
     (if list_ex (is_file fs) (prefixes (butlast p)) then Inl ENOTDIR
      else Inr (filter (\<lambda>e. \<not> prefix p (fst e)) fs))"

definition write_raw :: "path \<Rightarrow> string \<Rightarrow> int \<Rightarrow> fs \<Rightarrow> errno + fs" where
  "write_raw p d now fs =
     (case fs_get fs (butlast p) of
        None \<Rightarrow> Inl ENOENT
      | Some (FileNode _ _) \<Rightarrow> Inl ENOTDIR
      | Some DirNode \<Rightarrow>
          if fs_get fs p = Some DirNode then Inl EISDIR
          else Inr ((p, FileNode d now) # filter (\<lambda>e. fst e \<noteq> p) fs))"

text \<open>\<open>os.Rename\<close>: Go refuses an existing directory as the target.\<close>

definition rename_raw :: "path \<Rightarrow> path \<Rightarrow> fs \<Rightarrow> errno + fs" where
  "rename_raw src dst fs =
     (if fs_get fs src = None then Inl ENOENT
      else if fs_get fs dst = Some DirNode then Inl EEXIST
      else if prefix src dst then Inl EINVAL
      else if fs_get fs (butlast dst) \<noteq> Some DirNode then Inl ENOENT
      else if fs_get fs dst \<noteq> None \<and> fs_get fs src = Some DirNode then Inl ENOTDIR
      else Inr (map (\<lambda>e. if prefix src (fst e) then (dst @ drop (length src) (fst e), snd e) else e)
                 (filter (\<lambda>e. fst e \<noteq> dst) fs)))"

definition mkdir_all :: "faults \<Rightarrow> path \<Rightarrow> fs \<Rightarrow> unit res \<times> fs" where
  "mkdir_all flt p = syscall flt ''mkdir'' p (mkdir_raw p)"

definition remove_all :: "faults \<Rightarrow> path \<Rightarrow> fs \<Rightarrow> unit res \<times> fs" where
  "remove_all flt p = syscall flt ''unlinkat'' p (remove_raw p)"

definition write_file :: "faults \<Rightarrow> path \<Rightarrow> string \<Rightarrow> int \<Rightarrow> fs \<Rightarrow> unit res \<times> fs" where
  "write_file flt p d now = syscall flt ''open'' p (write_raw p d now)"

definition rename :: "faults \<Rightarrow> path \<Rightarrow> path \<Rightarrow> fs \<Rightarrow> unit res \<times> fs" where
  "rename flt src dst = syscall flt ''rename'' src (rename_raw src dst)"

definition stat :: "faults \<Rightarrow> path \<Rightarrow> fs \<Rightarrow> node res" where
  "stat flt p fs =
     (case flt ''stat'' p of
        Some e \<Rightarrow> Inl (SysErr ''stat'' p e)
      | None \<Rightarrow> (case fs_get fs p of None \<Rightarrow> Inl (SysErr ''stat'' p ENOENT) | Some n \<Rightarrow> Inr n))"

definition read_file :: "faults \<Rightarrow> path \<Rightarrow> fs \<Rightarrow> string res" where
  "read_file flt p fs =
     (case flt ''read'' p of
        Some e \<Rightarrow> Inl (SysErr ''read'' p e)
      | None \<Rightarrow> (case fs_get fs p of
                 None \<Rightarrow> Inl (SysErr ''open'' p ENOENT)
               | Some DirNode \<Rightarrow> Inl (SysErr ''read'' p EISDIR)
               | Some (FileNode d _) \<Rightarrow> Inr d))"

section \<open>Walking\<close>

text \<open>
  \<open>filepath.WalkDir\<close> visits the root, then its entries in lexical order, each directory before
  its contents: the order of the component lists.
\<close>

definition walk :: "fs \<Rightarrow> path \<Rightarrow> (path \<times> node) list" where
  "walk fs p = sort_key fst
     ((if p = [] then [([], DirNode)] else []) @ filter (\<lambda>e. prefix p (fst e)) fs)"

text \<open>
  The callback either goes on or returns \<open>filepath.SkipDir\<close>: for a directory that skips its
  contents, for a file the rest of the directory that holds it.
\<close>

definition skip_root :: "path \<times> node \<Rightarrow> path" where
  "skip_root e = (case snd e of DirNode \<Rightarrow> fst e | FileNode _ _ \<Rightarrow> butlast (fst e))"

function walk_with :: "('s \<Rightarrow> path \<times> node \<Rightarrow> 's \<times> bool) \<Rightarrow> (path \<times> node) list \<Rightarrow> 's \<Rightarrow> 's" where
  "walk_with f [] s = s"
| "walk_with f (e # es) s =
     (case f s e of (s', skip) \<Rightarrow>
        walk_with f (if skip then filter (\<lambda>x. \<not> prefix (skip_root e) (fst x)) es else es) s')"
  by pat_completeness auto
termination
  by (relation "measure (\<lambda>(_, es, _). length es)") (auto simp: le_imp_less_Suc)

definition node_size :: "node \<Rightarrow> int64" where
  "node_size n = (case n of DirNode \<Rightarrow> 0 | FileNode d _ \<Rightarrow> of_nat (length d))"

section \<open>Lookups after a call\<close>

lemma fs_get_Nil [simp]: "fs_get fs [] = Some DirNode"
  by (simp add: fs_get_def)

lemma fs_getI: "fs_wf fs \<Longrightarrow> (p, n) \<in> set fs \<Longrightarrow> fs_get fs p = Some n"
  by (auto simp: fs_wf_def fs_get_def)

lemma fs_get_in: "fs_get fs p = Some n \<Longrightarrow> p \<noteq> [] \<Longrightarrow> (p, n) \<in> set fs"
  by (auto simp: fs_get_def dest: map_of_SomeD)

lemma fs_parent: "fs_wf fs \<Longrightarrow> fs_get fs p \<noteq> None \<Longrightarrow> fs_get fs (butlast p) = Some DirNode"
proof (cases "p = []")
  case False
  assume wf: "fs_wf fs" and "fs_get fs p \<noteq> None"
  with False obtain n where "(p, n) \<in> set fs" by (auto dest: fs_get_in)
  with wf show ?thesis by (force simp: fs_wf_def)
qed simp

lemma fs_ancestor:
  assumes "fs_wf fs" and "fs_get fs q \<noteq> None" and "strict_prefix p q"
  shows "fs_get fs p = Some DirNode"
  using assms(2,3)
proof (induction q rule: rev_induct)
  case Nil
  then show ?case by simp
next
  case (snoc x q)
  have q: "fs_get fs q = Some DirNode" using fs_parent [OF assms(1) snoc.prems(1)] by simp
  from snoc.prems(2) have "prefix p q" by (auto simp: strict_prefix_def prefix_snoc)
  with q snoc.IH show ?case by (cases "p = q") (auto simp: strict_prefix_def)
qed

lemma mkdir_raw_get [fs_simps]:
  assumes "mkdir_raw p fs = Inr fs'"
  shows "fs_get fs' q = (if prefix q p \<and> fs_get fs q = None then Some DirNode else fs_get fs q)"
proof -
  let ?new = "map (\<lambda>q. (q, DirNode)) (filter (\<lambda>q. fs_get fs q = None) (prefixes p))"
  have "map_of ?new q = (if prefix q p \<and> fs_get fs q = None then Some DirNode else None)"
    by (auto simp: map_of_map_restrict restrict_map_def)
  moreover have "fs' = ?new @ fs" using assms by (auto simp: mkdir_raw_def split: if_splits)
  ultimately show ?thesis by (auto simp: fs_get_def map_add_def)
qed

lemma remove_raw_get [fs_simps]:
  assumes "remove_raw p fs = Inr fs'"
  shows "fs_get fs' q = (if prefix p q \<and> q \<noteq> [] then None else fs_get fs q)"
proof -
  have "fs' = filter (\<lambda>e. \<not> prefix p (fst e)) fs"
    using assms by (auto simp: remove_raw_def split: if_splits)
  then show ?thesis using map_of_filter_fst [of "\<lambda>r. \<not> prefix p r" fs q] by (simp add: fs_get_def)
qed

lemma write_raw_get [fs_simps]:
  assumes "write_raw p d now fs = Inr fs'"
  shows "fs_get fs' q = (if q = p then Some (FileNode d now) else fs_get fs q)"
proof -
  have "fs' = (p, FileNode d now) # filter (\<lambda>e. fst e \<noteq> p) fs" and "p \<noteq> []"
    using assms by (auto simp: write_raw_def split: option.splits node.splits if_splits)
  then show ?thesis using map_of_filter_fst [of "\<lambda>r. r \<noteq> p" fs q] by (auto simp: fs_get_def)
qed

lemma rename_raw_not_prefix:
  assumes "fs_wf fs" and "rename_raw src dst fs = Inr fs'"
  shows "\<not> prefix src dst" and "\<not> prefix dst src" and "dst \<noteq> []" and "src \<noteq> []"
    and "fs_get fs (butlast dst) = Some DirNode"
proof -
  from assms(2) have src: "fs_get fs src \<noteq> None" and dst: "fs_get fs dst \<noteq> Some DirNode"
    and np: "\<not> prefix src dst" and par: "fs_get fs (butlast dst) = Some DirNode"
    by (auto simp: rename_raw_def split: if_splits)
  show "\<not> prefix src dst" "fs_get fs (butlast dst) = Some DirNode" by fact+
  show "dst \<noteq> []" "src \<noteq> []" using dst np by auto
  show "\<not> prefix dst src"
    using fs_ancestor [OF assms(1) src, of dst] dst np by (auto simp: strict_prefix_def)
qed

lemma rename_raw_result:
  assumes "fs_wf fs" and "rename_raw src dst fs = Inr fs'"
  shows "fs' = map (\<lambda>e. if prefix src (fst e) then (dst @ drop (length src) (fst e), snd e) else e)
                 (filter (\<lambda>e. fst e \<noteq> dst) fs)"
  using assms by (auto simp: rename_raw_def split: if_splits)

lemma map_of_moved:
  assumes "\<not> prefix src dst" and "\<forall>e \<in> set xs. \<not> prefix dst (fst e)"
  shows "map_of (map (\<lambda>e. if prefix src (fst e) then (dst @ drop (length src) (fst e), snd e) else e) xs) q
    = (if prefix dst q then map_of xs (src @ drop (length dst) q)
       else if prefix src q then None else map_of xs q)"
  using assms(2)
proof (induction xs)
  case Nil
  then show ?case by simp
next
  case (Cons e xs)
  obtain p n where e: "e = (p, n)" by force
  have np: "\<not> prefix dst p" using Cons.prems e by simp
  show ?case
  proof (cases "prefix src p")
    case True
    then obtain r where r: "p = src @ r" by (auto simp: prefix_def)
    show ?thesis using Cons r e by (auto simp: prefix_def)
  next
    case False
    then have "p \<noteq> src @ r" for r by (auto simp: prefix_def)
    with Cons False np e show ?thesis by auto
  qed
qed

lemma rename_raw_get [fs_simps]:
  assumes "fs_wf fs" and "rename_raw src dst fs = Inr fs'"
  shows "fs_get fs' q = (if prefix dst q then fs_get fs (src @ drop (length dst) q)
    else if prefix src q then None else fs_get fs q)"
proof -
  note np = rename_raw_not_prefix [OF assms]
  let ?xs = "filter (\<lambda>e. fst e \<noteq> dst) fs"
  have nodir: "fs_get fs dst \<noteq> Some DirNode" using assms(2) by (auto simp: rename_raw_def split: if_splits)
  have below: "\<not> prefix dst (fst e)" if "e \<in> set ?xs" for e
  proof
    assume "prefix dst (fst e)"
    with that have "strict_prefix dst (fst e)" by (auto simp: strict_prefix_def)
    moreover have "fs_get fs (fst e) \<noteq> None" using fs_getI [OF assms(1), of "fst e" "snd e"] that by auto
    ultimately show False using fs_ancestor [OF assms(1)] nodir by blast
  qed
  have *: "map_of ?xs r = (if r = dst then None else map_of fs r)" for r
    using map_of_filter_fst [of "\<lambda>r. r \<noteq> dst" fs r] by auto
  have "map_of fs' q = (if prefix dst q then map_of ?xs (src @ drop (length dst) q)
       else if prefix src q then None else map_of ?xs q)"
    unfolding rename_raw_result [OF assms] using map_of_moved [OF np(1), of ?xs q] below by blast
  moreover have "src @ drop (length dst) q \<noteq> dst" using np(1) by (metis prefixI)
  ultimately show ?thesis using np by (auto simp: fs_get_def *)
qed

section \<open>Well-formedness is preserved\<close>

lemma fs_wf_alt:
  "fs_wf fs \<longleftrightarrow> distinct (map fst fs) \<and> (\<forall>p. fs_get fs p \<noteq> None \<longrightarrow> fs_get fs (butlast p) = Some DirNode)
     \<and> [] \<notin> fst ` set fs"
proof
  assume "fs_wf fs"
  then show "distinct (map fst fs) \<and> (\<forall>p. fs_get fs p \<noteq> None \<longrightarrow> fs_get fs (butlast p) = Some DirNode)
     \<and> [] \<notin> fst ` set fs"
    using fs_parent by (auto simp: fs_wf_def)
next
  assume r: "distinct (map fst fs) \<and> (\<forall>p. fs_get fs p \<noteq> None \<longrightarrow> fs_get fs (butlast p) = Some DirNode)
     \<and> [] \<notin> fst ` set fs"
  have "fs_get fs (fst e) \<noteq> None" if "e \<in> set fs" for e
    using that by (simp add: fs_get_def) (metis image_eqI map_of_eq_None_iff option.exhaust)
  moreover have "fst e \<noteq> []" if "e \<in> set fs" for e
    using r that by (metis image_eqI)
  ultimately show "fs_wf fs" using r by (auto simp: fs_wf_def)
qed

lemma mkdir_raw_wf:
  assumes "fs_wf fs" and "mkdir_raw p fs = Inr fs'"
  shows "fs_wf fs'"
  unfolding fs_wf_alt
proof (intro conjI allI impI)
  let ?ps = "filter (\<lambda>q. fs_get fs q = None) (prefixes p)"
  have fs': "fs' = map (\<lambda>q. (q, DirNode)) ?ps @ fs" and nofile: "\<forall>q \<in> set (prefixes p). \<not> is_file fs q"
    using assms(2) by (auto simp: mkdir_raw_def list_ex_iff split: if_splits)
  have "q \<notin> fst ` set fs" if "fs_get fs q = None" for q
    using that by (auto simp: fs_get_def map_of_eq_None_iff split: if_splits)
  then show "distinct (map fst fs')" "[] \<notin> fst ` set fs'"
    using assms(1) distinct_filter [OF distinct_prefixes] by (auto simp: fs' fs_wf_def o_def)
  fix q assume "fs_get fs' q \<noteq> None"
  show "fs_get fs' (butlast q) = Some DirNode"
  proof (cases "prefix q p")
    case True
    then have b: "prefix (butlast q) p" by (rule prefix_order.trans [OF prefixeq_butlast])
    then have "\<not> is_file fs (butlast q)" using nofile by simp
    with b show ?thesis
      by (auto simp: mkdir_raw_get [OF assms(2)] is_file_def split: option.splits node.splits)
  next
    case False
    with \<open>fs_get fs' q \<noteq> None\<close> have "fs_get fs q \<noteq> None" by (simp add: mkdir_raw_get [OF assms(2)])
    from fs_parent [OF assms(1) this] show ?thesis by (simp add: mkdir_raw_get [OF assms(2)])
  qed
qed

lemma remove_raw_wf:
  assumes "fs_wf fs" and "remove_raw p fs = Inr fs'"
  shows "fs_wf fs'"
  unfolding fs_wf_alt
proof (intro conjI allI impI)
  have fs': "fs' = filter (\<lambda>e. \<not> prefix p (fst e)) fs"
    using assms(2) by (auto simp: remove_raw_def split: if_splits)
  show "distinct (map fst fs')" "[] \<notin> fst ` set fs'"
    using assms(1) by (auto simp: fs' fs_wf_def intro: distinct_map_filter_fst)
  fix q assume q: "fs_get fs' q \<noteq> None"
  then have "fs_get fs q \<noteq> None" and "\<not> prefix p q \<or> q = []"
    by (auto simp: remove_raw_get [OF assms(2)] split: if_splits)
  then have "fs_get fs (butlast q) = Some DirNode" and "\<not> prefix p (butlast q) \<or> butlast q = []"
    using fs_parent [OF assms(1)] by (auto dest: prefix_butlastD)
  then show "fs_get fs' (butlast q) = Some DirNode" by (auto simp: remove_raw_get [OF assms(2)])
qed

lemma write_raw_wf:
  assumes "fs_wf fs" and "write_raw p d now fs = Inr fs'"
  shows "fs_wf fs'"
  unfolding fs_wf_alt
proof (intro conjI allI impI)
  have fs': "fs' = (p, FileNode d now) # filter (\<lambda>e. fst e \<noteq> p) fs"
    and p: "fs_get fs (butlast p) = Some DirNode" "fs_get fs p \<noteq> Some DirNode" "p \<noteq> []"
    using assms(2) by (auto simp: write_raw_def split: option.splits node.splits if_splits)
  show "distinct (map fst fs')" "[] \<notin> fst ` set fs'"
    using assms(1) p by (auto simp: fs' fs_wf_def intro: distinct_map_filter_fst)
  fix q assume q: "fs_get fs' q \<noteq> None"
  have par: "fs_get fs (butlast q) = Some DirNode"
    using q p fs_parent [OF assms(1), of q] by (cases "q = p") (auto simp: write_raw_get [OF assms(2)])
  then have "butlast q \<noteq> p" using p(2) by auto
  with par show "fs_get fs' (butlast q) = Some DirNode" by (simp add: write_raw_get [OF assms(2)])
qed

lemma moved_inj:
  assumes "a \<noteq> b" and "\<not> prefix dst a" and "\<not> prefix dst b"
  shows "(if prefix src a then dst @ drop (length src) a else a)
    \<noteq> (if prefix src b then dst @ drop (length src) b else b)"
  using assms by (auto simp: prefix_def)

lemma distinct_moved:
  assumes "distinct (map fst xs)" and "\<forall>e \<in> set xs. \<not> prefix dst (fst e)"
  shows "distinct (map fst (map (\<lambda>e. if prefix src (fst e)
    then (dst @ drop (length src) (fst e), snd e) else e) xs))"
  using assms
proof (induction xs)
  case Nil
  then show ?case by simp
next
  case (Cons e xs)
  let ?m = "\<lambda>p. if prefix src p then dst @ drop (length src) p else p"
  have moved: "fst (if prefix src (fst x) then (dst @ drop (length src) (fst x), snd x) else x) = ?m (fst x)" for x
    by simp
  have "?m (fst e) \<noteq> ?m (fst x)" if "x \<in> set xs" for x
    using Cons.prems that by (intro moved_inj) (auto simp: image_iff)
  then have "?m (fst e) \<notin> (\<lambda>x. ?m (fst x)) ` set xs" by blast
  with Cons show ?case unfolding map_map o_def moved by simp
qed

lemma rename_raw_wf:
  assumes "fs_wf fs" and "rename_raw src dst fs = Inr fs'"
  shows "fs_wf fs'"
  unfolding fs_wf_alt
proof (intro conjI allI impI)
  note np = rename_raw_not_prefix [OF assms] and get = rename_raw_get [OF assms]
  let ?xs = "filter (\<lambda>e. fst e \<noteq> dst) fs"
  have nodir: "fs_get fs dst \<noteq> Some DirNode" using assms(2) by (auto simp: rename_raw_def split: if_splits)
  have below: "\<not> prefix dst (fst e)" if "e \<in> set ?xs" for e
  proof
    assume "prefix dst (fst e)"
    with that have "strict_prefix dst (fst e)" by (auto simp: strict_prefix_def)
    moreover have "fs_get fs (fst e) \<noteq> None" using fs_getI [OF assms(1), of "fst e" "snd e"] that by auto
    ultimately show False using fs_ancestor [OF assms(1)] nodir by blast
  qed
  show "distinct (map fst fs')"
    unfolding rename_raw_result [OF assms]
    using assms(1) below by (intro distinct_moved) (auto simp: fs_wf_def intro: distinct_map_filter_fst)
  show "[] \<notin> fst ` set fs'"
    using assms(1) np by (auto simp: rename_raw_result [OF assms] fs_wf_def split: if_splits)
  fix q assume q: "fs_get fs' q \<noteq> None"
  show "fs_get fs' (butlast q) = Some DirNode"
  proof (cases "prefix dst q")
    case True
    then obtain r where r: "q = dst @ r" by (auto simp: prefix_def)
    show ?thesis
    proof (cases "r = []")
      case True
      then have "butlast q = butlast dst" using r by simp
      moreover have "\<not> prefix src (butlast dst)" "\<not> prefix dst (butlast dst)"
        using np by (auto dest: prefix_butlastD simp: not_prefix_butlast)
      ultimately show ?thesis using np(5) by (simp add: get)
    next
      case False
      then have "butlast q = dst @ butlast r" using r by (simp add: butlast_append)
      moreover have "fs_get fs (src @ r) \<noteq> None" using q r by (simp add: get)
      then have "fs_get fs (src @ butlast r) = Some DirNode"
        using fs_parent [OF assms(1), of "src @ r"] False by (simp add: butlast_append)
      ultimately show ?thesis by (simp add: get)
    qed
  next
    case False
    then have "fs_get fs q \<noteq> None" "\<not> prefix src q" using q by (auto simp: get split: if_splits)
    moreover from False this have "\<not> prefix dst (butlast q)" "\<not> prefix src (butlast q)"
      by (auto dest: prefix_butlastD)
    ultimately show ?thesis using fs_parent [OF assms(1)] by (simp add: get)
  qed
qed

section \<open>The size of a directory tree\<close>

text \<open>The walk of \<open>Store.dirSize\<close>: it fails when the root cannot be examined, and adds up the files.\<close>

definition dir_size :: "faults \<Rightarrow> path \<Rightarrow> fs \<Rightarrow> int64 res" where
  "dir_size flt p fs =
     (case flt ''walk'' p of
        Some e \<Rightarrow> Inl (SysErr ''walk'' p e)
      | None \<Rightarrow>
          (if fs_get fs p = None then Inl (SysErr ''lstat'' p ENOENT)
           else Inr (walk_with (\<lambda>total e. (total + node_size (snd e), False)) (walk fs p) 0)))"

definition dir_bytes :: "fs \<Rightarrow> path \<Rightarrow> int64" where
  "dir_bytes fs p = sum_list (map (node_size \<circ> snd) (filter (\<lambda>e. prefix p (fst e)) fs))"

lemma walk_with_no_skip: "walk_with (\<lambda>s e. (f s e, False)) es s = foldl f s es"
  by (induction es arbitrary: s) auto

lemma foldl_add_sum_list:
  fixes f :: "'a \<Rightarrow> 'b::comm_monoid_add"
  shows "foldl (\<lambda>s e. s + f e) s es = s + sum_list (map f es)"
  by (induction es arbitrary: s) (auto simp: ac_simps)

lemma sum_list_sort_key:
  fixes f :: "'a \<Rightarrow> 'b::comm_monoid_add"
  shows "sum_list (map f (sort_key k xs)) = sum_list (map f xs)"
  by (metis mset_map mset_sort sum_mset_sum_list)

lemma walk_bytes: "walk_with (\<lambda>total e. (total + node_size (snd e), False)) (walk fs p) 0 = dir_bytes fs p"
  unfolding walk_with_no_skip foldl_add_sum_list
  by (simp add: walk_def sum_list_sort_key dir_bytes_def node_size_def o_def)

lemma dir_size_cases:
  "dir_size flt p fs =
     (case flt ''walk'' p of
        Some e \<Rightarrow> Inl (SysErr ''walk'' p e)
      | None \<Rightarrow> (if fs_get fs p = None then Inl (SysErr ''lstat'' p ENOENT) else Inr (dir_bytes fs p)))"
  unfolding dir_size_def walk_bytes by (rule refl)

lemma dir_size_Inr: "dir_size flt p fs = Inr n \<Longrightarrow> n = dir_bytes fs p \<and> fs_get fs p \<noteq> None"
  by (auto simp: dir_size_cases split: option.splits if_splits)

text \<open>A rename carries the size of the tree along.\<close>

lemma dir_bytes_rename:
  assumes "fs_wf fs" and "rename_raw src dst fs = Inr fs'"
  shows "dir_bytes fs' dst = dir_bytes fs src"
proof -
  note np = rename_raw_not_prefix [OF assms]
  let ?m = "\<lambda>e. if prefix src (fst e) then (dst @ drop (length src) (fst e), snd e) else e"
  have nodir: "fs_get fs dst \<noteq> Some DirNode" using assms(2) by (auto simp: rename_raw_def split: if_splits)
  have below: "prefix dst (fst e) \<Longrightarrow> fst e = dst" if "e \<in> set fs" for e
    using fs_ancestor [OF assms(1), of "fst e" dst] fs_getI [OF assms(1), of "fst e" "snd e"] that nodir
    by (force simp: strict_prefix_def)
  have "filter (\<lambda>e. prefix dst (fst e)) fs' = map ?m (filter (\<lambda>e. prefix dst (fst (?m e))) (filter (\<lambda>e. fst e \<noteq> dst) fs))"
    unfolding rename_raw_result [OF assms] filter_map o_def by simp
  also have "filter (\<lambda>e. prefix dst (fst (?m e))) (filter (\<lambda>e. fst e \<noteq> dst) fs) = filter (\<lambda>e. prefix src (fst e)) fs"
    unfolding filter_filter by (rule filter_cong) (use np below in auto)
  finally have "filter (\<lambda>e. prefix dst (fst e)) fs' = map ?m (filter (\<lambda>e. prefix src (fst e)) fs)" .
  moreover have "map (node_size \<circ> snd) (map ?m xs) = map (node_size \<circ> snd) xs" for xs :: fs
    by (induction xs) auto
  ultimately show ?thesis unfolding dir_bytes_def by (simp only:)
qed

section \<open>Calls: outcomes, well-formedness, frames\<close>

lemma syscall_cases:
  obtains (failed) e where "syscall flt op p f fs = (Inl (SysErr op p e), fs)"
  | (ok) fs' where "syscall flt op p f fs = (Inr (), fs')" and "f fs = Inr fs'" and "flt op p = None"
  by (cases "flt op p"; cases "f fs") (auto simp: syscall_def)

lemma syscall_Inr: "syscall flt op p f fs = (Inr u, fs') \<Longrightarrow> f fs = Inr fs'"
  by (auto simp: syscall_def split: option.splits sum.splits)

lemma syscall_Inl: "syscall flt op p f fs = (Inl e, fs') \<Longrightarrow> fs' = fs"
  by (auto simp: syscall_def split: option.splits sum.splits)

lemma syscall_inv:
  assumes "I fs" and "\<And>fs'. f fs = Inr fs' \<Longrightarrow> I fs'"
  shows "I (snd (syscall flt op p f fs))"
  by (rule syscall_cases [of flt op p f fs]) (use assms in auto)

lemma calls_wf [inv_intros]:
  assumes "fs_wf fs"
  shows "fs_wf (snd (mkdir_all flt p fs))" and "fs_wf (snd (remove_all flt p fs))"
    and "fs_wf (snd (write_file flt p d now fs))" and "fs_wf (snd (rename flt src dst fs))"
  unfolding mkdir_all_def remove_all_def write_file_def rename_def
  by (rule syscall_inv; use assms mkdir_raw_wf remove_raw_wf write_raw_wf rename_raw_wf in blast)+

lemma mkdir_all_frame:
  "\<not> prefix q p \<or> fs_get fs q \<noteq> None \<Longrightarrow> fs_get (snd (mkdir_all flt p fs)) q = fs_get fs q"
  unfolding mkdir_all_def by (rule syscall_inv) (auto simp: mkdir_raw_get)

lemma mkdir_all_dir:
  assumes "mkdir_all flt p fs = (Inr u, fs')" and "prefix q p"
  shows "fs_get fs' q = Some DirNode"
proof -
  from assms(1) have raw: "mkdir_raw p fs = Inr fs'" by (auto simp: mkdir_all_def dest: syscall_Inr)
  then have "\<not> is_file fs q" using assms(2) by (auto simp: mkdir_raw_def list_ex_iff split: if_splits)
  then show ?thesis using assms(2)
    by (auto simp: mkdir_raw_get [OF raw] is_file_def split: option.splits node.splits)
qed

lemma remove_all_frame: "\<not> prefix p q \<Longrightarrow> fs_get (snd (remove_all flt p fs)) q = fs_get fs q"
  unfolding remove_all_def by (rule syscall_inv) (auto simp: remove_raw_get)

lemma remove_all_gone:
  "remove_all flt p fs = (Inr u, fs') \<Longrightarrow> prefix p q \<Longrightarrow> q \<noteq> [] \<Longrightarrow> fs_get fs' q = None"
  by (auto simp: remove_all_def dest!: syscall_Inr simp: remove_raw_get)

lemma remove_all_mono: "fs_get (snd (remove_all flt p fs)) q = None \<or> fs_get (snd (remove_all flt p fs)) q = fs_get fs q"
  unfolding remove_all_def by (rule syscall_inv) (auto simp: remove_raw_get)

lemma write_file_frame: "q \<noteq> p \<Longrightarrow> fs_get (snd (write_file flt p d now fs)) q = fs_get fs q"
  unfolding write_file_def by (rule syscall_inv) (auto simp: write_raw_get)

lemma rename_frame:
  assumes "fs_wf fs" and "\<not> prefix src q" and "\<not> prefix dst q"
  shows "fs_get (snd (rename flt src dst fs)) q = fs_get fs q"
  unfolding rename_def by (rule syscall_inv) (use assms in \<open>auto simp: rename_raw_get\<close>)

lemma remove_all_ok:
  assumes "fs_wf fs" and "fs_get fs (butlast p) = Some DirNode"
  shows "remove_all no_faults p fs = (Inr (), filter (\<lambda>e. \<not> prefix p (fst e)) fs)"
proof -
  have "fs_get fs q = Some DirNode" if "prefix q (butlast p)" for q
    using that assms fs_ancestor [OF assms(1), of "butlast p" q] by (cases "q = butlast p") (auto simp: strict_prefix_def)
  then have "\<not> list_ex (is_file fs) (prefixes (butlast p))" by (auto simp: list_ex_iff is_file_def)
  then show ?thesis by (simp add: remove_all_def syscall_def no_faults_def remove_raw_def)
qed

section \<open>Collecting during a walk\<close>

text \<open>
  A callback that appends an item for the entries it selects and then asks to skip, and goes on
  otherwise: the items are those of a subsequence of the selected entries, and an entry whose
  turn no other selected entry can skip is among them.
\<close>

lemma walk_with_collect:
  assumes f: "\<And>acc x. f acc x = (if ok x then (acc @ [item x], True) else (acc, False))"
  shows "\<exists>zs. subseq zs (filter ok es) \<and> walk_with f es acc = acc @ map item zs
    \<and> (\<forall>x \<in> set es. ok x \<and> (\<forall>y \<in> set es. ok y \<and> y \<noteq> x \<longrightarrow> \<not> prefix (skip_root y) (fst x)) \<longrightarrow> x \<in> set zs)"
proof (induction "length es" arbitrary: es acc rule: less_induct)
  case less
  show ?case
  proof (cases es)
    case Nil
    then show ?thesis by simp
  next
    case (Cons e es')
    show ?thesis
    proof (cases "ok e")
      case False
      obtain zs where zs: "subseq zs (filter ok es')" "walk_with f es' acc = acc @ map item zs"
        "\<forall>x \<in> set es'. ok x \<and> (\<forall>y \<in> set es'. ok y \<and> y \<noteq> x \<longrightarrow> \<not> prefix (skip_root y) (fst x)) \<longrightarrow> x \<in> set zs"
        using less [of es' acc] Cons by auto
      have "walk_with f es acc = acc @ map item zs" using zs(2) False by (simp add: Cons f)
      moreover have "subseq zs (filter ok es)" using zs(1) False by (simp add: Cons)
      ultimately show ?thesis using zs(3) False Cons by (intro exI [of _ zs]) auto
    next
      case True
      let ?rest = "filter (\<lambda>x. \<not> prefix (skip_root e) (fst x)) es'"
      have "length ?rest < length es" using Cons by (simp add: le_imp_less_Suc)
      then obtain zs where zs: "subseq zs (filter ok ?rest)"
        "walk_with f ?rest (acc @ [item e]) = (acc @ [item e]) @ map item zs"
        "\<forall>x \<in> set ?rest. ok x \<and> (\<forall>y \<in> set ?rest. ok y \<and> y \<noteq> x \<longrightarrow> \<not> prefix (skip_root y) (fst x)) \<longrightarrow> x \<in> set zs"
        using less by blast
      have "subseq (filter ok ?rest) (filter ok es')" by (simp add: filter_filter conj_commute flip: filter_filter)
      then have "subseq (e # zs) (filter ok es)" using zs(1) True Cons by (auto intro: subseq_order.trans)
      moreover have "walk_with f es acc = acc @ map item (e # zs)" using zs(2) True Cons by (simp add: f)
      moreover have "x \<in> set (e # zs)" if x: "x \<in> set es" "ok x"
        "\<forall>y \<in> set es. ok y \<and> y \<noteq> x \<longrightarrow> \<not> prefix (skip_root y) (fst x)" for x
      proof (cases "x = e")
        case False
        then have "x \<in> set ?rest" using x True Cons by auto
        moreover have "\<forall>y \<in> set ?rest. ok y \<and> y \<noteq> x \<longrightarrow> \<not> prefix (skip_root y) (fst x)"
          using x(3) Cons by simp
        ultimately show ?thesis using bspec [OF zs(3)] x(2) by simp
      qed simp
      ultimately show ?thesis by blast
    qed
  qed
qed

section \<open>Entries of a walk\<close>

lemma set_walk: "set (walk fs p) = {e \<in> set fs. prefix p (fst e)} \<union> (if p = [] then {([], DirNode)} else {})"
  by (auto simp: walk_def)

lemma distinct_walk:
  assumes "fs_wf fs"
  shows "distinct (map fst (walk fs p))"
proof -
  let ?xs = "(if p = [] then [([], DirNode)] else []) @ filter (\<lambda>e. prefix p (fst e)) fs"
  have "distinct (map fst ?xs)" using assms by (auto simp: fs_wf_def intro: distinct_map_filter_fst)
  moreover have "mset (map fst (walk fs p)) = mset (map fst ?xs)" by (simp add: walk_def)
  ultimately show ?thesis by (metis mset_eq_imp_distinct_iff)
qed

end
