(* ===== verification/Meta.thy ===== *)
theory Meta
  imports FileSystem
begin

text \<open>
  \<open>internal/cache/meta.go\<close>: the record kept beside every stored adapter, when it has expired and
  which content it describes, and reading and writing it in the adapter's directory.  An
  environment holds what one operation sees of the world outside the process: the clock, which
  system calls fail, and the encoding of the record as JSON bytes.
\<close>

section \<open>The record\<close>

record AdapterMeta =
  metaOrigin :: string
  metaETag :: string
  metaRevision :: string
  metaFetchedAt :: int
  metaTTLSeconds :: int64

definition MetaFileName :: string where
  "MetaFileName = ''.loraplex_meta''"

text \<open>Durations are 64-bit nanosecond counts; \<open>Time.Sub\<close> saturates.\<close>

definition second :: int64 where
  "second = 1000000000"

definition time_since :: "int \<Rightarrow> int \<Rightarrow> int64" where
  "time_since now t = of_int (max (- (2 ^ 63)) (min (2 ^ 63 - 1) (now - t)))"

definition IsExpired :: "int \<Rightarrow> AdapterMeta \<Rightarrow> bool" where
  "IsExpired now m =
     (if metaTTLSeconds m <=s 0 then False
      else metaTTLSeconds m * second <s time_since now (metaFetchedAt m))"

definition ContentID :: "AdapterMeta \<Rightarrow> string" where
  "ContentID m = (if metaETag m \<noteq> [] then metaETag m else metaRevision m)"

section \<open>The environment of an operation\<close>

record env =
  now :: int
  faults :: faults
  encodeMeta :: "AdapterMeta \<Rightarrow> string res"
  decodeMeta :: "string \<Rightarrow> AdapterMeta res"

text \<open>What the code relies on of \<open>encoding/json\<close>: decoding gives back what was encoded.\<close>

definition meta_codec :: "env \<Rightarrow> bool" where
  "meta_codec e \<longleftrightarrow> (\<forall>m d. encodeMeta e m = Inr d \<longrightarrow> decodeMeta e d = Inr m)"

section \<open>Reading and writing\<close>

definition ReadMeta :: "env \<Rightarrow> path \<Rightarrow> fs \<Rightarrow> AdapterMeta res" where
  "ReadMeta e dir fs =
     (case read_file (faults e) (dir @ [MetaFileName]) fs of
        Inl err \<Rightarrow> Inl err
      | Inr d \<Rightarrow> decodeMeta e d)"

definition WriteMeta :: "env \<Rightarrow> path \<Rightarrow> AdapterMeta \<Rightarrow> fs \<Rightarrow> unit res \<times> fs" where
  "WriteMeta e dir m fs =
     (case encodeMeta e m of
        Inl err \<Rightarrow> (Inl err, fs)
      | Inr d \<Rightarrow> write_file (faults e) (dir @ [MetaFileName]) d (now e) fs)"

section \<open>Lemmas\<close>

lemma proper_MetaFileName [simp]: "proper MetaFileName"
  by (simp add: proper_def MetaFileName_def)

lemma WriteMeta_wf [inv_intros]: "fs_wf fs \<Longrightarrow> fs_wf (snd (WriteMeta e dir m fs))"
  by (auto simp: WriteMeta_def split: sum.split intro: inv_intros)

lemma WriteMeta_frame: "q \<noteq> dir @ [MetaFileName] \<Longrightarrow> fs_get (snd (WriteMeta e dir m fs)) q = fs_get fs q"
  by (simp add: WriteMeta_def write_file_frame split: sum.split)

lemma write_file_Inr:
  assumes "write_file flt p d t fs = (Inr u, fs')"
  shows "fs_get fs' p = Some (FileNode d t)"
  using assms by (auto simp: write_file_def write_raw_get dest!: syscall_Inr)

text \<open>A saturated difference is positive exactly when the difference is.\<close>

lemma sint_time_since: "sint (time_since n t) = max (- (2 ^ 63)) (min (2 ^ 63 - 1) (n - t))"
  unfolding time_since_def by (rule sint_of_int64) auto

end
