(* ===== verification/Store.thy ===== *)
theory Store
  imports Lru GoSort Meta
begin

text \<open>
  \<open>internal/cache/store.go\<close>: adapters as directories below \<open>BasePath\<close>, with the recency list
  that says which of them to evict.  The store's operations take and return the store and the
  file system.  The lemmas give the string check of \<open>ValidateAdapterID\<close> its meaning on paths,
  the effect of every operation on the disk and on the index, and the agreement between the two
  (every indexed adapter is on disk).
\<close>

section \<open>State and paths\<close>

record Store =
  BasePath :: string
  lru :: LRU

definition NewStore :: "string \<Rightarrow> int64 \<Rightarrow> Store" where
  "NewStore basePath mx = \<lparr>BasePath = basePath, lru = NewLRU mx\<rparr>"

definition AdapterPath :: "string \<Rightarrow> string \<Rightarrow> string" where
  "AdapterPath base aid = path_join [base, aid]"

text \<open>The directory an adapter ID names.\<close>

abbreviation adapter_dir :: "string \<Rightarrow> string \<Rightarrow> path" where
  "adapter_dir base aid \<equiv> path_of (AdapterPath base aid)"

definition config_file :: string where
  "config_file = ''adapter_config.json''"

definition ValidateAdapterID :: "string \<Rightarrow> string \<Rightarrow> unit res" where
  "ValidateAdapterID base aid =
     (let resolved = clean (path_join [base, aid]); b = clean base @ [slash]
      in if \<not> prefix b resolved \<and> resolved \<noteq> clean base
         then Inl (Errorf ''invalid adapter ID: path traversal detected'') else Inr ())"

section \<open>Operations\<close>

definition store_has :: "env \<Rightarrow> Store \<Rightarrow> fs \<Rightarrow> string \<Rightarrow> bool" where
  "store_has e s fs aid =
     (let p = AdapterPath (BasePath s) aid
      in case stat (faults e) (path_of p) fs of
           Inl _ \<Rightarrow> False
         | Inr (FileNode _ _) \<Rightarrow> False
         | Inr DirNode \<Rightarrow>
             (case stat (faults e) (path_of (path_join [p, config_file])) fs of
                Inl _ \<Rightarrow> False | Inr _ \<Rightarrow> True))"

definition store_touch :: "env \<Rightarrow> fs \<Rightarrow> string \<Rightarrow> Store \<Rightarrow> unit res \<times> Store" where
  "store_touch e fs aid s =
     (case dir_size (faults e) (adapter_dir (BasePath s) aid) fs of
        Inl err \<Rightarrow> (Inl err, s)
      | Inr sz \<Rightarrow> (Inr (), s\<lparr>lru := lru_touch (lru s) aid sz (now e)\<rparr>))"

text \<open>The removal loop of \<open>MakeRoom\<close>: it stops at the first directory that cannot be removed.\<close>

fun remove_dirs :: "env \<Rightarrow> string \<Rightarrow> string list \<Rightarrow> fs \<Rightarrow> unit res \<times> fs" where
  "remove_dirs e base [] fs = (Inr (), fs)"
| "remove_dirs e base (aid # ids) fs =
     (case remove_all (faults e) (adapter_dir base aid) fs of
        (Inl err, fs') \<Rightarrow> (Inl (Wrapf (''remove evicted adapter '' @ aid @ '': '') err), fs')
      | (Inr _, fs') \<Rightarrow> remove_dirs e base ids fs')"

definition make_room :: "env \<Rightarrow> int64 \<Rightarrow> Store \<Rightarrow> fs \<Rightarrow> (string list \<times> unit res) \<times> Store \<times> fs" where
  "make_room e req s fs =
     (case lru_evict (lru s) req of (l, evicted) \<Rightarrow>
        (case remove_dirs e (BasePath s) evicted fs of (r, fs') \<Rightarrow>
           ((evicted, r), s\<lparr>lru := l\<rparr>, fs')))"

definition store_remove :: "env \<Rightarrow> string \<Rightarrow> Store \<Rightarrow> fs \<Rightarrow> unit res \<times> Store \<times> fs" where
  "store_remove e aid s fs =
     (let s' = s\<lparr>lru := fst (lru_remove (lru s) aid)\<rparr>
      in case remove_all (faults e) (adapter_dir (BasePath s) aid) fs of (r, fs') \<Rightarrow> (r, s', fs'))"

section \<open>Rebuild\<close>

record adapterInfo =
  infoID :: string
  infoSize :: int64
  infoMod :: int

text \<open>
  The callback of the walk.  An entry below a directory that cannot be read is not visited
  (\<open>WalkDir\<close> reports the directory with an error, which the callback ignores).
\<close>

definition rebuild_visit ::
    "env \<Rightarrow> path \<Rightarrow> fs \<Rightarrow> adapterInfo list \<Rightarrow> path \<times> node \<Rightarrow> adapterInfo list \<times> bool" where
  "rebuild_visit e base fs acc ent =
     (case snd ent of
        DirNode \<Rightarrow> (acc, False)
      | FileNode _ mtime \<Rightarrow>
          if last (fst ent) \<noteq> config_file then (acc, False)
          else
            let dir = butlast (fst ent); rel = rel_path base dir
            in if prefix ''.tmp'' rel then (acc, False)
               else (case dir_size (faults e) dir fs of
                  Inl _ \<Rightarrow> (acc, False)
                | Inr sz \<Rightarrow>
                    let md = (if faults e ''info'' (fst ent) = None then mtime else 0)
                    in (acc @ [\<lparr>infoID = rel, infoSize = sz, infoMod = md\<rparr>], True)))"

definition readable :: "env \<Rightarrow> path \<times> node \<Rightarrow> bool" where
  "readable e ent \<longleftrightarrow> list_all (\<lambda>q. faults e ''readdir'' q = None) (prefixes (butlast (fst ent)))"

definition rebuild_scan :: "env \<Rightarrow> path \<Rightarrow> fs \<Rightarrow> adapterInfo list" where
  "rebuild_scan e base fs =
     walk_with (rebuild_visit e base fs) (filter (readable e) (walk fs base)) []"

definition store_rebuild ::
    "(adapterInfo list \<Rightarrow> adapterInfo list) \<Rightarrow> env \<Rightarrow> Store \<Rightarrow> fs \<Rightarrow> unit res \<times> Store \<times> fs" where
  "store_rebuild srt e s fs =
     (case mkdir_all (faults e) (path_of (BasePath s)) fs of
        (Inl err, fs') \<Rightarrow> (Inl err, s, fs')
      | (Inr _, fs') \<Rightarrow>
          (Inr (),
           s\<lparr>lru := foldl (\<lambda>l a. lru_touch l (infoID a) (infoSize a) (now e)) (lru s)
              (srt (rebuild_scan e (path_of (BasePath s)) fs'))\<rparr>, fs'))"

section \<open>Adapter IDs and paths\<close>

lemma adapter_dir_walk: "is_abs base \<Longrightarrow> adapter_dir base aid = walk_from (path_of base) (split_on slash aid)"
  by (simp add: AdapterPath_def path_of_path_join)

lemma adapter_dir_proper: "\<forall>c \<in> set (adapter_dir base aid). proper c"
  by (rule path_of_proper)

lemma adapter_config_path:
  "is_abs base \<Longrightarrow> path_of (path_join [AdapterPath base aid, config_file]) = adapter_dir base aid @ [config_file]"
  by (rule path_of_path_join_entry) (simp_all add: AdapterPath_def path_join_is_abs proper_def config_file_def)

lemma ValidateAdapterID_iff:
  assumes "is_abs base"
  shows "ValidateAdapterID base aid = Inr () \<longleftrightarrow>
    adapter_dir base aid = path_of base \<or> path_of base \<noteq> [] \<and> strict_prefix (path_of base) (adapter_dir base aid)"
proof -
  let ?P = "path_of base" and ?Q = "adapter_dir base aid"
  have Q: "clean (path_join [base, aid]) = slash # join_with slash ?Q"
    unfolding AdapterPath_def by (rule clean_abs) (rule path_join_is_abs [OF assms])
  have P: "clean base = slash # join_with slash ?P" using assms by (rule clean_abs)
  have plain: "\<forall>c \<in> set (path_of s). slash \<notin> set c \<and> c \<noteq> []" for s
    using path_of_proper [of s] by (auto simp: proper_def)
  have eq: "join_with slash ?Q = join_with slash ?P \<longleftrightarrow> ?Q = ?P"
    using join_inj [OF plain plain, of "AdapterPath base aid" base] by auto
  have pre: "prefix (join_with slash ?P @ [slash]) (join_with slash ?Q) \<longleftrightarrow>
      ?P \<noteq> [] \<and> strict_prefix ?P ?Q"
  proof (cases "?P = []")
    case False
    with plain show ?thesis by (subst prefix_join_sep) auto
  next
    case True
    have "\<not> prefix [slash] (join_with slash ?Q)"
      using plain [of "AdapterPath base aid"]
      by (cases ?Q) (auto simp: join_with_Cons prefix_def append_eq_Cons_conv split: if_splits)
    with True show ?thesis by simp
  qed
  show ?thesis unfolding ValidateAdapterID_def Let_def P Q by (auto simp: eq pre)
qed

lemma valid_id_inside: "is_abs base \<Longrightarrow> ValidateAdapterID base aid = Inr () \<Longrightarrow> prefix (path_of base) (adapter_dir base aid)"
  by (auto simp: ValidateAdapterID_iff strict_prefix_def)

section \<open>Invariant and agreement with the disk\<close>

definition tracked :: "Store \<Rightarrow> string set" where
  "tracked s = set (lru_items (lru s))"

definition store_inv :: "Store \<Rightarrow> bool" where
  "store_inv s \<longleftrightarrow> lru_inv (lru s) \<and> is_abs (BasePath s)
     \<and> (\<forall>aid \<in> tracked s. ValidateAdapterID (BasePath s) aid = Inr ())"

text \<open>Every indexed adapter exists on disk.\<close>

definition coherent :: "Store \<Rightarrow> fs \<Rightarrow> bool" where
  "coherent s fs \<longleftrightarrow> (\<forall>aid \<in> tracked s. fs_get fs (adapter_dir (BasePath s) aid) \<noteq> None)"

text \<open>No adapter of the set is stored inside another one.\<close>

definition independent :: "string \<Rightarrow> string set \<Rightarrow> bool" where
  "independent base ids \<longleftrightarrow>
     (\<forall>a \<in> ids. \<forall>b \<in> ids. a \<noteq> b \<longrightarrow> \<not> prefix (adapter_dir base a) (adapter_dir base b))"

lemma NewStore_inv: "is_abs base \<Longrightarrow> store_inv (NewStore base mx)"
  by (simp add: store_inv_def NewStore_def tracked_def NewLRU_inv) (simp add: NewLRU_def lru_items_def)

lemma store_tracked_touch:
  "lru_inv (lru s) \<Longrightarrow> tracked (s\<lparr>lru := lru_touch (lru s) aid sz t\<rparr>) = insert aid (tracked s)"
  using lru_index.tracked_touch [of "lru s" aid sz t] by (simp add: tracked_def)

lemma store_tracked_remove:
  "lru_inv (lru s) \<Longrightarrow> tracked (s\<lparr>lru := fst (lru_remove (lru s) aid)\<rparr>) = tracked s - {aid}"
  using lru_index.tracked_remove [of "lru s" aid] by (simp add: tracked_def)

lemma tracked_evict:
  assumes "lru_inv (lru s)"
  shows "tracked (s\<lparr>lru := fst (lru_evict (lru s) req)\<rparr>) \<union> set (snd (lru_evict (lru s) req)) = tracked s"
    and "tracked (s\<lparr>lru := fst (lru_evict (lru s) req)\<rparr>) \<inter> set (snd (lru_evict (lru s) req)) = {}"
  using lru_index.evict_partition [OF assms, of req] by (simp_all add: tracked_def)

lemma store_touch_inv [inv_intros]:
  assumes "store_inv s" and "ValidateAdapterID (BasePath s) aid = Inr ()"
  shows "store_inv (snd (store_touch e fs aid s))"
  using assms
  by (auto simp: store_inv_def store_touch_def store_tracked_touch lru_touch_inv split: sum.split)

lemma store_touch_simps [simp]: "BasePath (snd (store_touch e fs aid s)) = BasePath s"
  by (simp add: store_touch_def split: sum.split)

lemma store_touch_coherent:
  assumes "lru_inv (lru s)" and "coherent s fs"
  shows "coherent (snd (store_touch e fs aid s)) fs"
  using assms
  by (auto simp: store_touch_def coherent_def store_tracked_touch dest: dir_size_Inr split: sum.split)

section \<open>Making room and removing\<close>

lemma remove_dirs_wf [inv_intros]: "fs_wf fs \<Longrightarrow> fs_wf (snd (remove_dirs e base ids fs))"
proof (induction e base ids fs rule: remove_dirs.induct)
  case (1 e base fs)
  then show ?case by simp
next
  case (2 e base aid ids fs)
  then show ?case using calls_wf(2) [OF "2.prems", of "faults e" "adapter_dir base aid"]
    by (auto split: prod.split sum.split)
qed

lemma remove_dirs_frame:
  "\<forall>aid \<in> set ids. \<not> prefix (adapter_dir base aid) q \<Longrightarrow>
    fs_get (snd (remove_dirs e base ids fs)) q = fs_get fs q"
proof (induction e base ids fs rule: remove_dirs.induct)
  case (1 e base fs)
  then show ?case by simp
next
  case (2 e base aid ids fs)
  then show ?case using remove_all_frame [of "adapter_dir base aid" q "faults e" fs]
    by (auto split: prod.split sum.split)
qed

lemma remove_dirs_mono:
  "fs_get (snd (remove_dirs e base ids fs)) q = None \<or> fs_get (snd (remove_dirs e base ids fs)) q = fs_get fs q"
proof (induction e base ids fs rule: remove_dirs.induct)
  case (1 e base fs)
  then show ?case by simp
next
  case (2 e base aid ids fs)
  then show ?case using remove_all_mono [of "faults e" "adapter_dir base aid" fs q]
    by (auto split: prod.split sum.split)
qed

lemma remove_dirs_gone:
  "remove_dirs e base ids fs = (Inr u, fs') \<Longrightarrow> aid \<in> set ids \<Longrightarrow>
    prefix (adapter_dir base aid) q \<Longrightarrow> q \<noteq> [] \<Longrightarrow> fs_get fs' q = None"
proof (induction e base ids fs rule: remove_dirs.induct)
  case (1 e base fs)
  then show ?case by simp
next
  case (2 e base aid' ids fs)
  obtain fs1 where rm: "remove_all (faults e) (adapter_dir base aid') fs = (Inr (), fs1)"
    and rest: "remove_dirs e base ids fs1 = (Inr u, fs')"
    using "2.prems"(1) by (auto split: prod.splits sum.splits)
  show ?case
  proof (cases "aid = aid'")
    case True
    have "fs_get fs1 q = None" using rm "2.prems" True by (auto intro: remove_all_gone)
    then show ?thesis using remove_dirs_mono [of e base ids fs1 q] rest by simp
  next
    case False
    then show ?thesis using "2.IH" [OF rm [symmetric] refl rest] "2.prems" by simp
  qed
qed

lemma remove_dirs_ok:
  assumes "fs_wf fs" and "faults e = no_faults"
    and "\<forall>aid \<in> set ids. fs_get fs (butlast (adapter_dir base aid)) = Some DirNode"
    and "\<forall>a \<in> set ids. \<forall>b \<in> set ids. a \<noteq> b \<longrightarrow> \<not> prefix (adapter_dir base a) (butlast (adapter_dir base b))"
    and "distinct ids"
  shows "fst (remove_dirs e base ids fs) = Inr ()"
  using assms
proof (induction e base ids fs rule: remove_dirs.induct)
  case (1 e base fs)
  then show ?case by simp
next
  case (2 e base aid ids fs)
  let ?fs1 = "filter (\<lambda>x. \<not> prefix (adapter_dir base aid) (fst x)) fs"
  have rm: "remove_all (faults e) (adapter_dir base aid) fs = (Inr (), ?fs1)"
    using remove_all_ok [OF "2.prems"(1)] "2.prems"(2,3) by simp
  then have wf: "fs_wf ?fs1" using calls_wf(2) [OF "2.prems"(1)] by (metis snd_conv)
  have "fs_get ?fs1 (butlast (adapter_dir base b)) = Some DirNode" if "b \<in> set ids" for b
  proof -
    have "aid \<noteq> b" using "2.prems"(5) that by auto
    then have "\<not> prefix (adapter_dir base aid) (butlast (adapter_dir base b))" using "2.prems"(4) that by simp
    then show ?thesis using remove_all_frame [of "adapter_dir base aid" _ "faults e" fs] rm "2.prems"(3) that
      by simp
  qed
  then show ?case using "2.IH" [OF rm [symmetric] refl wf "2.prems"(2)] "2.prems"(4,5) rm by simp
qed

lemma make_room_split:
  assumes "make_room e req s fs = ((evicted, r), s', fs')"
  shows "s' = s\<lparr>lru := fst (lru_evict (lru s) req)\<rparr>" and "evicted = snd (lru_evict (lru s) req)"
    and "remove_dirs e (BasePath s) evicted fs = (r, fs')"
  using assms by (auto simp: make_room_def split: prod.splits)

lemma make_room_inv:
  assumes "store_inv s" and "fs_wf fs" and "make_room e req s fs = ((evicted, r), s', fs')"
  shows "store_inv s'" and "fs_wf fs'"
  using assms(1) tracked_evict(1) [of s req] lru_evict_inv [of "lru s" req]
    remove_dirs_wf [OF assms(2), of e "BasePath s" evicted] make_room_split [OF assms(3)]
  by (auto simp: store_inv_def)

lemma make_room_coherent:
  assumes "store_inv s" and "coherent s fs" and "independent (BasePath s) (tracked s)"
    and "make_room e req s fs = ((evicted, r), s', fs')"
  shows "coherent s' fs'"
proof -
  note sp = make_room_split [OF assms(4)]
  have inv: "lru_inv (lru s)" using assms(1) by (simp add: store_inv_def)
  note te = tracked_evict [OF inv, of req]
  have "fs_get fs' (adapter_dir (BasePath s) aid) \<noteq> None" if "aid \<in> tracked s'" for aid
  proof -
    have "aid \<in> tracked s" and "\<forall>b \<in> set evicted. b \<in> tracked s \<and> b \<noteq> aid"
      using te that sp(1,2) by blast+
    then have "\<forall>b \<in> set evicted. \<not> prefix (adapter_dir (BasePath s) b) (adapter_dir (BasePath s) aid)"
      using assms(3) by (auto simp: independent_def)
    from remove_dirs_frame [OF this, of e fs] sp(3) assms(2) \<open>aid \<in> tracked s\<close>
    show ?thesis by (simp add: coherent_def)
  qed
  then show ?thesis by (simp add: coherent_def sp(1))
qed

lemma make_room_confined:
  assumes "store_inv s" and "make_room e req s fs = ((evicted, r), s', fs')"
    and "\<not> prefix (path_of (BasePath s)) q"
  shows "fs_get fs' q = fs_get fs q"
proof -
  note sp = make_room_split [OF assms(2)]
  have "\<not> prefix (adapter_dir (BasePath s) aid) q" if "aid \<in> set evicted" for aid
  proof -
    have "aid \<in> tracked s" using that tracked_evict(1) [of s req] sp(2) assms(1) by (auto simp: store_inv_def)
    then have "prefix (path_of (BasePath s)) (adapter_dir (BasePath s) aid)"
      using assms(1) by (auto simp: store_inv_def intro: valid_id_inside)
    then show ?thesis using assms(3) by (metis prefix_order.trans)
  qed
  then show ?thesis using remove_dirs_frame [of evicted "BasePath s" q e fs] sp(3) by simp
qed

lemma store_remove_inv:
  assumes "store_inv s" and "fs_wf fs" and "store_remove e aid s fs = (r, s', fs')"
  shows "store_inv s'" and "fs_wf fs'" and "tracked s' = tracked s - {aid}" and "BasePath s' = BasePath s"
  using assms store_tracked_remove [of s aid] calls_wf(2) [OF assms(2), of "faults e" "adapter_dir (BasePath s) aid"]
  by (auto simp: store_remove_def store_inv_def Let_def lru_remove_inv split: prod.splits)

section \<open>What Rebuild finds\<close>

text \<open>The entries Rebuild turns into adapters, and the item it records for each.\<close>

definition adapter_entry :: "env \<Rightarrow> path \<Rightarrow> fs \<Rightarrow> path \<times> node \<Rightarrow> bool" where
  "adapter_entry e base fs ent \<longleftrightarrow>
     snd ent \<noteq> DirNode \<and> last (fst ent) = config_file
     \<and> \<not> prefix ''.tmp'' (rel_path base (butlast (fst ent)))
     \<and> \<not> isl (dir_size (faults e) (butlast (fst ent)) fs)"

definition adapter_item :: "env \<Rightarrow> path \<Rightarrow> fs \<Rightarrow> path \<times> node \<Rightarrow> adapterInfo" where
  "adapter_item e base fs ent =
     \<lparr>infoID = rel_path base (butlast (fst ent)), infoSize = dir_bytes fs (butlast (fst ent)),
      infoMod = (if faults e ''info'' (fst ent) = None
                 then (case snd ent of FileNode _ t \<Rightarrow> t | DirNode \<Rightarrow> 0) else 0)\<rparr>"

lemma rebuild_visit_eq:
  "rebuild_visit e base fs acc ent =
     (if adapter_entry e base fs ent then (acc @ [adapter_item e base fs ent], True) else (acc, False))"
proof (cases "snd ent")
  case DirNode
  then show ?thesis by (simp add: rebuild_visit_def adapter_entry_def)
next
  case (FileNode d t)
  then show ?thesis
    by (cases "dir_size (faults e) (butlast (fst ent)) fs")
      (auto simp: rebuild_visit_def adapter_entry_def adapter_item_def Let_def dest: dir_size_Inr)
qed

definition names_ok :: "fs \<Rightarrow> bool" where
  "names_ok fs \<longleftrightarrow> (\<forall>ent \<in> set fs. \<forall>c \<in> set (fst ent). proper c)"

lemma names_ok_mkdir: "names_ok fs \<Longrightarrow> names_ok (snd (mkdir_all flt (path_of p) fs))"
  unfolding mkdir_all_def
proof (rule syscall_inv)
  fix fs' assume ok: "names_ok fs" and raw: "mkdir_raw (path_of p) fs = Inr fs'"
  have "\<forall>c \<in> set q. proper c" if "prefix q (path_of p)" for q
    using that path_of_proper [of p] by (auto dest: set_mono_prefix)
  then show "names_ok fs'" using ok raw by (auto simp: names_ok_def mkdir_raw_def split: if_splits)
qed

lemma rel_path_inj:
  assumes "prefix base a" "prefix base b" and "\<forall>c \<in> set a. proper c" "\<forall>c \<in> set b. proper c"
    and "rel_path base a = rel_path base b"
  shows "a = b"
  using walk_from_rel_path [OF assms(1,3)] walk_from_rel_path [OF assms(2,4)] assms(5) by metis

lemma adapter_dir_rel_path:
  assumes "is_abs base" and "prefix (path_of base) dir" and "\<forall>c \<in> set dir. proper c"
  shows "adapter_dir base (rel_path (path_of base) dir) = dir"
  by (simp add: adapter_dir_walk assms walk_from_rel_path)

lemma rebuild_scan_spec:
  fixes e base fs
  defines "dir \<equiv> \<lambda>ent. butlast (fst ent)"
  assumes wf: "fs_wf fs"
  obtains zs where "rebuild_scan e base fs = map (adapter_item e base fs) zs"
    and "distinct (map fst zs)"
    and "\<forall>x \<in> set zs. adapter_entry e base fs x \<and> x \<in> set fs \<and> prefix base (fst x)"
    and "\<forall>x \<in> set fs. adapter_entry e base fs x \<and> readable e x \<and> prefix base (fst x)
      \<and> (\<forall>y \<in> set fs. adapter_entry e base fs y \<and> prefix base (fst y) \<longrightarrow> \<not> strict_prefix (dir y) (dir x))
      \<longrightarrow> x \<in> set zs"
proof -
  let ?ok = "adapter_entry e base fs" and ?es = "filter (readable e) (walk fs base)"
  have "\<exists>zs. subseq zs (filter ?ok ?es)
    \<and> rebuild_scan e base fs = [] @ map (adapter_item e base fs) zs
    \<and> (\<forall>x \<in> set ?es. ?ok x \<and> (\<forall>y \<in> set ?es. ?ok y \<and> y \<noteq> x \<longrightarrow> \<not> prefix (skip_root y) (fst x)) \<longrightarrow> x \<in> set zs)"
    unfolding rebuild_scan_def by (rule walk_with_collect) (rule rebuild_visit_eq)
  then obtain zs where *: "subseq zs (filter ?ok ?es)
    \<and> rebuild_scan e base fs = [] @ map (adapter_item e base fs) zs
    \<and> (\<forall>x \<in> set ?es. ?ok x \<and> (\<forall>y \<in> set ?es. ?ok y \<and> y \<noteq> x \<longrightarrow> \<not> prefix (skip_root y) (fst x)) \<longrightarrow> x \<in> set zs)" ..
  note zs = conjunct1 [OF *] conjunct1 [OF conjunct2 [OF *]] conjunct2 [OF conjunct2 [OF *]]
  have sub: "set zs \<subseteq> set (filter ?ok ?es)" by (auto elim: list_emb_set [OF zs(1)])
  have nd: "\<not> ?ok ([], DirNode)" by (simp add: adapter_entry_def)
  have zs3: "\<forall>x \<in> set zs. ?ok x \<and> x \<in> set fs \<and> prefix base (fst x)"
    using sub nd by (auto simp: set_walk split: if_splits)
  have dw: "distinct (map fst (filter ?ok ?es))"
    by (intro distinct_map_filter_fst distinct_walk wf)
  have "subseq (map fst zs) (map fst (filter ?ok ?es))" using zs(1) by (rule subseq_map)
  then have zs2: "distinct (map fst zs)" using dw by (metis subseq_conv_nths distinct_nthsI)
  have "x \<in> set zs" if x: "x \<in> set fs" "?ok x" "readable e x" "prefix base (fst x)"
    "\<forall>y \<in> set fs. ?ok y \<and> prefix base (fst y) \<longrightarrow> \<not> strict_prefix (dir y) (dir x)" for x
  proof -
    have "\<not> prefix (skip_root y) (fst x)" if y: "y \<in> set ?es" "?ok y" "y \<noteq> x" for y
    proof
      assume pre: "prefix (skip_root y) (fst x)"
      have yin: "y \<in> set fs" "prefix base (fst y)" using y nd by (auto simp: set_walk split: if_splits)
      have sy: "skip_root y = dir y" using y(2) by (simp add: adapter_entry_def skip_root_def dir_def split: node.splits)
      have ne: "fst z \<noteq> [] \<and> fst z = dir z @ [config_file]" if "z \<in> set fs" "?ok z" for z
      proof -
        have "fst z \<noteq> []" using that(1) wf by (auto simp: fs_wf_def)
        moreover have "last (fst z) = config_file" using that(2) by (simp add: adapter_entry_def)
        ultimately show ?thesis unfolding dir_def by (metis append_butlast_last_id)
      qed
      have par: "fs_get fs (dir y) = Some DirNode" using wf yin by (auto simp: fs_wf_def dir_def)
      have "fs_get fs (fst x) = Some (snd x)" using fs_getI [OF wf, of "fst x" "snd x"] x(1) by simp
      then have "dir y \<noteq> fst x" using par x(2) by (auto simp: adapter_entry_def)
      then have "prefix (dir y) (dir x)" using pre sy ne [OF x(1,2)] by (metis prefix_snoc)
      moreover have "dir y \<noteq> dir x"
      proof
        assume "dir y = dir x"
        then have "fst y = fst x" using ne [OF x(1,2)] ne [OF yin(1) y(2)] by simp
        then have "y = x" using x(1) yin(1) wf by (metis eq_key_imp_eq_value fs_wf_def prod.collapse)
        then show False using y(3) by simp
      qed
      ultimately have "strict_prefix (dir y) (dir x)" by (simp add: strict_prefix_def)
      then show False using bspec [OF x(5) yin(1)] yin(2) y(2) by simp
    qed
    moreover have "x \<in> set ?es" using x by (auto simp: set_walk)
    ultimately show ?thesis using bspec [OF zs(3), of x] x(2) by simp
  qed
  then have zs4: "\<forall>x \<in> set fs. ?ok x \<and> readable e x \<and> prefix base (fst x)
      \<and> (\<forall>y \<in> set fs. ?ok y \<and> prefix base (fst y) \<longrightarrow> \<not> strict_prefix (dir y) (dir x))
      \<longrightarrow> x \<in> set zs" by simp
  show thesis by (rule that [OF _ zs2 zs3 zs4]) (simp add: zs(2))
qed

section \<open>Rebuild on a readable disk\<close>

lemma touch_all:
  assumes "lru_inv l" and "distinct (map infoID xs)" and "infoID ` set xs \<inter> set (lru_items l) = {}"
  shows "lru_inv (foldl (\<lambda>l a. lru_touch l (infoID a) (infoSize a) t) l xs)
    \<and> lru_entries (foldl (\<lambda>l a. lru_touch l (infoID a) (infoSize a) t) l xs)
      = rev (map (\<lambda>a. (infoID a, infoSize a)) xs) @ lru_entries l"
  using assms
proof (induction xs arbitrary: l)
  case Nil
  then show ?case by simp
next
  case (Cons x xs)
  let ?l = "lru_touch l (infoID x) (infoSize x) t"
  have "infoID x \<notin> fst ` set (lru_entries l)" using Cons.prems by auto
  then have "map_of (lru_entries l) (infoID x) = None" by (metis map_of_eq_None_iff)
  then have new: "lru_entries ?l = (infoID x, infoSize x) # lru_entries l"
    using Cons.prems(1) by (simp add: entries_touch a_touch_def)
  then have "set (lru_items ?l) = insert (infoID x) (set (lru_items l))"
    by (metis fst_image_lru_entries fst_conv image_insert list.simps(15))
  then have "infoID ` set xs \<inter> set (lru_items ?l) = {}" using Cons.prems by auto
  then show ?case using Cons.IH [of ?l] Cons.prems new by (simp add: lru_touch_inv)
qed

text \<open>A directory below the base that holds an adapter, outside the temporary directories.\<close>

definition adapter_at :: "fs \<Rightarrow> string \<Rightarrow> path \<Rightarrow> bool" where
  "adapter_at fs base dir \<longleftrightarrow> prefix (path_of base) dir \<and> is_file fs (dir @ [config_file])
     \<and> \<not> prefix ''.tmp'' (rel_path (path_of base) dir)"

text \<open>The modification time of an adapter's configuration file.\<close>

definition mod_time :: "fs \<Rightarrow> string \<Rightarrow> string \<Rightarrow> int" where
  "mod_time fs base aid =
     (case fs_get fs (adapter_dir base aid @ [config_file]) of Some (FileNode _ t) \<Rightarrow> t | _ \<Rightarrow> 0)"

lemma adapter_entry_no_faults:
  assumes "fs_wf fs" and "faults e = no_faults" and "ent \<in> set fs"
  shows "adapter_entry e base fs ent \<longleftrightarrow> snd ent \<noteq> DirNode \<and> last (fst ent) = config_file
     \<and> \<not> prefix ''.tmp'' (rel_path base (butlast (fst ent)))"
proof -
  have "fs_get fs (butlast (fst ent)) = Some DirNode" using assms(1,3) by (auto simp: fs_wf_def)
  then show ?thesis by (auto simp: adapter_entry_def dir_size_cases assms(2) no_faults_def)
qed

lemma adapter_at_entry:
  assumes "fs_wf fs" and "faults e = no_faults" and "adapter_at fs base dir"
  obtains n where "(dir @ [config_file], n) \<in> set fs" and "adapter_entry e (path_of base) fs (dir @ [config_file], n)"
proof -
  obtain d t where "fs_get fs (dir @ [config_file]) = Some (FileNode d t)"
    using assms(3) by (auto simp: adapter_at_def is_file_def split: option.splits node.splits)
  then have inn: "(dir @ [config_file], FileNode d t) \<in> set fs" by (auto intro: fs_get_in)
  then show thesis using that assms(3) by (simp add: adapter_entry_no_faults [OF assms(1,2) inn] adapter_at_def)
qed

lemma entry_adapter_at:
  assumes "fs_wf fs" and "adapter_entry e (path_of base) fs ent" and "ent \<in> set fs" and "prefix (path_of base) (fst ent)"
    and "path_of base \<noteq> fst ent"
  shows "adapter_at fs base (butlast (fst ent))" and "fst ent = butlast (fst ent) @ [config_file]"
proof -
  have ne: "fst ent \<noteq> []" using assms(1,3) by (auto simp: fs_wf_def)
  then show eq: "fst ent = butlast (fst ent) @ [config_file]"
    using assms(2) by (metis adapter_entry_def append_butlast_last_id)
  have "prefix (path_of base) (butlast (fst ent))" using assms(4,5) eq by (metis prefix_snoc)
  moreover have "fs_get fs (fst ent) = Some (snd ent)" using fs_getI [OF assms(1), of "fst ent" "snd ent"] assms(3) by simp
  ultimately show "adapter_at fs base (butlast (fst ent))"
    using assms(2) eq [symmetric] by (auto simp: adapter_at_def adapter_entry_def is_file_def split: node.splits)
qed

lemma adapter_at_proper:
  assumes "fs_wf fs" and "names_ok fs" and "adapter_at fs base dir"
  shows "\<forall>c \<in> set dir. proper c"
  using assms by (auto simp: adapter_at_def is_file_def names_ok_def split: option.splits node.splits dest!: fs_get_in)

lemma config_entry_unique:
  assumes "fs_wf fs" and "x \<in> set fs" and "fst x = dir @ [config_file]"
  shows "fs_get fs (dir @ [config_file]) = Some (snd x)"
  using fs_getI [OF assms(1), of "fst x" "snd x"] assms(2) unfolding assms(3) [symmetric] by simp

text \<open>The adapters found, when none lies inside another: exactly those on disk, once each.\<close>

lemma rebuild_scan_exact:
  assumes wf: "fs_wf fs" and names: "names_ok fs" and base: "is_abs base"
    and flt: "faults e = no_faults" and root: "fs_get fs (path_of base) = Some DirNode"
    and flat: "\<forall>d d'. adapter_at fs base d \<longrightarrow> adapter_at fs base d' \<longrightarrow> \<not> strict_prefix d d'"
  defines "xs \<equiv> rebuild_scan e (path_of base) fs"
  shows "distinct (map infoID xs)"
    and "infoID ` set xs = rel_path (path_of base) ` {d. adapter_at fs base d}"
    and "\<forall>a \<in> set xs. infoSize a = dir_bytes fs (adapter_dir base (infoID a))
      \<and> infoMod a = mod_time fs base (infoID a)"
proof -
  let ?B = "path_of base"
  obtain zs where eq: "xs = map (adapter_item e ?B fs) zs" and dist: "distinct (map fst zs)"
    and only: "\<forall>x \<in> set zs. adapter_entry e ?B fs x \<and> x \<in> set fs \<and> prefix ?B (fst x)"
    and all: "\<forall>x \<in> set fs. adapter_entry e ?B fs x \<and> readable e x \<and> prefix ?B (fst x)
      \<and> (\<forall>y \<in> set fs. adapter_entry e ?B fs y \<and> prefix ?B (fst y) \<longrightarrow> \<not> strict_prefix (butlast (fst y)) (butlast (fst x)))
      \<longrightarrow> x \<in> set zs"
    unfolding xs_def by (rule rebuild_scan_spec [OF wf, of e ?B])
  have notbase: "?B \<noteq> fst x" if "x \<in> set fs" "adapter_entry e ?B fs x" for x
    using that root fs_getI [OF wf, of "fst x" "snd x"] by (auto simp: adapter_entry_def)
  have at: "adapter_at fs base (butlast (fst x)) \<and> fst x = butlast (fst x) @ [config_file]"
    if "x \<in> set fs" "adapter_entry e ?B fs x" "prefix ?B (fst x)" for x
    using entry_adapter_at [OF wf that(2,1,3) notbase [OF that(1,2)]] by simp
  have zat: "adapter_at fs base (butlast (fst x)) \<and> fst x = butlast (fst x) @ [config_file]"
    if "x \<in> set zs" for x
    using at only that by blast
  have dirinj: "fst x = fst y"
    if "x \<in> set zs" "y \<in> set zs" "rel_path ?B (butlast (fst x)) = rel_path ?B (butlast (fst y))" for x y
  proof -
    have "prefix ?B (butlast (fst x))" "prefix ?B (butlast (fst y))"
      using zat that(1,2) by (auto simp: adapter_at_def)
    then have "butlast (fst x) = butlast (fst y)"
      using that(3) adapter_at_proper [OF wf names] zat that(1,2) by (metis rel_path_inj)
    then show ?thesis using zat [OF that(1)] zat [OF that(2)] by simp
  qed
  have "distinct (map (\<lambda>x. rel_path ?B (butlast (fst x))) zs)"
    unfolding distinct_map using dist dirinj by (metis (no_types, lifting) distinct_map inj_on_def)
  then show "distinct (map infoID xs)" by (simp add: eq adapter_item_def comp_def)
  have "rel_path ?B d \<in> infoID ` set xs" if d: "adapter_at fs base d" for d
  proof -
    obtain n where inn: "(d @ [config_file], n) \<in> set fs" and ok: "adapter_entry e ?B fs (d @ [config_file], n)"
      using adapter_at_entry [OF wf flt d] .
    have "(d @ [config_file], n) \<in> set zs"
    proof (rule bspec [OF all inn, rule_format], intro conjI ballI impI)
      show "adapter_entry e ?B fs (d @ [config_file], n)" by (rule ok)
      show "readable e (d @ [config_file], n)" by (simp add: readable_def flt no_faults_def list_all_iff)
      show "prefix ?B (fst (d @ [config_file], n))" using d by (simp add: adapter_at_def)
      fix y assume "y \<in> set fs" "adapter_entry e ?B fs y \<and> prefix ?B (fst y)"
      then show "\<not> strict_prefix (butlast (fst y)) (butlast (fst (d @ [config_file], n)))"
        using at flat d by simp
    qed
    then show ?thesis unfolding eq by (force simp: adapter_item_def)
  qed
  moreover have "infoID (adapter_item e ?B fs x) \<in> rel_path ?B ` {d. adapter_at fs base d}" if "x \<in> set zs" for x
    using zat [OF that] by (simp add: adapter_item_def)
  ultimately show "infoID ` set xs = rel_path ?B ` {d. adapter_at fs base d}" unfolding eq by auto
  show "\<forall>a \<in> set xs. infoSize a = dir_bytes fs (adapter_dir base (infoID a))
      \<and> infoMod a = mod_time fs base (infoID a)"
  proof
    fix a assume "a \<in> set xs"
    then obtain x where x: "x \<in> set zs" and a: "a = adapter_item e ?B fs x" by (auto simp: eq)
    let ?d = "butlast (fst x)"
    have "prefix ?B ?d" using zat [OF x] by (simp add: adapter_at_def)
    then have dir: "adapter_dir base (infoID a) = ?d"
      using adapter_dir_rel_path [OF base _ adapter_at_proper [OF wf names conjunct1 [OF zat [OF x]]]]
      by (simp add: a adapter_item_def)
    have "fs_get fs (?d @ [config_file]) = Some (snd x)"
      using config_entry_unique [OF wf] only x zat [OF x] by blast
    then show "infoSize a = dir_bytes fs (adapter_dir base (infoID a)) \<and> infoMod a = mod_time fs base (infoID a)"
      unfolding mod_time_def dir by (simp add: a adapter_item_def flt no_faults_def split: node.split)
  qed
qed

lemma touch_valid:
  assumes "store_inv s" and "\<forall>a \<in> set xs. ValidateAdapterID (BasePath s) (infoID a) = Inr ()"
  shows "store_inv (s\<lparr>lru := foldl (\<lambda>l a. lru_touch l (infoID a) (infoSize a) t) (lru s) xs\<rparr>)"
  using assms
proof (induction xs arbitrary: s)
  case Nil
  then show ?case by simp
next
  case (Cons a xs)
  let ?s = "s\<lparr>lru := lru_touch (lru s) (infoID a) (infoSize a) t\<rparr>"
  have "store_inv ?s" using Cons.prems store_tracked_touch [of s "infoID a" "infoSize a" t]
    by (auto simp: store_inv_def lru_touch_inv)
  from Cons.IH [OF this] Cons.prems show ?case by simp
qed

text \<open>Whatever fails on the way, Rebuild leaves a well-formed index.\<close>

lemma store_rebuild_inv:
  assumes srt: "slice_sorter infoMod srt" and wf: "fs_wf fs" and names: "names_ok fs" and base: "is_abs base" and ne: "path_of base \<noteq> []"
    and run: "store_rebuild srt e (NewStore base mx) fs = (res, s, fs')"
  shows "store_inv s \<and> BasePath s = base \<and> fs_wf fs'"
proof (cases "fst (mkdir_all (faults e) (path_of base) fs)")
  case (Inl err)
  then show ?thesis using run NewStore_inv [OF base, of mx] calls_wf(1) [OF wf, of "faults e" "path_of base"]
    by (cases "mkdir_all (faults e) (path_of base) fs") (auto simp: store_rebuild_def NewStore_def)
next
  case (Inr u)
  let ?B = "path_of base" and ?xs = "rebuild_scan e (path_of base) fs'"
  have mk: "mkdir_all (faults e) ?B fs = (Inr (), fs')"
    and s: "s = NewStore base mx\<lparr>lru := foldl (\<lambda>l a. lru_touch l (infoID a) (infoSize a) (now e)) (lru (NewStore base mx)) (srt ?xs)\<rparr>"
    using run Inr by (auto simp: store_rebuild_def NewStore_def split: prod.splits sum.splits)
  have wf': "fs_wf fs'" using calls_wf(1) [OF wf, of "faults e" ?B] mk by simp
  have names': "names_ok fs'" using names_ok_mkdir [OF names, of "faults e" base] mk by simp
  have root: "fs_get fs' ?B = Some DirNode" by (rule mkdir_all_dir [OF mk]) simp
  have BP: "BasePath (NewStore base mx) = base" by (simp add: NewStore_def)
  have "ValidateAdapterID base (infoID a) = Inr ()" if a: "a \<in> set ?xs" for a
  proof -
    obtain zs where eq: "?xs = map (adapter_item e ?B fs') zs"
      and only: "\<forall>x \<in> set zs. adapter_entry e ?B fs' x \<and> x \<in> set fs' \<and> prefix ?B (fst x)"
      by (rule rebuild_scan_spec [OF wf', of e ?B])
    obtain x where x: "x \<in> set zs" "a = adapter_item e ?B fs' x" using a eq by auto
    note ox = bspec [OF only x(1)]
    have "?B \<noteq> fst x" using ox root fs_getI [OF wf', of "fst x" "snd x"] by (auto simp: adapter_entry_def)
    then have at: "adapter_at fs' base (butlast (fst x))" using entry_adapter_at(1) [OF wf'] ox by blast
    then have "adapter_dir base (infoID a) = butlast (fst x)"
      using adapter_dir_rel_path [OF base _ adapter_at_proper [OF wf' names' at]] by (simp add: x(2) adapter_item_def adapter_at_def)
    then show ?thesis using at base ne by (auto simp: ValidateAdapterID_iff adapter_at_def strict_prefix_def)
  qed
  then have "store_inv s"
    unfolding s using slice_sorter.srt_set [OF srt, of ?xs] by (intro touch_valid [OF NewStore_inv [OF base]]) (simp add: BP)
  then show ?thesis using wf' by (simp add: s NewStore_def)
qed

text \<open>An instance: two adapters, a temporary directory and a stray file.\<close>

definition example_disk :: fs where
  "example_disk = [([''d''], DirNode), ([''d'', ''a''], DirNode), ([''d'', ''a'', config_file], FileNode ''{}'' 7),
     ([''d'', ''o''], DirNode), ([''d'', ''o'', ''b''], DirNode), ([''d'', ''o'', ''b'', config_file], FileNode ''{}'' 3),
     ([''d'', ''.tmp-c''], DirNode), ([''d'', ''.tmp-c'', config_file], FileNode ''{}'' 9)]"

definition example_env :: env where
  "example_env = \<lparr>now = 100, faults = no_faults, encodeMeta = (\<lambda>m. Inr []), decodeMeta = (\<lambda>s. Inl (Errorf []))\<rparr>"

definition example_rebuild :: "unit res \<times> Store \<times> fs" where
  "example_rebuild = store_rebuild (sort_key infoMod) example_env (NewStore ''/d'' 10) example_disk"

lemma example_rebuild_result: "fst example_rebuild = Inr () \<and> snd (snd example_rebuild) = example_disk"
  by code_simp

lemma example_adapters: "adapter_at example_disk ''/d'' d \<longleftrightarrow> d = [''d'', ''a''] \<or> d = [''d'', ''o'', ''b'']"
proof
  assume at: "adapter_at example_disk ''/d'' d"
  then have "is_file example_disk (d @ [config_file])" by (simp add: adapter_at_def)
  then have "d = [''d'', ''a''] \<or> d = [''d'', ''o'', ''b''] \<or> d = [''d'', ''.tmp-c'']"
    by (auto simp: is_file_def fs_get_def example_disk_def config_file_def split: option.splits if_splits)
  moreover have "\<not> adapter_at example_disk ''/d'' [''d'', ''.tmp-c'']" by code_simp
  ultimately show "d = [''d'', ''a''] \<or> d = [''d'', ''o'', ''b'']" using at by metis
next
  have "adapter_at example_disk ''/d'' [''d'', ''a'']" by code_simp
  moreover have "adapter_at example_disk ''/d'' [''d'', ''o'', ''b'']" by code_simp
  moreover assume "d = [''d'', ''a''] \<or> d = [''d'', ''o'', ''b'']"
  ultimately show "adapter_at example_disk ''/d'' d" by metis
qed

text \<open>C15: After a successful Rebuild on a readable disk where no adapter lies inside another, the
  index holds exactly the adapters on disk (the directories with an \<open>adapter_config.json\<close> outside
  \<open>.tmp*\<close>), each under its relative path and with the size of its directory, the least recently
  modified one first in line for eviction; every indexed ID is valid and its directory exists.
  This holds whatever ordered permutation \<open>sort.Slice\<close> produces.\<close>

theorem rebuild_indexes_disk:
  assumes srt: "slice_sorter infoMod srt" and wf: "fs_wf fs" and names: "names_ok fs"
    and base: "is_abs base" "path_of base \<noteq> []" and flt: "faults e = no_faults"
    and run: "store_rebuild srt e (NewStore base mx) fs = (Inr (), s, fs')"
    and flat: "\<forall>d d'. adapter_at fs' base d \<longrightarrow> adapter_at fs' base d' \<longrightarrow> \<not> strict_prefix d d'"
  shows "store_inv s \<and> coherent s fs'
    \<and> tracked s = rel_path (path_of base) ` {d. adapter_at fs' base d}
    \<and> (\<forall>aid \<in> tracked s. map_of (lru_entries (lru s)) aid = Some (dir_bytes fs' (adapter_dir base aid)))
    \<and> sorted (map (mod_time fs' base) (rev (lru_items (lru s))))"
proof -
  let ?B = "path_of base" and ?xs = "rebuild_scan e (path_of base) fs'"
  let ?es = "map (\<lambda>a. (infoID a, infoSize a)) (srt ?xs)"
  from run have mk: "mkdir_all (faults e) ?B fs = (Inr (), fs')"
    and s: "s = NewStore base mx\<lparr>lru := foldl (\<lambda>l a. lru_touch l (infoID a) (infoSize a) (now e)) (NewLRU mx) (srt ?xs)\<rparr>"
    by (auto simp: store_rebuild_def NewStore_def split: prod.splits sum.splits)
  have wf': "fs_wf fs'" using calls_wf(1) [OF wf, of "faults e" ?B] mk by simp
  have names': "names_ok fs'" using names_ok_mkdir [OF names, of "faults e" base] mk by simp
  have root: "fs_get fs' ?B = Some DirNode" by (rule mkdir_all_dir [OF mk]) simp
  note scan = rebuild_scan_exact [OF wf' names' base(1) flt root flat]
  have set_srt: "set (srt ?xs) = set ?xs" by (rule slice_sorter.srt_set [OF srt])
  have dist: "distinct (map infoID (srt ?xs))"
    using scan(1) slice_sorter.srt_map_mset [OF srt, of infoID ?xs] mset_eq_imp_distinct_iff by metis
  have nil: "lru_entries (NewLRU mx) = []" "lru_items (NewLRU mx) = []"
    by (simp_all add: lru_entries_def lru_items_def NewLRU_def)
  have lru: "lru_inv (lru s)" "lru_entries (lru s) = rev ?es"
    using touch_all [OF NewLRU_inv dist, of mx "now e"] nil by (simp_all add: s)
  have items: "lru_items (lru s) = rev (map infoID (srt ?xs))"
    using map_fst_lru_entries [of "lru s"] unfolding lru(2) by (simp add: rev_map comp_def)
  have tr: "tracked s = rel_path ?B ` {d. adapter_at fs' base d}"
    unfolding tracked_def items using scan(2) by (simp add: set_srt)
  have BP: "BasePath s = base" by (simp add: s NewStore_def)
  have dir: "adapter_dir base (rel_path ?B d) = d" if "adapter_at fs' base d" for d
    using adapter_dir_rel_path [OF base(1) _ adapter_at_proper [OF wf' names' that]] that
    by (simp add: adapter_at_def)
  have ids: "prefix ?B (adapter_dir base aid) \<and> fs_get fs' (adapter_dir base aid) \<noteq> None" if tra: "aid \<in> tracked s" for aid
  proof -
    obtain d where d: "aid = rel_path ?B d" "adapter_at fs' base d" using tra tr by auto
    then obtain n where n: "(d @ [config_file], n) \<in> set fs'" using adapter_at_entry [OF wf' flt] by metis
    have "fs_get fs' (butlast (d @ [config_file])) = Some DirNode" using wf' n unfolding fs_wf_def by force
    then show ?thesis using d dir by (simp add: adapter_at_def)
  qed
  have inv: "store_inv s"
    using lru(1) base ids by (auto simp: store_inv_def BP ValidateAdapterID_iff strict_prefix_def)
  have coh: "coherent s fs'" using ids by (simp add: coherent_def BP)
  have "map_of (rev ?es) (infoID a) = Some (infoSize a)" if "a \<in> set ?xs" for a
  proof (rule map_of_is_SomeI)
    show "distinct (map fst (rev ?es))" using dist by (simp add: rev_map [symmetric] comp_def)
    show "(infoID a, infoSize a) \<in> set (rev ?es)" using that set_srt by force
  qed
  then have sizes: "\<forall>aid \<in> tracked s. map_of (lru_entries (lru s)) aid = Some (dir_bytes fs' (adapter_dir base aid))"
    unfolding tracked_def items lru(2) using scan(3) set_srt by auto
  have "map (mod_time fs' base) (map infoID (srt ?xs)) = map infoMod (srt ?xs)"
    using scan(3) set_srt by simp
  then have order: "sorted (map (mod_time fs' base) (rev (lru_items (lru s))))"
    unfolding items rev_rev_ident by (metis slice_sorter.srt_sorted [OF srt])
  show ?thesis by (intro conjI inv coh tr sizes order)
qed

lemma rebuild_indexes_disk_witness:
  "slice_sorter infoMod (sort_key infoMod) \<and> store_inv (fst (snd example_rebuild))
    \<and> tracked (fst (snd example_rebuild)) = {''a'', ''o/b''}"
proof -
  have run: "store_rebuild (sort_key infoMod) example_env (NewStore ''/d'' 10) example_disk
      = (Inr (), fst (snd example_rebuild), example_disk)"
    using example_rebuild_result by (metis example_rebuild_def prod.collapse)
  have wf: "fs_wf example_disk" by code_simp
  have names: "names_ok example_disk" by code_simp
  have abs: "is_abs ''/d''" by code_simp
  have ne: "path_of ''/d'' \<noteq> []" by code_simp
  have flt: "faults example_env = no_faults" by (simp add: example_env_def)
  have flat: "\<forall>d d'. adapter_at example_disk ''/d'' d \<longrightarrow> adapter_at example_disk ''/d'' d' \<longrightarrow> \<not> strict_prefix d d'"
    unfolding example_adapters by (auto simp: strict_prefix_def)
  note all = rebuild_indexes_disk [OF stable_sorter.slice_sorter_axioms wf names abs ne flt run flat]
  have "{d. adapter_at example_disk ''/d'' d} = {[''d'', ''a''], [''d'', ''o'', ''b'']}" unfolding example_adapters by auto
  moreover have "rel_path (path_of ''/d'') ` {[''d'', ''a''], [''d'', ''o'', ''b'']} = {''a'', ''o/b''}" by code_simp
  ultimately have "tracked (fst (snd example_rebuild)) = {''a'', ''o/b''}"
    using conjunct1 [OF conjunct2 [OF conjunct2 [OF all]]] by metis
  with stable_sorter.slice_sorter_axioms conjunct1 [OF all] show ?thesis by metis
qed

section \<open>Properties\<close>

text \<open>C13: Below an absolute storage directory other than the root, ValidateAdapterID accepts an ID
  exactly when the directory the ID names is the storage directory or lies below it, however many
  \<open>..\<close>, \<open>.\<close> and empty components the ID has: the string comparison on cleaned paths confines
  every adapter path to the storage directory.\<close>

theorem validate_confines:
  assumes "is_abs base" and "path_of base \<noteq> []"
  shows "ValidateAdapterID base aid = Inr () \<longleftrightarrow> prefix (path_of base) (adapter_dir base aid)"
  using ValidateAdapterID_iff [OF assms(1), of aid] assms(2) by (auto simp: strict_prefix_def)

lemma validate_confines_witness:
  "ValidateAdapterID ''/mnt/nvme'' ''org/lora'' = Inr ()
   \<and> ValidateAdapterID ''/mnt/nvme'' ''a/../../nvme2'' \<noteq> Inr ()"
proof -
  have abs: "is_abs ''/mnt/nvme''" by code_simp
  have ne: "path_of ''/mnt/nvme'' \<noteq> []" by code_simp
  have yes: "prefix (path_of ''/mnt/nvme'') (adapter_dir ''/mnt/nvme'' ''org/lora'')" by code_simp
  have no: "\<not> prefix (path_of ''/mnt/nvme'') (adapter_dir ''/mnt/nvme'' ''a/../../nvme2'')" by code_simp
  show ?thesis
    using validate_confines [OF abs ne, of "''org/lora''"] validate_confines [OF abs ne, of "''a/../../nvme2''"] yes no
    by metis
qed

text \<open>C14: MakeRoom splits the indexed adapters into those it keeps and those it evicts; when it
  succeeds, nothing is left on disk of an evicted adapter; every path outside the evicted adapters'
  directories is untouched, and so is everything outside the storage directory; and when no adapter
  lies inside another, every adapter it keeps is still on disk.\<close>

theorem make_room_effect:
  assumes inv: "store_inv s" and wf: "fs_wf fs" and run: "make_room e req s fs = ((evicted, r), s', fs')"
  shows "store_inv s' \<and> fs_wf fs'
    \<and> tracked s' \<union> set evicted = tracked s \<and> tracked s' \<inter> set evicted = {}
    \<and> (r = Inr () \<longrightarrow> (\<forall>aid \<in> set evicted. \<forall>q. prefix (adapter_dir (BasePath s) aid) q \<and> q \<noteq> [] \<longrightarrow> fs_get fs' q = None))
    \<and> (\<forall>q. (\<forall>aid \<in> set evicted. \<not> prefix (adapter_dir (BasePath s) aid) q) \<or> \<not> prefix (path_of (BasePath s)) q
         \<longrightarrow> fs_get fs' q = fs_get fs q)
    \<and> (coherent s fs \<and> independent (BasePath s) (tracked s) \<longrightarrow> coherent s' fs')"
proof -
  note sp = make_room_split [OF run]
  have lru: "lru_inv (lru s)" using inv by (simp add: store_inv_def)
  have gone: "r = Inr () \<longrightarrow> (\<forall>aid \<in> set evicted. \<forall>q. prefix (adapter_dir (BasePath s) aid) q \<and> q \<noteq> [] \<longrightarrow> fs_get fs' q = None)"
    using remove_dirs_gone sp(3) by blast
  have frame: "\<forall>q. (\<forall>aid \<in> set evicted. \<not> prefix (adapter_dir (BasePath s) aid) q) \<or> \<not> prefix (path_of (BasePath s)) q
         \<longrightarrow> fs_get fs' q = fs_get fs q"
    using remove_dirs_frame [of evicted "BasePath s" _ e fs] sp(3) make_room_confined [OF inv run] by (metis snd_conv)
  have coh: "coherent s fs \<and> independent (BasePath s) (tracked s) \<longrightarrow> coherent s' fs'"
    using make_room_coherent [OF inv _ _ run] by blast
  show ?thesis
    using tracked_evict [OF lru, of req] sp(1,2)
    by (intro conjI gone frame coh make_room_inv [OF inv wf run]) simp_all
qed

text \<open>The store after Rebuild of the example disk, with room for two bytes.\<close>

definition example_store :: Store where
  "example_store = \<lparr>BasePath = ''/d'', lru = lru_touch (lru_touch (NewLRU 4) ''o/b'' 2 1) ''a'' 2 2\<rparr>"

lemma example_store_inv: "store_inv example_store"
proof -
  have "lru_inv (lru example_store)" by (simp add: example_store_def lru_touch_inv NewLRU_inv)
  moreover have "lru_items (lru example_store) = [''a'', ''o/b'']" by code_simp
  moreover have "is_abs (BasePath example_store)" by code_simp
  moreover have "ValidateAdapterID (BasePath example_store) ''a'' = Inr ()" by code_simp
  moreover have "ValidateAdapterID (BasePath example_store) ''o/b'' = Inr ()" by code_simp
  ultimately show ?thesis by (simp add: store_inv_def tracked_def)
qed

lemma make_room_effect_witness:
  "fst (make_room example_env 2 example_store example_disk) = ([''o/b''], Inr ())
   \<and> fs_get (snd (snd (make_room example_env 2 example_store example_disk))) [''d'', ''o'', ''b'', config_file] = None"
proof -
  let ?run = "make_room example_env 2 example_store example_disk"
  have res: "fst ?run = ([''o/b''], Inr ())" by code_simp
  have wf: "fs_wf example_disk" by code_simp
  have run: "?run = (([''o/b''], Inr ()), fst (snd ?run), snd (snd ?run))" using res by (metis prod.collapse)
  note all = make_room_effect [OF example_store_inv wf run]
  have pre: "prefix (adapter_dir (BasePath example_store) ''o/b'') [''d'', ''o'', ''b'', config_file]" by code_simp
  have "fs_get (snd (snd ?run)) [''d'', ''o'', ''b'', config_file] = None"
    using conjunct1 [OF conjunct2 [OF conjunct2 [OF conjunct2 [OF conjunct2 [OF all]]]]] pre by simp
  with res show ?thesis by metis
qed

text \<open>When the directory of the first adapter that MakeRoom evicts cannot be removed, MakeRoom
  reports the error and leaves the disk as it was, but the index has already dropped every evicted
  adapter: their bytes stay on disk and no longer count against the budget.\<close>

theorem make_room_error_forgets:
  assumes inv: "store_inv s" and ev: "snd (lru_evict (lru s) req) = aid # ids"
    and flt: "faults e ''unlinkat'' (adapter_dir (BasePath s) aid) = Some err"
  shows "\<exists>msg s'. make_room e req s fs = ((aid # ids, Inl msg), s', fs)
    \<and> tracked s' = tracked s - set (aid # ids)"
proof -
  let ?s' = "s\<lparr>lru := fst (lru_evict (lru s) req)\<rparr>"
  have run: "make_room e req s fs
      = ((aid # ids, Inl (Wrapf (''remove evicted adapter '' @ aid @ '': '')
           (SysErr ''unlinkat'' (adapter_dir (BasePath s) aid) err))), ?s', fs)"
    using ev flt by (cases "lru_evict (lru s) req") (simp add: make_room_def remove_all_def syscall_def)
  have "lru_inv (lru s)" using inv by (simp add: store_inv_def)
  from tracked_evict [OF this, of req] have "tracked ?s' = tracked s - set (aid # ids)"
    unfolding ev by (metis Diff_cancel Un_Diff Diff_triv Un_empty_right)
  with run show ?thesis by metis
qed

text \<open>A disk on which nothing can be removed.\<close>

definition stuck_env :: env where
  "stuck_env = example_env\<lparr>faults := \<lambda>op p. if op = ''unlinkat'' then Some EIO else None\<rparr>"

lemma make_room_error_forgets_witness:
  "\<exists>msg s'. make_room stuck_env 2 example_store example_disk = (([''o/b''], Inl msg), s', example_disk)
    \<and> tracked s' = {''a'', ''o/b''} - {''o/b''}"
proof -
  have ev: "snd (lru_evict (lru example_store) 2) = [''o/b'']" by code_simp
  have tr: "lru_items (lru example_store) = [''a'', ''o/b'']" by code_simp
  have flt: "faults stuck_env ''unlinkat'' (adapter_dir (BasePath example_store) ''o/b'') = Some EIO"
    by (simp add: stuck_env_def)
  from make_room_error_forgets [OF example_store_inv ev flt, of example_disk]
  have "\<exists>msg s'. make_room stuck_env 2 example_store example_disk = (([''o/b''], Inl msg), s', example_disk)
    \<and> tracked s' = tracked example_store - set [''o/b'']" .
  then show ?thesis unfolding tracked_def [of example_store] tr list.set .
qed

text \<open>The ID \<open>.\<close> passes ValidateAdapterID and names the storage directory itself: Remove of it
  deletes the whole cache from disk, while the index goes on listing every adapter.\<close>

theorem remove_dot_wipes:
  assumes "store_inv s" and "store_remove e ''.'' s fs = (Inr (), s', fs')"
  shows "ValidateAdapterID (BasePath s) ''.'' = Inr ()
    \<and> (\<forall>q. prefix (path_of (BasePath s)) q \<and> q \<noteq> [] \<longrightarrow> fs_get fs' q = None)
    \<and> tracked s' = tracked s - {''.''}"
proof -
  have base: "is_abs (BasePath s)" and lru: "lru_inv (lru s)" using assms(1) by (simp_all add: store_inv_def)
  have "split_on slash ''.'' = [''.'']" by code_simp
  then have dir: "adapter_dir (BasePath s) ''.'' = path_of (BasePath s)"
    by (simp add: adapter_dir_walk [OF base] walk_from_def clean_step_def)
  have rm: "remove_all (faults e) (path_of (BasePath s)) fs = (Inr (), fs')"
    and s': "s' = s\<lparr>lru := fst (lru_remove (lru s) ''.'')\<rparr>"
    using assms(2) by (auto simp: store_remove_def Let_def dir split: prod.splits)
  show ?thesis
    using remove_all_gone [OF rm] store_tracked_remove [OF lru, of "''.''"]
    by (simp add: ValidateAdapterID_iff [OF base] dir s')
qed

lemma remove_dot_wipes_witness:
  "fs_get (snd (snd (store_remove example_env ''.'' example_store example_disk))) [''d'', ''a'', config_file] = None
   \<and> tracked (fst (snd (store_remove example_env ''.'' example_store example_disk))) = {''a'', ''o/b''}"
proof -
  let ?run = "store_remove example_env ''.'' example_store example_disk"
  have "fst ?run = Inr ()" by code_simp
  then have run: "?run = (Inr (), fst (snd ?run), snd (snd ?run))" by (metis prod.collapse)
  have tr: "lru_items (lru example_store) = [''a'', ''o/b'']" by code_simp
  have pre: "prefix (path_of (BasePath example_store)) [''d'', ''a'', config_file]" by code_simp
  note all = remove_dot_wipes [OF example_store_inv run]
  have "fs_get (snd (snd ?run)) [''d'', ''a'', config_file] = None"
    using conjunct1 [OF conjunct2 [OF all]] pre by simp
  moreover have "tracked (fst (snd ?run)) = {''a'', ''o/b''}"
    using conjunct2 [OF conjunct2 [OF all]] unfolding tracked_def tr by simp
  ultimately show ?thesis by metis
qed

end
