(* ===== verification/Http.thy ===== *)
theory Http
  imports GoPath
begin

text \<open>
  What the code uses of Go's \<open>net/http\<close>: headers (a map from canonical keys to value lists),
  responses, and the client.  What a server answers is not the program's doing: a client is a
  pair of functions, the verdict of \<open>http.NewRequest\<close> on a method and URL and the outcome of
  \<open>Client.Do\<close>, and every theorem holds for all of them.
\<close>

section \<open>Header keys\<close>

text \<open>The byte a character stands for, and the ASCII ranges.\<close>

abbreviation byte :: "char \<Rightarrow> nat" where
  "byte c \<equiv> of_char c"

definition is_upper :: "char \<Rightarrow> bool" where
  "is_upper c \<longleftrightarrow> 65 \<le> byte c \<and> byte c \<le> 90"

definition is_lower :: "char \<Rightarrow> bool" where
  "is_lower c \<longleftrightarrow> 97 \<le> byte c \<and> byte c \<le> 122"

definition is_digit :: "char \<Rightarrow> bool" where
  "is_digit c \<longleftrightarrow> 48 \<le> byte c \<and> byte c \<le> 57"

definition to_upper :: "char \<Rightarrow> char" where
  "to_upper c = (if is_lower c then char_of (byte c - 32) else c)"

definition to_lower :: "char \<Rightarrow> char" where
  "to_lower c = (if is_upper c then char_of (byte c + 32) else c)"

definition token_char :: "char \<Rightarrow> bool" where
  "token_char c \<longleftrightarrow> is_upper c \<or> is_lower c \<or> is_digit c \<or> byte c \<in> {33, 35, 36, 37, 38, 39, 42, 43, 45, 46, 94, 95, 96, 124, 126}"

text \<open>\<open>textproto.CanonicalMIMEHeaderKey\<close>: a key with a byte that is no token byte stays as it is.\<close>

fun canonical_from :: "bool \<Rightarrow> string \<Rightarrow> string" where
  "canonical_from up [] = []"
| "canonical_from up (c # cs) =
     (if up then to_upper c else to_lower c) # canonical_from (c = CHR ''-'') cs"

definition canonical :: "string \<Rightarrow> string" where
  "canonical k = (if list_all token_char k then canonical_from True k else k)"

section \<open>Headers\<close>

type_synonym header = "(string \<times> string list) list"

definition header_values :: "header \<Rightarrow> string \<Rightarrow> string list" where
  "header_values h k = (case map_of h (canonical k) of Some vs \<Rightarrow> vs | None \<Rightarrow> [])"

definition header_get :: "header \<Rightarrow> string \<Rightarrow> string" where
  "header_get h k = (case header_values h k of [] \<Rightarrow> [] | v # _ \<Rightarrow> v)"

definition header_set :: "string \<Rightarrow> string \<Rightarrow> header \<Rightarrow> header" where
  "header_set k v h = (canonical k, [v]) # filter (\<lambda>p. fst p \<noteq> canonical k) h"

definition header_del :: "string \<Rightarrow> header \<Rightarrow> header" where
  "header_del k h = filter (\<lambda>p. fst p \<noteq> canonical k) h"

definition header_add :: "string \<Rightarrow> string \<Rightarrow> header \<Rightarrow> header" where
  "header_add k v h = (canonical k, header_values h k @ [v]) # filter (\<lambda>p. fst p \<noteq> canonical k) h"

text \<open>The loop that adds every value of every key of one header to another.\<close>

definition header_add_all :: "header \<Rightarrow> header \<Rightarrow> header" where
  "header_add_all src dst = foldl (\<lambda>h p. foldl (\<lambda>h v. header_add (fst p) v h) h (snd p)) dst src"

section \<open>Responses and clients\<close>

text \<open>
  A response as its receiver sees it: the body is what could be read of it, \<open>respErr\<close> the error
  that ended the reading early, if any.
\<close>

record response =
  respStatus :: int
  respHeader :: header
  respBody :: string
  respErr :: "goerr option"

record http_client =
  newRequest :: "string \<Rightarrow> string \<Rightarrow> goerr option"
  roundTrip :: "string \<Rightarrow> string \<Rightarrow> header \<Rightarrow> string \<Rightarrow> response res"

section \<open>Lemmas\<close>

lemma header_values_set [simp]:
  "header_values (header_set k v h) k' = (if canonical k' = canonical k then [v] else header_values h k')"
  by (auto simp: header_values_def header_set_def map_of_filter_fst [of "\<lambda>r. r \<noteq> canonical k" h] split: option.split)

lemma header_values_del [simp]:
  "header_values (header_del k h) k' = (if canonical k' = canonical k then [] else header_values h k')"
  by (auto simp: header_values_def header_del_def map_of_filter_fst [of "\<lambda>r. r \<noteq> canonical k" h] split: option.split)

lemma header_values_add [simp]:
  "header_values (header_add k v h) k' =
     (if canonical k' = canonical k then header_values h k @ [v] else header_values h k')"
  by (auto simp: header_values_def header_add_def map_of_filter_fst [of "\<lambda>r. r \<noteq> canonical k" h] split: option.split)

lemma header_get_set [simp]:
  "header_get (header_set k v h) k' = (if canonical k' = canonical k then v else header_get h k')"
  by (simp add: header_get_def)

lemma byte_to_upper: "byte (to_upper c) = (if is_lower c then byte c - 32 else byte c)"
  by (auto simp: to_upper_def is_lower_def intro!: mod_less)

lemma byte_to_lower: "byte (to_lower c) = (if is_upper c then byte c + 32 else byte c)"
  by (auto simp: to_lower_def is_upper_def intro!: mod_less)

lemma case_of_case:
  "is_lower c \<Longrightarrow> is_upper (to_upper c)" "is_upper c \<Longrightarrow> is_lower (to_lower c)"
  "\<not> is_lower (to_upper c)" "\<not> is_upper (to_lower c)"
  by (auto simp: is_upper_def is_lower_def byte_to_upper byte_to_lower split: if_splits)

lemma to_upper_char [simp]: "to_upper (to_upper c) = to_upper c" "to_lower (to_lower c) = to_lower c"
  using case_of_case(3,4) [of c] by (simp_all add: to_upper_def [of "to_upper c"] to_lower_def [of "to_lower c"])

lemma token_char_case [simp]: "token_char (to_upper c) = token_char c" "token_char (to_lower c) = token_char c"
  using case_of_case(1,2) [of c]
  by (cases "is_lower c", simp_all add: token_char_def to_upper_def,
      cases "is_upper c", simp_all add: to_lower_def)

lemma case_dash [simp]: "to_upper c = CHR ''-'' \<longleftrightarrow> c = CHR ''-''" "to_lower c = CHR ''-'' \<longleftrightarrow> c = CHR ''-''"
proof -
  have "\<not> is_upper CHR ''-''" "\<not> is_lower CHR ''-''" by (simp_all add: is_upper_def is_lower_def)
  then show "to_upper c = CHR ''-'' \<longleftrightarrow> c = CHR ''-''" "to_lower c = CHR ''-'' \<longleftrightarrow> c = CHR ''-''"
    using case_of_case(1,2) [of c] by (metis to_upper_def, metis to_lower_def)
qed

lemma canonical_from_idem [simp]: "canonical_from up (canonical_from up k) = canonical_from up k"
  by (induction k arbitrary: up) auto

lemma canonical_from_token: "list_all token_char (canonical_from up k) = list_all token_char k"
  by (induction k arbitrary: up) auto

lemma canonical_idem [simp]: "canonical (canonical k) = canonical k"
  by (simp add: canonical_def canonical_from_token)

text \<open>Every key of a header that came through the API is canonical, and occurs once.\<close>

definition header_wf :: "header \<Rightarrow> bool" where
  "header_wf h \<longleftrightarrow> distinct (map fst h) \<and> (\<forall>p \<in> set h. canonical (fst p) = fst p)"

lemma header_add_all_values:
  assumes "header_wf src"
  shows "header_values (header_add_all src dst) k = header_values dst k @ header_values src k"
proof -
  have same: "header_values d q = header_values d k" if "canonical k = canonical q" for q d
    using that by (simp add: header_values_def)
  have inner: "header_values (foldl (\<lambda>h v. header_add q v h) d vs) k
      = (if canonical k = canonical q then header_values d k @ vs else header_values d k)" for q d vs
  proof (induction vs arbitrary: d)
    case Nil
    then show ?case by simp
  next
    case (Cons v vs)
    then show ?case using same [of q d] by simp
  qed
  have "distinct (map fst src) \<and> (\<forall>p \<in> set src. canonical (fst p) = fst p) \<Longrightarrow> ?thesis"
  proof (induction src arbitrary: dst)
    case Nil
    then show ?case by (simp add: header_add_all_def header_values_def)
  next
    case (Cons p src)
    let ?d = "foldl (\<lambda>h v. header_add (fst p) v h) dst (snd p)"
    have "header_values (header_add_all (p # src) dst) k = header_values (header_add_all src ?d) k"
      by (simp add: header_add_all_def)
    also have "\<dots> = header_values ?d k @ header_values src k" using Cons by simp
    also have "\<dots> = header_values dst k @ header_values (p # src) k"
    proof (cases "canonical k = fst p")
      case True
      then have "map_of src (canonical k) = None" using Cons.prems by (simp add: map_of_eq_None_iff)
      then show ?thesis using Cons.prems True by (simp add: inner) (simp add: header_values_def)
    next
      case False
      then show ?thesis using Cons.prems by (simp add: inner) (simp add: header_values_def)
    qed
    finally show ?case .
  qed
  with assms show ?thesis by (simp add: header_wf_def)
qed

end
