(* ===== verification/Origin.thy ===== *)
theory Origin
  imports Store Http
begin

text \<open>
  Where adapters come from: the interface \<open>OriginFetcher\<close> of \<open>internal/cache/manager.go\<close> and its
  implementations in \<open>internal/origin\<close> (\<open>http.go\<close>, \<open>huggingface.go\<close>, \<open>s3.go\<close>).  The contract
  the cache manager needs of a fetch (it writes below its destination only, and a fetch that
  succeeds leaves an \<open>adapter_config.json\<close>) is the locale \<open>origin_contract\<close>; the HTTP and the
  Hugging Face origin meet it.  The S3 origin does not, and the lemmas on it say what it does.
  Remote answers are parameters: an \<open>http_client\<close>, or a bucket.
\<close>

section \<open>The interface\<close>

record FetchResult =
  frOrigin :: string
  frETag :: string
  frRevision :: string

record OriginFetcher =
  oName :: string
  oFetch :: "env \<Rightarrow> string \<Rightarrow> path \<Rightarrow> fs \<Rightarrow> FetchResult res \<times> fs"
  oHead :: "string \<Rightarrow> FetchResult res"

section \<open>HTTP and Hugging Face\<close>

definition adapter_files :: "string list" where
  "adapter_files = [''adapter_config.json'', ''adapter_model.safetensors'', ''adapter_model.bin'']"

text \<open>
  The download loop both origins contain: a file the server does not deliver is left out, an error
  on the local disk or in the middle of a body ends the fetch.  The state is whether anything was
  fetched and the last ETag of the configuration.
\<close>

fun fetch_files :: "http_client \<Rightarrow> (string \<Rightarrow> string) \<Rightarrow> header \<Rightarrow> env \<Rightarrow> path \<Rightarrow>
    string list \<Rightarrow> bool \<times> string \<Rightarrow> fs \<Rightarrow> (bool \<times> string) res \<times> fs" where
  "fetch_files c url hdr e dest [] st fs = (Inr st, fs)"
| "fetch_files c url hdr e dest (f # files) st fs =
     (case newRequest c ''GET'' (url f) of
        Some err \<Rightarrow> (Inl err, fs)
      | None \<Rightarrow>
         (case roundTrip c ''GET'' (url f) hdr [] of
            Inl _ \<Rightarrow> fetch_files c url hdr e dest files st fs
          | Inr resp \<Rightarrow>
              if respStatus resp = 404 then fetch_files c url hdr e dest files st fs
              else if respStatus resp \<noteq> 200 then fetch_files c url hdr e dest files st fs
              else (case write_file (faults e) (dest @ [f]) (respBody resp) (now e) fs of
                      (Inl err, fs') \<Rightarrow> (Inl err, fs')
                    | (Inr _, fs') \<Rightarrow>
                        (case respErr resp of
                           Some err \<Rightarrow> (Inl err, fs')
                         | None \<Rightarrow>
                             fetch_files c url hdr e dest files
                               (True, if f = ''adapter_config.json'' \<and> header_get (respHeader resp) ''ETag'' \<noteq> []
                                      then header_get (respHeader resp) ''ETag'' else snd st) fs'))))"

record HTTPOrigin =
  baseURL :: string
  client :: http_client

definition NewHTTP :: "string \<Rightarrow> http_client \<Rightarrow> HTTPOrigin" where
  "NewHTTP url c = \<lparr>baseURL = trim_suffix ''/'' url, client = c\<rparr>"

definition HTTP_Fetch :: "HTTPOrigin \<Rightarrow> env \<Rightarrow> string \<Rightarrow> path \<Rightarrow> fs \<Rightarrow> FetchResult res \<times> fs" where
  "HTTP_Fetch o1 e aid dest fs =
     (case fetch_files (client o1) (\<lambda>f. baseURL o1 @ ''/'' @ aid @ ''/'' @ f) [] e dest adapter_files (False, []) fs of
        (Inl err, fs') \<Rightarrow> (Inl err, fs')
      | (Inr (fetched, etag), fs') \<Rightarrow>
          if \<not> fetched then (Inl (Errorf (''no adapter files found at '' @ baseURL o1 @ ''/'' @ aid @ ''/'')), fs')
          else (case stat (faults e) (dest @ [config_file]) fs' of
                  Inl _ \<Rightarrow> (Inl (Errorf (''adapter_config.json not found for '' @ aid)), fs')
                | Inr _ \<Rightarrow> (Inr \<lparr>frOrigin = ''http'', frETag = etag, frRevision = []\<rparr>, fs')))"

definition HTTP_Head :: "HTTPOrigin \<Rightarrow> string \<Rightarrow> FetchResult res" where
  "HTTP_Head o1 aid =
     (let url = baseURL o1 @ ''/'' @ aid @ ''/adapter_config.json''
      in case newRequest (client o1) ''HEAD'' url of
           Some err \<Rightarrow> Inl err
         | None \<Rightarrow>
            (case roundTrip (client o1) ''HEAD'' url [] [] of
               Inl err \<Rightarrow> Inl err
             | Inr resp \<Rightarrow>
                 if respStatus resp \<noteq> 200 then Inl (Errorf (''head returned '' @ itoa (respStatus resp)))
                 else Inr \<lparr>frOrigin = ''http'', frETag = header_get (respHeader resp) ''ETag'', frRevision = []\<rparr>))"

definition http_origin :: "HTTPOrigin \<Rightarrow> OriginFetcher" where
  "http_origin o1 = \<lparr>oName = ''http'', oFetch = HTTP_Fetch o1, oHead = HTTP_Head o1\<rparr>"

text \<open>
  The Hugging Face origin asks the model API for the revision first.  Decoding the JSON answer is
  a parameter (\<open>sha\<close> field of the body, or an error).
\<close>

record HuggingFaceOrigin =
  hfToken :: string
  hfBaseURL :: string
  hfClient :: http_client
  hfDecode :: "string \<Rightarrow> string res"

definition NewHuggingFace :: "string \<Rightarrow> http_client \<Rightarrow> (string \<Rightarrow> string res) \<Rightarrow> HuggingFaceOrigin" where
  "NewHuggingFace token c dec =
     \<lparr>hfToken = token, hfBaseURL = ''https://huggingface.co'', hfClient = c, hfDecode = dec\<rparr>"

definition hf_header :: "HuggingFaceOrigin \<Rightarrow> header" where
  "hf_header o1 = (if hfToken o1 \<noteq> [] then header_set ''Authorization'' (''Bearer '' @ hfToken o1) [] else [])"

definition getRepoInfo :: "HuggingFaceOrigin \<Rightarrow> string \<Rightarrow> string res" where
  "getRepoInfo o1 aid =
     (let url = hfBaseURL o1 @ ''/api/models/'' @ aid
      in case newRequest (hfClient o1) ''GET'' url of
           Some err \<Rightarrow> Inl err
         | None \<Rightarrow>
            (case roundTrip (hfClient o1) ''GET'' url (hf_header o1) [] of
               Inl err \<Rightarrow> Inl err
             | Inr resp \<Rightarrow>
                 if respStatus resp \<noteq> 200 then Inl (Errorf (''huggingface api '' @ itoa (respStatus resp) @ '': ''
                   @ trim_space (take 1024 (respBody resp))))
                 else hfDecode o1 (respBody resp)))"

definition HF_Fetch :: "HuggingFaceOrigin \<Rightarrow> env \<Rightarrow> string \<Rightarrow> path \<Rightarrow> fs \<Rightarrow> FetchResult res \<times> fs" where
  "HF_Fetch o1 e aid dest fs =
     (case getRepoInfo o1 aid of
        Inl err \<Rightarrow> (Inl err, fs)
      | Inr sha \<Rightarrow>
         (case fetch_files (hfClient o1) (\<lambda>f. hfBaseURL o1 @ ''/'' @ aid @ ''/resolve/main/'' @ f) (hf_header o1)
                 e dest adapter_files (False, []) fs of
            (Inl err, fs') \<Rightarrow> (Inl err, fs')
          | (Inr (fetched, _), fs') \<Rightarrow>
              if \<not> fetched then (Inl (Errorf (''no adapter files found for '' @ aid)), fs')
              else (case stat (faults e) (dest @ [config_file]) fs' of
                      Inl _ \<Rightarrow> (Inl (Errorf (''adapter_config.json not found for '' @ aid)), fs')
                    | Inr _ \<Rightarrow> (Inr \<lparr>frOrigin = ''huggingface'', frETag = [], frRevision = sha\<rparr>, fs'))))"

definition HF_Head :: "HuggingFaceOrigin \<Rightarrow> string \<Rightarrow> FetchResult res" where
  "HF_Head o1 aid =
     (case getRepoInfo o1 aid of
        Inl err \<Rightarrow> Inl err
      | Inr sha \<Rightarrow> Inr \<lparr>frOrigin = ''huggingface'', frETag = [], frRevision = sha\<rparr>)"

definition hf_origin :: "HuggingFaceOrigin \<Rightarrow> OriginFetcher" where
  "hf_origin o1 = \<lparr>oName = ''huggingface'', oFetch = HF_Fetch o1, oHead = HF_Head o1\<rparr>"

section \<open>S3\<close>

text \<open>
  The bucket is the parameter: the keys a listing returns (\<open>ListObjectsV2\<close>, one page), an object
  with its ETag header if any, and the outcome of a HEAD request.
\<close>

record s3_client =
  listObjects :: "string \<Rightarrow> string \<Rightarrow> string list res"
  getObject :: "string \<Rightarrow> string \<Rightarrow> (string \<times> goerr option \<times> string option) res"
  headObject :: "string \<Rightarrow> string \<Rightarrow> string option res"

record S3Origin =
  s3Client :: s3_client
  s3Bucket :: string
  s3Prefix :: string

definition NewS3 :: "s3_client res \<Rightarrow> string \<Rightarrow> string \<Rightarrow> S3Origin res" where
  "NewS3 loaded bucket pre =
     (case loaded of
        Inl err \<Rightarrow> Inl (Wrapf ''load aws config: '' err)
      | Inr c \<Rightarrow> Inr \<lparr>s3Client = c, s3Bucket = bucket, s3Prefix = trim_suffix ''/'' pre @ ''/''\<rparr>)"

text \<open>One key of the listing: the local path is the cleaned join of destination and relative key.\<close>

fun s3_objects :: "S3Origin \<Rightarrow> env \<Rightarrow> path \<Rightarrow> string \<Rightarrow> string list \<Rightarrow> string \<Rightarrow> fs \<Rightarrow> string res \<times> fs" where
  "s3_objects o1 e dest keyPrefix [] etag fs = (Inr etag, fs)"
| "s3_objects o1 e dest keyPrefix (key # keys) etag fs =
     (let relPath = trim_prefix keyPrefix key
      in if relPath = [] \<or> suffix ''/'' relPath then s3_objects o1 e dest keyPrefix keys etag fs
         else
           let localPath = walk_from dest (split_on slash relPath)
           in case mkdir_all (faults e) (butlast localPath) fs of
                (Inl err, fs') \<Rightarrow> (Inl err, fs')
              | (Inr _, fs') \<Rightarrow>
                 (case getObject (s3Client o1) (s3Bucket o1) key of
                    Inl err \<Rightarrow> (Inl (Wrapf (''get s3 object '' @ key @ '': '') err), fs')
                  | Inr (body, bodyErr, tag) \<Rightarrow>
                     (case write_file (faults e) localPath body (now e) fs' of
                        (Inl err, fs'') \<Rightarrow> (Inl err, fs'')
                      | (Inr _, fs'') \<Rightarrow>
                         (case bodyErr of
                            Some err \<Rightarrow> (Inl err, fs'')
                          | None \<Rightarrow>
                              s3_objects o1 e dest keyPrefix keys
                                (if relPath = ''adapter_config.json''
                                 then (case tag of Some t \<Rightarrow> t | None \<Rightarrow> etag) else etag) fs''))))"

definition S3_Fetch :: "S3Origin \<Rightarrow> env \<Rightarrow> string \<Rightarrow> path \<Rightarrow> fs \<Rightarrow> FetchResult res \<times> fs" where
  "S3_Fetch o1 e aid dest fs =
     (let keyPrefix = s3Prefix o1 @ aid @ ''/''
      in case listObjects (s3Client o1) (s3Bucket o1) keyPrefix of
           Inl err \<Rightarrow> (Inl (Wrapf ''list s3 objects: '' err), fs)
         | Inr keys \<Rightarrow>
             if keys = [] then (Inl (Errorf (''no objects found at s3://'' @ s3Bucket o1 @ ''/'' @ keyPrefix)), fs)
             else (case s3_objects o1 e dest keyPrefix keys [] fs of
                     (Inl err, fs') \<Rightarrow> (Inl err, fs')
                   | (Inr etag, fs') \<Rightarrow> (Inr \<lparr>frOrigin = ''s3'', frETag = etag, frRevision = []\<rparr>, fs')))"

definition S3_Head :: "S3Origin \<Rightarrow> string \<Rightarrow> FetchResult res" where
  "S3_Head o1 aid =
     (case headObject (s3Client o1) (s3Bucket o1) (s3Prefix o1 @ aid @ ''/adapter_config.json'') of
        Inl err \<Rightarrow> Inl err
      | Inr tag \<Rightarrow> Inr \<lparr>frOrigin = ''s3'', frETag = (case tag of Some t \<Rightarrow> t | None \<Rightarrow> []), frRevision = []\<rparr>)"

definition s3_origin :: "S3Origin \<Rightarrow> OriginFetcher" where
  "s3_origin o1 = \<lparr>oName = ''s3'', oFetch = S3_Fetch o1, oHead = S3_Head o1\<rparr>"

section \<open>The contract of a fetch\<close>

locale origin_contract =
  fixes fetch :: "env \<Rightarrow> string \<Rightarrow> path \<Rightarrow> fs \<Rightarrow> FetchResult res \<times> fs"
  assumes fetch_wf: "fs_wf fs \<Longrightarrow> fs_wf (snd (fetch e aid dest fs))"
    and fetch_frame: "\<not> strict_prefix dest q \<Longrightarrow> fs_get (snd (fetch e aid dest fs)) q = fs_get fs q"
    and fetch_config: "fst (fetch e aid dest fs) = Inr fr \<Longrightarrow>
      fs_get (snd (fetch e aid dest fs)) (dest @ [config_file]) \<noteq> None"
begin

lemma fetch_confined:
  assumes "prefix base dest" and "\<not> prefix base q"
  shows "fs_get (snd (fetch e aid dest fs)) q = fs_get fs q"
  using assms by (intro fetch_frame) (metis prefix_order.trans strict_prefixE)

lemma fetch_keeps_dest: "fs_get (snd (fetch e aid dest fs)) dest = fs_get fs dest"
  by (rule fetch_frame) simp

end

lemma fetch_files_wf: "fs_wf fs \<Longrightarrow> fs_wf (snd (fetch_files c url hdr e dest files st fs))"
proof (induction c url hdr e dest files st fs rule: fetch_files.induct)
  case (1 c url hdr e dest st fs)
  then show ?case by simp
next
  case (2 c url hdr e dest f files st fs)
  note wr = calls_wf(3) [OF "2.prems", of "faults e" "dest @ [f]" _ "now e"]
  show ?case
  proof (cases "newRequest c ''GET'' (url f)")
    case None
    show ?thesis
    proof (cases "roundTrip c ''GET'' (url f) hdr []")
      case (Inl a)
      then show ?thesis using 2 None by simp
    next
      case (Inr resp)
      then show ?thesis using "2.prems" wr [of "respBody resp"] "2.IH"(2,3) [OF None Inr] "2.IH"(4) [OF None Inr]
        by (auto simp: None split: prod.split sum.split option.split)
    qed
  qed (use 2 in simp)
qed

lemma fetch_files_frame:
  "\<forall>f \<in> set files. q \<noteq> dest @ [f] \<Longrightarrow> fs_get (snd (fetch_files c url hdr e dest files st fs)) q = fs_get fs q"
proof (induction c url hdr e dest files st fs rule: fetch_files.induct)
  case (1 c url hdr e dest st fs)
  then show ?case by simp
next
  case (2 c url hdr e dest f files st fs)
  have wr: "fs_get (snd (write_file (faults e) (dest @ [f]) d (now e) fs)) q = fs_get fs q" for d
    using "2.prems" by (intro write_file_frame) simp
  show ?case
  proof (cases "newRequest c ''GET'' (url f)")
    case None
    show ?thesis
    proof (cases "roundTrip c ''GET'' (url f) hdr []")
      case (Inl a)
      then show ?thesis using 2 None by simp
    next
      case (Inr resp)
      then show ?thesis using "2.prems" wr [of "respBody resp"] "2.IH"(2,3) [OF None Inr] "2.IH"(4) [OF None Inr]
        by (auto simp: None split: prod.split sum.split option.split)
    qed
  qed (use 2 in simp)
qed

lemma download_frame:
  "\<not> strict_prefix dest q \<Longrightarrow> fs_get (snd (fetch_files c url hdr e dest adapter_files st fs)) q = fs_get fs q"
  by (rule fetch_files_frame) (auto simp: strict_prefix_def)

lemma stat_Inr: "stat flt p fs = Inr n \<Longrightarrow> fs_get fs p = Some n"
  by (auto simp: stat_def split: option.splits)

interpretation http_fetch: origin_contract "HTTP_Fetch o1" for o1
proof unfold_locales
  fix fs e aid dest
  let ?url = "\<lambda>f. baseURL o1 @ ''/'' @ aid @ ''/'' @ f"
  show "fs_wf (snd (HTTP_Fetch o1 e aid dest fs))" if "fs_wf fs"
    using fetch_files_wf [OF that, of "client o1" ?url "[]" e dest adapter_files "(False, [])"]
    by (auto simp: HTTP_Fetch_def split: prod.split sum.split)
  show "fs_get (snd (HTTP_Fetch o1 e aid dest fs)) q = fs_get fs q" if "\<not> strict_prefix dest q" for q
    using download_frame [OF that, of "client o1" ?url "[]" e "(False, [])" fs]
    by (auto simp: HTTP_Fetch_def split: prod.split sum.split)
  show "fs_get (snd (HTTP_Fetch o1 e aid dest fs)) (dest @ [config_file]) \<noteq> None"
    if "fst (HTTP_Fetch o1 e aid dest fs) = Inr fr" for fr
    using that by (auto simp: HTTP_Fetch_def dest!: stat_Inr split: prod.splits sum.splits if_splits)
qed

interpretation hf_fetch: origin_contract "HF_Fetch o1" for o1
proof unfold_locales
  fix fs e aid dest
  let ?url = "\<lambda>f. hfBaseURL o1 @ ''/'' @ aid @ ''/resolve/main/'' @ f"
  show "fs_wf (snd (HF_Fetch o1 e aid dest fs))" if "fs_wf fs"
    using that fetch_files_wf [OF that, of "hfClient o1" ?url "hf_header o1" e dest adapter_files "(False, [])"]
    by (auto simp: HF_Fetch_def split: prod.split sum.split)
  show "fs_get (snd (HF_Fetch o1 e aid dest fs)) q = fs_get fs q" if "\<not> strict_prefix dest q" for q
    using download_frame [OF that, of "hfClient o1" ?url "hf_header o1" e "(False, [])" fs]
    by (auto simp: HF_Fetch_def split: prod.split sum.split)
  show "fs_get (snd (HF_Fetch o1 e aid dest fs)) (dest @ [config_file]) \<noteq> None"
    if "fst (HF_Fetch o1 e aid dest fs) = Inr fr" for fr
    using that by (auto simp: HF_Fetch_def dest!: stat_Inr split: prod.splits sum.splits if_splits)
qed

section \<open>What a download leaves on disk\<close>

text \<open>What the server delivers for a file: the body of a complete answer with status 200.\<close>

definition delivered :: "http_client \<Rightarrow> string \<Rightarrow> header \<Rightarrow> string option" where
  "delivered c url hdr =
     (case newRequest c ''GET'' url of
        Some _ \<Rightarrow> None
      | None \<Rightarrow> (case roundTrip c ''GET'' url hdr [] of
                  Inl _ \<Rightarrow> None
                | Inr resp \<Rightarrow> if respStatus resp = 200 \<and> respErr resp = None then Some (respBody resp) else None))"

lemma fetch_files_contents:
  assumes "fetch_files c url hdr e dest files st fs = (Inr st', fs')" and "distinct files" and "f \<in> set files"
  shows "fs_get fs' (dest @ [f])
    = (case delivered c (url f) hdr of Some d \<Rightarrow> Some (FileNode d (now e)) | None \<Rightarrow> fs_get fs (dest @ [f]))"
  using assms
proof (induction c url hdr e dest files st fs rule: fetch_files.induct)
  case (1 c url hdr e dest st fs)
  then show ?case by simp
next
  case (2 c url hdr e dest g files st fs)
  have none: "newRequest c ''GET'' (url g) = None" using "2.prems"(1) by (simp split: option.splits)
  have last: "fs_get fs' (dest @ [g]) = fs_get fs1 (dest @ [g])"
    if "fetch_files c url hdr e dest files st1 fs1 = (Inr st', fs')" for st1 fs1
    using fetch_files_frame [of files "dest @ [g]" dest c url hdr e st1 fs1] that "2.prems"(2) by auto
  show ?case
  proof (cases "roundTrip c ''GET'' (url g) hdr []")
    case (Inl a)
    then have go: "fetch_files c url hdr e dest files st fs = (Inr st', fs')" using "2.prems"(1) none by simp
    show ?thesis
    proof (cases "f = g")
      case True
      then show ?thesis using last [OF go] by (simp add: delivered_def none Inl)
    next
      case False
      then show ?thesis using "2.IH"(1) [OF none Inl go] "2.prems"(2,3) by simp
    qed
  next
    case (Inr resp)
    show ?thesis
    proof (cases "respStatus resp = 200")
      case False
      then have go: "fetch_files c url hdr e dest files st fs = (Inr st', fs')"
        using "2.prems"(1) none Inr by (simp split: if_splits)
      show ?thesis
      proof (cases "f = g")
        case True
        then show ?thesis using last [OF go] False by (simp add: delivered_def none Inr)
      next
        case neq: False
        then show ?thesis
          using "2.IH"(2) [OF none Inr _ go] "2.IH"(3) [OF none Inr _ _ go] False "2.prems"(2,3)
          by (cases "respStatus resp = 404") auto
      qed
    next
      case True
      obtain fs1 st1 where wr: "write_file (faults e) (dest @ [g]) (respBody resp) (now e) fs = (Inr (), fs1)"
        and err: "respErr resp = None" and go: "fetch_files c url hdr e dest files st1 fs1 = (Inr st', fs')"
        and st1: "st1 = (True, if g = ''adapter_config.json'' \<and> header_get (respHeader resp) ''ETag'' \<noteq> []
                                      then header_get (respHeader resp) ''ETag'' else snd st)"
        using "2.prems"(1) none Inr True by (auto split: prod.splits sum.splits option.splits)
      show ?thesis
      proof (cases "f = g")
        case True
        then show ?thesis using last [OF go] write_file_Inr [OF wr] \<open>respStatus resp = 200\<close> err
          by (simp add: delivered_def none Inr)
      next
        case False
        have "fs_get fs1 (dest @ [f]) = fs_get fs (dest @ [f])"
          using write_file_frame [of "dest @ [f]" "dest @ [g]" "faults e" "respBody resp" "now e" fs] wr False by simp
        then show ?thesis
          using "2.IH"(4) [OF none Inr _ _ wr [symmetric] refl err] go st1 False True "2.prems"(2,3)
          by (simp split: option.split)
      qed
    qed
  qed
qed

section \<open>Properties\<close>

text \<open>C19: A fetch from an HTTP origin that succeeds has created, for every adapter file the server
  delivered, a file with exactly the delivered bytes, has left the others alone, guarantees the
  configuration file, and touches nothing outside the destination directory.\<close>

theorem http_fetch_exact:
  assumes "HTTP_Fetch o1 e aid dest fs = (Inr r, fs')"
  shows "(\<forall>f \<in> set adapter_files. fs_get fs' (dest @ [f]) =
      (case delivered (client o1) (baseURL o1 @ ''/'' @ aid @ ''/'' @ f) [] of
         Some d \<Rightarrow> Some (FileNode d (now e)) | None \<Rightarrow> fs_get fs (dest @ [f])))
    \<and> fs_get fs' (dest @ [config_file]) \<noteq> None
    \<and> (\<forall>q. \<not> strict_prefix dest q \<longrightarrow> fs_get fs' q = fs_get fs q)
    \<and> frOrigin r = ''http''"
proof -
  let ?url = "\<lambda>f. baseURL o1 @ ''/'' @ aid @ ''/'' @ f"
  obtain st where go: "fetch_files (client o1) ?url [] e dest adapter_files (False, []) fs = (Inr st, fs')"
    and r: "frOrigin r = ''http''"
    using assms by (auto simp: HTTP_Fetch_def split: prod.splits sum.splits if_splits)
  have "distinct adapter_files" by (simp add: adapter_files_def)
  then have "\<forall>f \<in> set adapter_files. fs_get fs' (dest @ [f]) =
      (case delivered (client o1) (?url f) [] of Some d \<Rightarrow> Some (FileNode d (now e)) | None \<Rightarrow> fs_get fs (dest @ [f]))"
    using fetch_files_contents [OF go] by blast
  moreover have "fs_get fs' (dest @ [config_file]) \<noteq> None"
    using http_fetch.fetch_config [of o1 e aid dest fs r] assms by simp
  moreover have "\<forall>q. \<not> strict_prefix dest q \<longrightarrow> fs_get fs' q = fs_get fs q"
    using http_fetch.fetch_frame [of dest _ o1 e aid fs] assms by simp
  ultimately show ?thesis using r by blast
qed

text \<open>A server that has the configuration of adapter \<open>a\<close> and nothing else.\<close>

definition example_client :: http_client where
  "example_client = \<lparr>newRequest = (\<lambda>m u. None),
     roundTrip = (\<lambda>m u h b. Inr \<lparr>respStatus = (if u = ''h/a/adapter_config.json'' then 200 else 404),
       respHeader = [(''Etag'', [''v1''])], respBody = ''{}'', respErr = None\<rparr>)\<rparr>"

lemma http_fetch_exact_witness:
  "\<exists>fs'. HTTP_Fetch (NewHTTP ''h/'' example_client) example_env ''a'' [''d''] [([''d''], DirNode)]
      = (Inr \<lparr>frOrigin = ''http'', frETag = ''v1'', frRevision = []\<rparr>, fs')
    \<and> fs_get fs' [''d'', ''adapter_config.json''] = Some (FileNode ''{}'' 100)"
proof -
  let ?o = "NewHTTP ''h/'' example_client"
  let ?run = "HTTP_Fetch ?o example_env ''a'' [''d''] [([''d''], DirNode)]"
  have "fst ?run = Inr \<lparr>frOrigin = ''http'', frETag = ''v1'', frRevision = []\<rparr>" by code_simp
  then have run: "?run = (Inr \<lparr>frOrigin = ''http'', frETag = ''v1'', frRevision = []\<rparr>, snd ?run)"
    by (metis prod.collapse)
  have mem: "''adapter_config.json'' \<in> set adapter_files" by code_simp
  have dlv: "delivered (client ?o) (baseURL ?o @ ''/'' @ ''a'' @ ''/'' @ ''adapter_config.json'') [] = Some ''{}''"
    by code_simp
  have "fs_get (snd ?run) ([''d''] @ [''adapter_config.json'']) = Some (FileNode ''{}'' (now example_env))"
    using bspec [OF conjunct1 [OF http_fetch_exact [OF run]] mem] unfolding dlv option.case .
  then have "fs_get (snd ?run) [''d'', ''adapter_config.json''] = Some (FileNode ''{}'' 100)"
    by (simp add: example_env_def)
  with run show ?thesis by metis
qed

text \<open>A bucket whose listing for adapter \<open>a\<close> has one key, with a parent-directory component.\<close>

definition example_bucket :: S3Origin where
  "example_bucket = \<lparr>s3Client = \<lparr>listObjects = (\<lambda>b p. Inr [p @ ''../b/adapter_config.json'']),
      getObject = (\<lambda>b k. Inr (''{}'', None, None)), headObject = (\<lambda>b k. Inr None)\<rparr>,
     s3Bucket = ''bucket'', s3Prefix = ''p/''\<rparr>"

text \<open>The S3 origin keeps neither half of the contract: with a key that contains \<open>..\<close> its fetch
  succeeds, has written into the directory of another adapter and left the destination without a
  configuration file.\<close>

theorem s3_fetch_escapes:
  "fst (S3_Fetch example_bucket example_env ''a'' [''d'', ''.tmp-a''] [([''d''], DirNode), ([''d'', ''.tmp-a''], DirNode)])
     = Inr \<lparr>frOrigin = ''s3'', frETag = [], frRevision = []\<rparr>
   \<and> fs_get (snd (S3_Fetch example_bucket example_env ''a'' [''d'', ''.tmp-a''] [([''d''], DirNode), ([''d'', ''.tmp-a''], DirNode)]))
       [''d'', ''b'', ''adapter_config.json''] = Some (FileNode ''{}'' 100)
   \<and> fs_get (snd (S3_Fetch example_bucket example_env ''a'' [''d'', ''.tmp-a''] [([''d''], DirNode), ([''d'', ''.tmp-a''], DirNode)]))
       [''d'', ''.tmp-a'', config_file] = None"
  by (intro conjI; code_simp)

end
