(* ===== verification/Metrics.thy ===== *)
theory Metrics
  imports Prelude
begin

text \<open>
  \<open>internal/metrics/metrics.go\<close>.  The collectors belong to the Prometheus client library, which
  is not part of the repository: what the code does is call it, so the model records the calls
  (collector, label values, amount) in the order they are made.  Durations are not modelled;
  an observation is recorded without its value.
\<close>

datatype metric =
    CounterAdd string "string list" nat
  | GaugeSet string "string list" int
  | Observe string "string list"

type_synonym metrics = "metric list"

definition RecordRequest :: "string \<Rightarrow> string \<Rightarrow> metrics" where
  "RecordRequest tenant tier =
     (let t = (if tenant = [] then ''_default'' else tenant)
      in [CounterAdd ''loraplex_requests_total'' [t, tier] 1,
          Observe ''loraplex_request_duration_seconds'' [t, tier]])"

definition RecordForward :: "string \<Rightarrow> metrics" where
  "RecordForward peer = [CounterAdd ''loraplex_peer_forwards_total'' [peer] 1]"

definition RecordOverflow :: metrics where
  "RecordOverflow = [CounterAdd ''loraplex_overflow_local_total'' [] 1]"

definition RecordCacheHit :: "string \<Rightarrow> metrics" where
  "RecordCacheHit tier = [CounterAdd ''loraplex_cache_hits_total'' [tier] 1]"

definition RecordEviction :: "string \<Rightarrow> nat \<Rightarrow> metrics" where
  "RecordEviction tier count = [CounterAdd ''loraplex_cache_evictions_total'' [tier] count]"

definition UpdateCacheGauges :: "string \<Rightarrow> int64 \<Rightarrow> nat \<Rightarrow> metrics" where
  "UpdateCacheGauges tier sizeBytes itemCount =
     [GaugeSet ''loraplex_cache_size_bytes'' [tier] (sint sizeBytes),
      GaugeSet ''loraplex_cache_items'' [tier] (int itemCount)]"

definition RecordForwardDuration :: metrics where
  "RecordForwardDuration = [Observe ''loraplex_forward_duration_seconds'' []]"

text \<open>How often a counter was increased under given labels.\<close>

definition counted :: "string \<Rightarrow> string list \<Rightarrow> metrics \<Rightarrow> nat" where
  "counted c ls ms =
     sum_list (map (\<lambda>m. case m of CounterAdd c' ls' n \<Rightarrow> (if c' = c \<and> ls' = ls then n else 0) | _ \<Rightarrow> 0) ms)"

lemma counted_append [simp]: "counted c ls (a @ b) = counted c ls a + counted c ls b"
  by (simp add: counted_def)

section \<open>The collectors\<close>

datatype collector = Counter | Gauge | Histogram

text \<open>The collectors registered at start, with their kind and their labels.\<close>

definition collectors :: "(string \<times> collector \<times> string list) list" where
  "collectors =
     [(''loraplex_requests_total'', Counter, [''tenant'', ''cache_tier'']),
      (''loraplex_request_duration_seconds'', Histogram, [''tenant'', ''cache_tier'']),
      (''loraplex_peer_forwards_total'', Counter, [''target_peer'']),
      (''loraplex_overflow_local_total'', Counter, []),
      (''loraplex_cache_hits_total'', Counter, [''tier'']),
      (''loraplex_cache_evictions_total'', Counter, [''tier'']),
      (''loraplex_cache_size_bytes'', Gauge, [''tier'']),
      (''loraplex_cache_items'', Gauge, [''tier'']),
      (''loraplex_peers_active'', Gauge, []),
      (''loraplex_ring_rebuilds_total'', Counter, []),
      (''loraplex_vllm_healthy'', Gauge, []),
      (''loraplex_forward_duration_seconds'', Histogram, [])]"

text \<open>
  A call is safe when its collector is registered, of the right kind, and gets one value per label:
  \<open>WithLabelValues\<close> panics otherwise.
\<close>

fun declared :: "metric \<Rightarrow> bool" where
  "declared (CounterAdd c ls n) =
     (case map_of collectors c of Some (k, labels) \<Rightarrow> k = Counter \<and> length ls = length labels | None \<Rightarrow> False)"
| "declared (GaugeSet c ls v) =
     (case map_of collectors c of Some (k, labels) \<Rightarrow> k = Gauge \<and> length ls = length labels | None \<Rightarrow> False)"
| "declared (Observe c ls) =
     (case map_of collectors c of Some (k, labels) \<Rightarrow> k = Histogram \<and> length ls = length labels | None \<Rightarrow> False)"

lemma records_declared [simp]:
  "list_all declared (RecordRequest tenant tier)" "list_all declared (RecordForward p)" "list_all declared RecordOverflow"
  "list_all declared (RecordCacheHit tier)" "list_all declared (RecordEviction tier n)"
  "list_all declared (UpdateCacheGauges tier s i)" "list_all declared RecordForwardDuration"
  "declared (GaugeSet ''loraplex_peers_active'' [] v)" "declared (CounterAdd ''loraplex_ring_rebuilds_total'' [] n)"
  "declared (GaugeSet ''loraplex_vllm_healthy'' [] v)"
  by (simp_all add: RecordRequest_def RecordForward_def RecordOverflow_def RecordCacheHit_def RecordEviction_def
      UpdateCacheGauges_def RecordForwardDuration_def collectors_def Let_def)

declare declared.simps [simp del]

end
