(* ===== verification/Manager.thy ===== *)
theory Manager
  imports Origin Metrics
begin

text \<open>
  \<open>internal/cache/manager.go\<close>: an adapter is served from the store when it is there and fetched
  otherwise, into a temporary directory that is moved into place once it is complete; expired
  adapters are revalidated in the background.  An operation takes the environment and returns the
  new store, the new file system and the metrics it recorded.  The singleflight group makes the
  calls for one adapter exclude each other, so an operation is one step; background revalidations
  are tasks of their own, started by one step and run by a later one.
\<close>

section \<open>State\<close>

record Manager =
  store :: Store
  origins :: "OriginFetcher list"
  ttl :: int64
  revalidating :: "string set"

definition NewManager :: "Store \<Rightarrow> OriginFetcher list \<Rightarrow> int64 \<Rightarrow> Manager" where
  "NewManager st os t = \<lparr>store = st, origins = os, ttl = t, revalidating = {}\<rparr>"

record EnsureResult =
  Path :: string
  Cached :: bool

definition manager_rebuild :: "(adapterInfo list \<Rightarrow> adapterInfo list) \<Rightarrow> env \<Rightarrow> Manager \<Rightarrow> fs \<Rightarrow> unit res \<times> Manager \<times> fs" where
  "manager_rebuild srt e m fs =
     (case store_rebuild srt e (store m) fs of
        (Inl err, s', fs') \<Rightarrow> (Inl (Wrapf ''rebuild storage: '' err), m\<lparr>store := s'\<rparr>, fs')
      | (Inr _, s', fs') \<Rightarrow> (Inr (), m\<lparr>store := s'\<rparr>, fs'))"

section \<open>Fetching from the origins\<close>

definition tmp_dir :: "string \<Rightarrow> string \<Rightarrow> string" where
  "tmp_dir base aid = path_join [base, ''.tmp-'' @ replace_slashes aid]"

text \<open>The first origin whose fetch succeeds; the failed ones may leave files behind.\<close>

fun try_origins :: "env \<Rightarrow> OriginFetcher list \<Rightarrow> string \<Rightarrow> path \<Rightarrow> fs \<Rightarrow> FetchResult option \<times> fs" where
  "try_origins e [] aid tmp fs = (None, fs)"
| "try_origins e (o1 # os) aid tmp fs =
     (case oFetch o1 e aid tmp fs of
        (Inl _, fs') \<Rightarrow> try_origins e os aid tmp fs'
      | (Inr fr, fs') \<Rightarrow> (Some fr, fs'))"

text \<open>
  \<open>int(ttl.Seconds())\<close>: the duration in whole seconds (the conversion through \<open>float64\<close> is
  exact below 2^23 seconds).
\<close>

definition ttl_seconds :: "int64 \<Rightarrow> int64" where
  "ttl_seconds d = word_of_int (if 0 \<le> sint d then sint d div 1000000000 else - ((- sint d) div 1000000000))"

definition fetched_meta :: "env \<Rightarrow> int64 \<Rightarrow> FetchResult \<Rightarrow> AdapterMeta" where
  "fetched_meta e t fr =
     \<lparr>metaOrigin = frOrigin fr, metaETag = frETag fr, metaRevision = frRevision fr,
      metaFetchedAt = now e, metaTTLSeconds = ttl_seconds t\<rparr>"

text \<open>The last part of a fetch: the temporary directory replaces the adapter's directory.\<close>

definition move_into_place :: "env \<Rightarrow> string \<Rightarrow> string \<Rightarrow> Store \<Rightarrow> fs \<Rightarrow> unit res \<times> Store \<times> fs" where
  "move_into_place e aid tmp s fs =
     (let dst = adapter_dir (BasePath s) aid;
          fs1 = snd (remove_all (faults e) dst fs)
      in case mkdir_all (faults e) (butlast dst) fs1 of
           (Inl err, fs2) \<Rightarrow> (Inl (Wrapf ''create adapter parent dir: '' err), s, fs2)
         | (Inr _, fs2) \<Rightarrow>
            (case rename (faults e) (path_of tmp) dst fs2 of
               (Inl err, fs3) \<Rightarrow> (Inl (Wrapf ''move adapter to store: '' err), s, fs3)
             | (Inr _, fs3) \<Rightarrow>
                (case store_touch e fs3 aid s of (r, s') \<Rightarrow> (r, s', fs3))))"

text \<open>A successful download is labelled with its metadata, room is made for it, and it is moved.\<close>

definition install :: "env \<Rightarrow> int64 \<Rightarrow> string \<Rightarrow> string \<Rightarrow> FetchResult \<Rightarrow> Store \<Rightarrow> fs \<Rightarrow> unit res \<times> Store \<times> fs \<times> metrics" where
  "install e t aid tmp fr s fs =
     (case WriteMeta e (path_of tmp) (fetched_meta e t fr) fs of
        (Inl err, fs1) \<Rightarrow> (Inl (Wrapf ''write meta: '' err), s, fs1, [])
      | (Inr _, fs1) \<Rightarrow>
         (case dir_size (faults e) (path_of tmp) fs1 of
            Inl err \<Rightarrow> (Inl err, s, fs1, [])
          | Inr sz \<Rightarrow>
             (case make_room e sz s fs1 of
                ((_, Inl err), s', fs2) \<Rightarrow> (Inl err, s', fs2, [])
              | ((evicted, Inr _), s', fs2) \<Rightarrow>
                 (case move_into_place e aid tmp s' fs2 of
                    (r, s'', fs3) \<Rightarrow>
                      (r, s'', fs3, if evicted \<noteq> [] then RecordEviction ''local'' (length evicted) else [])))))"

text \<open>
  \<open>fetchFromOrigin\<close>: the deferred removal of the temporary directory runs on every path after
  the directory has been created.
\<close>

definition fetchFromOrigin :: "env \<Rightarrow> Manager \<Rightarrow> string \<Rightarrow> fs \<Rightarrow> unit res \<times> Store \<times> fs \<times> metrics" where
  "fetchFromOrigin e m aid fs =
     (let s = store m;
          tmp = tmp_dir (BasePath s) aid;
          fs0 = snd (remove_all (faults e) (path_of tmp) fs)
      in case mkdir_all (faults e) (path_of tmp) fs0 of
           (Inl err, fs1) \<Rightarrow> (Inl (Wrapf ''create tmp dir: '' err), s, fs1, [])
         | (Inr _, fs1) \<Rightarrow>
            (case (case try_origins e (origins m) aid (path_of tmp) fs1 of
                     (None, fs2) \<Rightarrow> (Inl (Errorf (''adapter '' @ aid @ '' not found in any origin'')), s, fs2, [])
                   | (Some fr, fs2) \<Rightarrow> install e (ttl m) aid tmp fr s fs2)
             of (r, s', fs3, ms) \<Rightarrow> (r, s', snd (remove_all (faults e) (path_of tmp) fs3), ms)))"

section \<open>Revalidation\<close>

text \<open>A revalidation to run in the background, with the metadata it was started for.\<close>

type_synonym task = "string \<times> AdapterMeta"

definition maybeRevalidate :: "env \<Rightarrow> Manager \<Rightarrow> string \<Rightarrow> fs \<Rightarrow> Manager \<times> task list" where
  "maybeRevalidate e m aid fs =
     (if ttl m <=s 0 \<or> origins m = [] then (m, [])
      else case ReadMeta e (adapter_dir (BasePath (store m)) aid) fs of
             Inl _ \<Rightarrow> (m, [])
           | Inr meta \<Rightarrow>
               if \<not> IsExpired (now e) meta then (m, [])
               else if aid \<in> revalidating m then (m, [])
               else (m\<lparr>revalidating := insert aid (revalidating m)\<rparr>, [(aid, meta)]))"

fun first_head :: "OriginFetcher list \<Rightarrow> string \<Rightarrow> FetchResult option" where
  "first_head [] aid = None"
| "first_head (o1 # os) aid = (case oHead o1 aid of Inl _ \<Rightarrow> first_head os aid | Inr h \<Rightarrow> Some h)"

text \<open>Only the first origin that answers is asked; the results of the file operations are ignored.\<close>

definition revalidateAdapter :: "env \<Rightarrow> Manager \<Rightarrow> task \<Rightarrow> fs \<Rightarrow> Manager \<times> fs \<times> metrics" where
  "revalidateAdapter e m t fs =
     (case t of (aid, oldMeta) \<Rightarrow>
        (case first_head (origins m) aid of
           None \<Rightarrow> (m, fs, [])
         | Some h \<Rightarrow>
             let newContentID = (if frETag h = [] then frRevision h else frETag h);
                 oldContentID = ContentID oldMeta
             in if newContentID \<noteq> [] \<and> oldContentID \<noteq> [] \<and> newContentID = oldContentID
                then (m, snd (WriteMeta e (adapter_dir (BasePath (store m)) aid)
                                (oldMeta\<lparr>metaFetchedAt := now e\<rparr>) fs), [])
                else
                  (case store_remove e aid (store m) fs of
                     (_, s', fs') \<Rightarrow>
                       (case fetchFromOrigin e (m\<lparr>store := s'\<rparr>) aid fs' of
                          (_, s'', fs'', ms) \<Rightarrow> (m\<lparr>store := s''\<rparr>, fs'', ms)))))"

text \<open>The goroutine: when the revalidation returns, the adapter may be revalidated again.\<close>

definition run_task :: "env \<Rightarrow> Manager \<Rightarrow> task \<Rightarrow> fs \<Rightarrow> Manager \<times> fs \<times> metrics" where
  "run_task e m t fs =
     (case revalidateAdapter e m t fs of
        (m', fs', ms) \<Rightarrow> (m'\<lparr>revalidating := revalidating m' - {fst t}\<rparr>, fs', ms))"

section \<open>Operations of the cache\<close>

definition ensureInternal :: "env \<Rightarrow> Manager \<Rightarrow> string \<Rightarrow> fs \<Rightarrow> EnsureResult res \<times> Manager \<times> fs \<times> metrics \<times> task list" where
  "ensureInternal e m aid fs =
     (if store_has e (store m) fs aid then
        (case store_touch e fs aid (store m) of
           (Inl err, s') \<Rightarrow> (Inl err, m\<lparr>store := s'\<rparr>, fs, [], [])
         | (Inr _, s') \<Rightarrow>
            (case maybeRevalidate e (m\<lparr>store := s'\<rparr>) aid fs of
               (m', ts) \<Rightarrow>
                 (Inr \<lparr>Path = AdapterPath (BasePath s') aid, Cached = True\<rparr>, m', fs, RecordCacheHit ''local'', ts)))
      else
        (case fetchFromOrigin e m aid fs of
           (Inl err, s', fs', ms) \<Rightarrow> (Inl err, m\<lparr>store := s'\<rparr>, fs', ms, [])
         | (Inr _, s', fs', ms) \<Rightarrow>
             (Inr \<lparr>Path = AdapterPath (BasePath s') aid, Cached = False\<rparr>, m\<lparr>store := s'\<rparr>, fs',
              ms @ RecordCacheHit ''origin'', [])))"

definition EnsureAdapter :: "env \<Rightarrow> Manager \<Rightarrow> string \<Rightarrow> fs \<Rightarrow> EnsureResult res \<times> Manager \<times> fs \<times> metrics \<times> task list" where
  "EnsureAdapter e m aid fs =
     (case ValidateAdapterID (BasePath (store m)) aid of
        Inl err \<Rightarrow> (Inl err, m, fs, [], [])
      | Inr _ \<Rightarrow> ensureInternal e m aid fs)"

definition EvictAdapter :: "env \<Rightarrow> Manager \<Rightarrow> string \<Rightarrow> fs \<Rightarrow> unit res \<times> Manager \<times> fs" where
  "EvictAdapter e m aid fs =
     (case ValidateAdapterID (BasePath (store m)) aid of
        Inl err \<Rightarrow> (Inl err, m, fs)
      | Inr _ \<Rightarrow>
         (case store_remove e aid (store m) fs of (r, s', fs') \<Rightarrow> (r, m\<lparr>store := s'\<rparr>, fs')))"

section \<open>The temporary directory\<close>

lemma tmp_component: "proper (''.tmp-'' @ replace_slashes aid)"
proof -
  have "slash \<notin> set (replace_slashes aid)" by (auto simp: replace_slashes_def)
  then show ?thesis by (simp add: proper_def)
qed

lemma tmp_path: "is_abs base \<Longrightarrow> path_of (tmp_dir base aid) = path_of base @ [''.tmp-'' @ replace_slashes aid]"
  unfolding tmp_dir_def by (rule path_of_path_join_entry [OF _ tmp_component])

section \<open>Operations stay below the storage directory\<close>

text \<open>
  An operation that stays below \<open>b\<close>: from a well-formed disk on which the parent of \<open>b\<close> exists it
  leads to a well-formed disk that differs below \<open>b\<close> only.
\<close>

definition stays_below :: "path \<Rightarrow> fs \<Rightarrow> fs \<Rightarrow> bool" where
  "stays_below b fs fs' \<longleftrightarrow> (fs_wf fs \<and> fs_get fs (butlast b) = Some DirNode \<longrightarrow>
     fs_wf fs' \<and> (\<forall>q. \<not> prefix b q \<longrightarrow> fs_get fs' q = fs_get fs q))"

lemma below_refl [simp]: "stays_below b fs fs"
  by (simp add: stays_below_def)

lemma below_trans:
  assumes "b \<noteq> []" and "stays_below b fs1 fs2" and "stays_below b fs2 fs3"
  shows "stays_below b fs1 fs3"
  using assms not_prefix_butlast [of b] by (simp add: stays_below_def)

lemma below_remove_all: "prefix b p \<Longrightarrow> stays_below b fs (snd (remove_all flt p fs))"
  unfolding stays_below_def using calls_wf(2) remove_all_frame by (metis prefix_order.trans)

lemma below_mkdir_all:
  assumes "b \<noteq> []" and "prefix b p \<or> p = butlast b"
  shows "stays_below b fs (snd (mkdir_all flt p fs))"
  unfolding stays_below_def
proof (intro impI conjI allI)
  assume ok: "fs_wf fs \<and> fs_get fs (butlast b) = Some DirNode"
  then show "fs_wf (snd (mkdir_all flt p fs))" using calls_wf(1) by blast
  fix q assume nb: "\<not> prefix b q"
  show "fs_get (snd (mkdir_all flt p fs)) q = fs_get fs q"
  proof (cases "prefix q p")
    case True
    then have "prefix q (butlast b)"
    proof (cases "prefix b p")
      case True
      then have "prefix q b" using \<open>prefix q p\<close> nb by (metis prefix_same_cases)
      then have "strict_prefix q b" using nb by (auto simp: strict_prefix_def)
      then show ?thesis using assms(1) by (metis append_butlast_last_id prefix_snoc strict_prefixE strict_prefixI')
    qed (use assms(2) in auto)
    then have "fs_get fs q \<noteq> None"
      using ok fs_ancestor [of fs "butlast b" q] by (cases "q = butlast b") (auto simp: strict_prefix_def)
    then show ?thesis by (simp add: mkdir_all_frame)
  next
    case False
    then show ?thesis by (simp add: mkdir_all_frame)
  qed
qed

lemma below_write_meta: "prefix b dir \<Longrightarrow> stays_below b fs (snd (WriteMeta e dir m fs))"
  unfolding stays_below_def using WriteMeta_wf WriteMeta_frame by (metis prefix_prefix)

lemma below_rename:
  assumes "prefix b src" and "prefix b dst"
  shows "stays_below b fs (snd (rename flt src dst fs))"
  unfolding stays_below_def using calls_wf(4) rename_frame assms by (metis prefix_order.trans)

lemma below_make_room:
  assumes "store_inv s"
  shows "stays_below (path_of (BasePath s)) fs (snd (snd (make_room e req s fs)))"
  unfolding stays_below_def
  using make_room_inv(2) [OF assms] make_room_confined [OF assms] by (metis prod.collapse)

section \<open>The origins of a manager\<close>

definition origins_ok :: "OriginFetcher list \<Rightarrow> bool" where
  "origins_ok os \<longleftrightarrow> (\<forall>o1 \<in> set os. origin_contract (oFetch o1))"

lemma try_origins_props:
  assumes "origins_ok os"
  shows "(fs_wf fs \<longrightarrow> fs_wf (snd (try_origins e os aid tmp fs)))
    \<and> (\<forall>q. \<not> strict_prefix tmp q \<longrightarrow> fs_get (snd (try_origins e os aid tmp fs)) q = fs_get fs q)
    \<and> (fst (try_origins e os aid tmp fs) = Some fr \<longrightarrow>
        fs_get (snd (try_origins e os aid tmp fs)) (tmp @ [config_file]) \<noteq> None)"
  using assms
proof (induction os arbitrary: fs)
  case Nil
  then show ?case by simp
next
  case (Cons o1 os)
  then have c: "origin_contract (oFetch o1)" and os: "origins_ok os" by (auto simp: origins_ok_def)
  note wf = origin_contract.fetch_wf [OF c, of fs e aid tmp]
    and frame = origin_contract.fetch_frame [OF c, of tmp _ e aid fs]
    and config = origin_contract.fetch_config [OF c, of e aid tmp fs fr]
  obtain r fs1 where run: "oFetch o1 e aid tmp fs = (r, fs1)" by fastforce
  show ?case
  proof (cases r)
    case (Inl err)
    then show ?thesis using wf frame Cons.IH [OF os, of fs1] by (simp add: run)
  next
    case (Inr res)
    then show ?thesis using wf frame config by (auto simp: run)
  qed
qed

lemmas try_origins_wf = try_origins_props [THEN conjunct1, rule_format]
lemmas try_origins_frame = try_origins_props [THEN conjunct2, THEN conjunct1, rule_format]
lemmas try_origins_config = try_origins_props [THEN conjunct2, THEN conjunct2, rule_format]

lemma below_try_origins:
  assumes "origins_ok os" and "prefix b tmp"
  shows "stays_below b fs (snd (try_origins e os aid tmp fs))"
  unfolding stays_below_def
  using try_origins_wf [OF assms(1)] try_origins_frame [OF assms(1)] assms(2)
  by (metis prefix_order.trans strict_prefix_def)

section \<open>Confinement\<close>

lemma below_move:
  assumes "b = path_of (BasePath s)" and "b \<noteq> []" and "prefix b (adapter_dir (BasePath s) aid)" and "prefix b (path_of tmp)"
  shows "stays_below b fs (snd (snd (move_into_place e aid tmp s fs)))"
proof -
  let ?dst = "adapter_dir (BasePath s) aid"
  let ?fs1 = "snd (remove_all (faults e) ?dst fs)"
  let ?fs2 = "snd (mkdir_all (faults e) (butlast ?dst) ?fs1)"
  let ?fs3 = "snd (rename (faults e) (path_of tmp) ?dst ?fs2)"
  have "prefix b (butlast ?dst) \<or> butlast ?dst = butlast b"
    using assms(3) by (metis append_butlast_last_id butlast.simps(1) prefix_bot.extremum_uniqueI prefix_snoc)
  then have 2: "stays_below b fs ?fs2"
    using below_trans [OF assms(2) below_remove_all [OF assms(3)] below_mkdir_all [OF assms(2)]] by metis
  then have 3: "stays_below b fs ?fs3" using below_trans [OF assms(2) _ below_rename [OF assms(4,3)]] by metis
  show ?thesis using 2 3 by (auto simp: move_into_place_def Let_def split: prod.split sum.split)
qed

lemma store_touch_result:
  assumes "store_touch e fs aid s = (r, s')" and "store_inv s" and "ValidateAdapterID (BasePath s) aid = Inr ()"
  shows "store_inv s' \<and> BasePath s' = BasePath s"
  using store_touch_inv [OF assms(2,3), of e fs] store_touch_simps [of e fs aid s] assms(1) by simp

lemma make_room_result:
  assumes "make_room e req s fs = ((evicted, r), s', fs')" and "store_inv s"
  shows "store_inv s' \<and> BasePath s' = BasePath s \<and> tracked s' \<subseteq> tracked s"
  using assms(2) tracked_evict(1) [of s req] lru_evict_inv [of "lru s" req] make_room_split(1) [OF assms(1)]
  by (auto simp: store_inv_def)

lemma move_into_place_store:
  assumes inv: "store_inv s" and v: "ValidateAdapterID (BasePath s) aid = Inr ()"
    and run: "move_into_place e aid tmp s fs = (r, s', fs')"
  shows "store_inv s' \<and> BasePath s' = BasePath s"
proof -
  have "s' = s \<or> (\<exists>fs3 r3. store_touch e fs3 aid s = (r3, s'))"
    using run by (auto simp: move_into_place_def Let_def split: prod.splits sum.splits)
  then show ?thesis using store_touch_result [OF _ inv v] inv by blast
qed

text \<open>The three ways an installation can end.\<close>

lemma install_cases:
  assumes "install e t aid tmp fr s fs = (r, s', fs', ms)"
  defines "fs1 \<equiv> snd (WriteMeta e (path_of tmp) (fetched_meta e t fr) fs)"
  obtains (early) err where "r = Inl err" "s' = s" "fs' = fs1" "ms = []"
  | (room) err ev where "r = Inl err" "make_room e (dir_bytes fs1 (path_of tmp)) s fs1 = ((ev, Inl err), s', fs')" "ms = []"
  | (move) ev s2 fs2 where "make_room e (dir_bytes fs1 (path_of tmp)) s fs1 = ((ev, Inr ()), s2, fs2)"
      "move_into_place e aid tmp s2 fs2 = (r, s', fs')"
      "ms = (if ev \<noteq> [] then RecordEviction ''local'' (length ev) else [])"
      "WriteMeta e (path_of tmp) (fetched_meta e t fr) fs = (Inr (), fs1)"
proof -
  obtain w where w: "WriteMeta e (path_of tmp) (fetched_meta e t fr) fs = (w, fs1)" unfolding fs1_def by (metis prod.collapse)
  show thesis
  proof (cases "isl w \<or> isl (dir_size (faults e) (path_of tmp) fs1)")
    case True
    then show thesis using assms(1) w
      by (auto simp: install_def isl_def split: sum.splits intro!: early)
  next
    case False
    then obtain sz where sz: "dir_size (faults e) (path_of tmp) fs1 = Inr sz" and wr: "w = Inr ()"
      by (cases w; cases "dir_size (faults e) (path_of tmp) fs1") auto
    then have szb: "sz = dir_bytes fs1 (path_of tmp)" using dir_size_Inr by blast
    obtain ev r2 s2 fs2 where mr: "make_room e sz s fs1 = ((ev, r2), s2, fs2)" by (metis prod.collapse)
    show thesis
    proof (cases r2)
      case (Inl err)
      then show thesis using assms(1) w sz wr mr szb by (auto simp: install_def intro!: room)
    next
      case (Inr u)
      then show thesis using assms(1) w sz wr mr szb
        by (auto simp: install_def split: prod.splits intro!: move)
    qed
  qed
qed

lemma below_install:
  assumes inv: "store_inv s" and b: "b = path_of (BasePath s)" "b \<noteq> []"
    and v: "ValidateAdapterID (BasePath s) aid = Inr ()" and tmp: "prefix b (path_of tmp)"
    and run: "install e t aid tmp fr s fs = (r, s', fs', ms)"
  shows "stays_below b fs fs' \<and> store_inv s' \<and> BasePath s' = BasePath s"
proof -
  have dst: "prefix b (adapter_dir (BasePath s) aid)" using valid_id_inside inv v b by (auto simp: store_inv_def)
  let ?fs1 = "snd (WriteMeta e (path_of tmp) (fetched_meta e t fr) fs)"
  have 1: "stays_below b fs ?fs1" by (rule below_write_meta [OF tmp])
  from run show ?thesis
  proof (cases rule: install_cases)
    case early
    then show ?thesis using 1 inv by simp
  next
    case (room err ev)
    have "stays_below b ?fs1 fs'" using below_make_room [OF inv, of ?fs1 e] room(2) b(1) by (metis snd_conv)
    then show ?thesis using below_trans [OF b(2) 1] make_room_result [OF room(2) inv] by blast
  next
    case (move ev s2 fs2)
    note s2 = make_room_result [OF move(1) inv]
    have "stays_below b ?fs1 fs2" using below_make_room [OF inv, of ?fs1 e] move(1) b(1) by (metis snd_conv)
    moreover have "stays_below b fs2 fs'"
      using below_move [of b s2 aid tmp fs2 e] move(2) s2 b dst tmp by simp
    ultimately have "stays_below b fs fs'" using below_trans [OF b(2) 1] below_trans [OF b(2)] by blast
    then show ?thesis using move_into_place_store [of s2 aid e tmp fs2 r s' fs'] s2 v move(2) by simp
  qed
qed

lemma fetch_cases:
  assumes "fetchFromOrigin e m aid fs = (r, s', fs', ms)"
  defines "tmp \<equiv> path_of (tmp_dir (BasePath (store m)) aid)"
  defines "fs1 \<equiv> snd (mkdir_all (faults e) tmp (snd (remove_all (faults e) tmp fs)))"
  defines "fs2 \<equiv> snd (try_origins e (origins m) aid tmp fs1)"
  obtains (mkdir) err where "r = Inl err" "s' = store m" "fs' = fs1" "ms = []"
  | (none) "r = Inl (Errorf (''adapter '' @ aid @ '' not found in any origin''))" "s' = store m"
      "fst (try_origins e (origins m) aid tmp fs1) = None" "fs' = snd (remove_all (faults e) tmp fs2)" "ms = []"
  | (some) fr fs3 where "fst (try_origins e (origins m) aid tmp fs1) = Some fr"
      "install e (ttl m) aid (tmp_dir (BasePath (store m)) aid) fr (store m) fs2 = (r, s', fs3, ms)"
      "fs' = snd (remove_all (faults e) tmp fs3)"
      "mkdir_all (faults e) tmp (snd (remove_all (faults e) tmp fs)) = (Inr (), fs1)"
proof -
  obtain w where w: "mkdir_all (faults e) tmp (snd (remove_all (faults e) tmp fs)) = (w, fs1)"
    unfolding fs1_def by (metis prod.collapse)
  obtain fo where fo: "try_origins e (origins m) aid tmp fs1 = (fo, fs2)" unfolding fs2_def by (metis prod.collapse)
  show thesis
  proof (cases w)
    case (Inl err)
    then show thesis using assms(1) w by (auto simp: fetchFromOrigin_def Let_def tmp_def intro!: mkdir)
  next
    case ok: (Inr u)
    show thesis
    proof (cases fo)
      case None
      then show thesis using assms(1) w ok fo
        by (intro none) (auto simp: fetchFromOrigin_def Let_def tmp_def)
    next
      case (Some fr)
      obtain r3 s3 fs3 ms3 where inst: "install e (ttl m) aid (tmp_dir (BasePath (store m)) aid) fr (store m) fs2 = (r3, s3, fs3, ms3)"
        by (metis prod.collapse)
      then show thesis using assms(1) w ok fo Some
        by (intro some [of fr fs3]) (auto simp: fetchFromOrigin_def Let_def tmp_def)
    qed
  qed
qed

lemma below_fetch:
  assumes inv: "store_inv (store m)" and b: "b = path_of (BasePath (store m))" "b \<noteq> []"
    and v: "ValidateAdapterID (BasePath (store m)) aid = Inr ()" and os: "origins_ok (origins m)"
    and run: "fetchFromOrigin e m aid fs = (r, s', fs', ms)"
  shows "stays_below b fs fs' \<and> store_inv s' \<and> BasePath s' = BasePath (store m)"
proof -
  let ?tmp = "path_of (tmp_dir (BasePath (store m)) aid)"
  let ?fs1 = "snd (mkdir_all (faults e) ?tmp (snd (remove_all (faults e) ?tmp fs)))"
  let ?fs2 = "snd (try_origins e (origins m) aid ?tmp ?fs1)"
  have tmp: "prefix b ?tmp" using inv b(1) by (simp add: store_inv_def tmp_path)
  note tr = below_trans [OF b(2)]
  have 1: "stays_below b fs ?fs1"
    using tr [OF below_remove_all [OF tmp] below_mkdir_all [OF b(2)]] tmp by blast
  have 2: "stays_below b fs ?fs2" by (rule tr [OF 1 below_try_origins [OF os tmp]])
  from run show ?thesis
  proof (cases rule: fetch_cases)
    case mkdir
    then show ?thesis using 1 inv by simp
  next
    case none
    then show ?thesis using tr [OF 2 below_remove_all [OF tmp]] inv by simp
  next
    case (some fr fs3)
    have "stays_below b ?fs2 fs3 \<and> store_inv s' \<and> BasePath s' = BasePath (store m)"
      by (rule below_install [OF inv b v tmp some(2)])
    then show ?thesis using tr [OF tr [OF 2] below_remove_all [OF tmp]] some(3) by blast
  qed
qed

section \<open>A successful fetch\<close>

lemma fs_dir_of: "fs_wf fs \<Longrightarrow> fs_get fs (p @ [c]) \<noteq> None \<Longrightarrow> fs_get fs p = Some DirNode"
  using fs_parent [of fs "p @ [c]"] by simp

text \<open>The size of a tree is a function of what lookups below it return.\<close>

lemma dir_bytes_cong:
  assumes "fs_wf fs" and "fs_wf fs'" and same: "\<And>q. prefix p q \<Longrightarrow> fs_get fs' q = fs_get fs q"
  shows "dir_bytes fs' p = dir_bytes fs p"
proof -
  let ?sub = "\<lambda>fs. filter (\<lambda>e :: path \<times> node. prefix p (fst e)) fs"
  have iff: "x \<in> set (?sub f) \<longleftrightarrow> prefix p (fst x) \<and> fst x \<noteq> [] \<and> fs_get f (fst x) = Some (snd x)" if "fs_wf f" for f x
    using that fs_getI [OF that, of "fst x" "snd x"] fs_get_in [of f "fst x" "snd x"]
    by (auto simp: fs_wf_def)
  have "set (?sub fs') = set (?sub fs)" using iff [OF assms(1)] iff [OF assms(2)] same by auto
  moreover have "distinct (?sub fs')" "distinct (?sub fs)"
    using assms(1,2) by (simp_all add: fs_wf_def distinct_map)
  ultimately have "mset (?sub fs') = mset (?sub fs)" by (metis set_eq_iff_mset_eq_distinct)
  then have "mset (map (node_size \<circ> snd) (?sub fs')) = mset (map (node_size \<circ> snd) (?sub fs))" by simp
  then show ?thesis unfolding dir_bytes_def by (metis sum_mset_sum_list)
qed

text \<open>What a successful move leaves: the whole temporary tree, with its size, under the new name.\<close>

lemma move_success:
  assumes wf: "fs_wf fs" and run: "move_into_place e aid tmp s fs = (Inr u, s', fs')"
  defines "dst \<equiv> adapter_dir (BasePath s) aid" and "src \<equiv> path_of tmp"
  shows "fs_wf fs'" and "\<forall>r. fs_get fs' (dst @ r) = fs_get fs (src @ r)"
    and "dir_bytes fs' dst = dir_bytes fs src" and "\<not> prefix src dst" and "\<not> prefix dst src"
    and "s' = s\<lparr>lru := lru_touch (lru s) aid (dir_bytes fs' dst) (now e)\<rparr>"
    and "fs_get fs src \<noteq> None"
proof -
  let ?fs1 = "snd (remove_all (faults e) dst fs)"
  obtain fs2 where mk: "mkdir_all (faults e) (butlast dst) ?fs1 = (Inr (), fs2)"
    and mv: "rename (faults e) src dst fs2 = (Inr (), fs')" and st: "store_touch e fs' aid s = (Inr (), s')"
    using run unfolding move_into_place_def Let_def dst_def src_def by (auto split: prod.splits sum.splits)
  have wf2: "fs_wf fs2" using calls_wf(1) [OF calls_wf(2) [OF wf]] mk by (metis snd_conv)
  then show "fs_wf fs'" using calls_wf(4) [OF wf2] mv by (metis snd_conv)
  have raw: "rename_raw src dst fs2 = Inr fs'" using mv by (simp add: rename_def syscall_Inr)
  note np = rename_raw_not_prefix [OF wf2 raw]
  show "\<not> prefix src dst" "\<not> prefix dst src" by (fact np(1), fact np(2))
  have frame: "fs_get fs2 (src @ r) = fs_get fs (src @ r)" for r
  proof -
    have "\<not> prefix dst (src @ r)" using np(1,2) by (metis prefixI prefix_same_cases)
    then have 1: "fs_get ?fs1 (src @ r) = fs_get fs (src @ r)" by (rule remove_all_frame)
    have "\<not> prefix (src @ r) (butlast dst)" using np(1) by (metis append_prefixD prefix_butlastD)
    then have "fs_get fs2 (src @ r) = fs_get ?fs1 (src @ r)"
      using mkdir_all_frame [of "src @ r" "butlast dst" ?fs1 "faults e"] mk by simp
    then show ?thesis using 1 by simp
  qed
  show "\<forall>r. fs_get fs' (dst @ r) = fs_get fs (src @ r)"
    by (simp add: rename_raw_get [OF wf2 raw] frame)
  have "dir_bytes fs2 src = dir_bytes fs src"
    by (rule dir_bytes_cong [OF wf wf2]) (use frame in \<open>auto simp: prefix_def\<close>)
  then show "dir_bytes fs' dst = dir_bytes fs src" using dir_bytes_rename [OF wf2 raw] by simp
  show "s' = s\<lparr>lru := lru_touch (lru s) aid (dir_bytes fs' dst) (now e)\<rparr>"
    using st by (auto simp: store_touch_def dst_def dest: dir_size_Inr split: sum.splits)
  have "fs_get fs2 src \<noteq> None" using raw by (auto simp: rename_raw_def split: if_splits)
  then show "fs_get fs src \<noteq> None" using frame [of "[]"] by simp
qed

text \<open>
  A successful installation of a download: the adapter's directory holds what the temporary
  directory held, with the metadata added, and the adapter is the most recently used.
\<close>

lemma install_success:
  assumes inv: "store_inv s" and wf: "fs_wf fs"
    and apart: "\<forall>a \<in> tracked s. \<not> prefix (path_of tmp) (adapter_dir (BasePath s) a)"
    and run: "install e t aid tmp fr s fs = (Inr u, s', fs', ms)"
  defines "dst \<equiv> adapter_dir (BasePath s) aid"
    and "fs1 \<equiv> snd (WriteMeta e (path_of tmp) (fetched_meta e t fr) fs)"
  shows "fs_wf fs'" and "\<forall>r. fs_get fs' (dst @ r) = fs_get fs1 (path_of tmp @ r)"
    and "WriteMeta e (path_of tmp) (fetched_meta e t fr) fs = (Inr (), fs1)"
    and "\<not> prefix (path_of tmp) dst" and "\<not> prefix dst (path_of tmp)"
    and "lru s' = lru_touch (fst (lru_evict (lru s) (dir_bytes fs' dst))) aid (dir_bytes fs' dst) (now e)"
proof -
  from run obtain ev s2 fs2 where mr: "make_room e (dir_bytes fs1 (path_of tmp)) s fs1 = ((ev, Inr ()), s2, fs2)"
    and mv: "move_into_place e aid tmp s2 fs2 = (Inr u, s', fs')"
    and w: "WriteMeta e (path_of tmp) (fetched_meta e t fr) fs = (Inr (), fs1)"
    unfolding fs1_def by (cases rule: install_cases) simp_all
  have wf1: "fs_wf fs1" unfolding fs1_def by (rule WriteMeta_wf [OF wf])
  have wf2: "fs_wf fs2" using make_room_inv(2) [OF inv wf1 mr] .
  have BP: "BasePath s2 = BasePath s" using make_room_result [OF mr inv] by simp
  note ms = move_success [OF wf2 mv, unfolded BP, folded dst_def]
  note sp = make_room_split [OF mr]
  have frame: "fs_get fs2 (path_of tmp @ r) = fs_get fs1 (path_of tmp @ r)" for r
  proof -
    have "\<not> prefix (adapter_dir (BasePath s) a) (path_of tmp @ r)" if a: "a \<in> set ev" for a
    proof
      assume "prefix (adapter_dir (BasePath s) a) (path_of tmp @ r)"
      moreover have "a \<in> tracked s" using a sp(2) tracked_evict(1) [of s] inv unfolding store_inv_def by blast
      ultimately have pre: "prefix (adapter_dir (BasePath s) a) (path_of tmp)"
        using apart by (metis prefixI prefix_same_cases)
      have "path_of tmp \<noteq> []" using ms(4) by auto
      then have "fs_get fs2 (path_of tmp) = None" using remove_dirs_gone [OF sp(3) a pre] by simp
      then show False using ms(7) by simp
    qed
    then show ?thesis using remove_dirs_frame [of ev "BasePath s" "path_of tmp @ r" e fs1] sp(3) by simp
  qed
  show "fs_wf fs'" by (fact ms(1))
  show "\<forall>r. fs_get fs' (dst @ r) = fs_get fs1 (path_of tmp @ r)" using ms(2) frame by simp
  show "WriteMeta e (path_of tmp) (fetched_meta e t fr) fs = (Inr (), fs1)" by (fact w)
  show "\<not> prefix (path_of tmp) dst" "\<not> prefix dst (path_of tmp)" by (fact ms(4), fact ms(5))
  have "dir_bytes fs2 (path_of tmp) = dir_bytes fs1 (path_of tmp)"
    by (rule dir_bytes_cong [OF wf1 wf2]) (use frame in \<open>auto simp: prefix_def\<close>)
  then show "lru s' = lru_touch (fst (lru_evict (lru s) (dir_bytes fs' dst))) aid (dir_bytes fs' dst) (now e)"
    using ms(6,3) sp(1) by simp
qed

lemma fetch_success:
  assumes inv: "store_inv (store m)" and wf: "fs_wf fs" and os: "origins_ok (origins m)"
    and v: "ValidateAdapterID (BasePath (store m)) aid = Inr ()"
    and apart: "\<forall>a \<in> tracked (store m). \<not> prefix (path_of (tmp_dir (BasePath (store m)) aid)) (adapter_dir (BasePath (store m)) a)"
    and run: "fetchFromOrigin e m aid fs = (Inr u, s', fs', ms)"
  defines "dst \<equiv> adapter_dir (BasePath (store m)) aid"
  shows "fs_wf fs' \<and> fs_get fs' (dst @ [config_file]) \<noteq> None
    \<and> (\<exists>fr d. encodeMeta e (fetched_meta e (ttl m) fr) = Inr d \<and> fs_get fs' (dst @ [MetaFileName]) = Some (FileNode d (now e)))
    \<and> lru s' = lru_touch (fst (lru_evict (lru (store m)) (dir_bytes fs' dst))) aid (dir_bytes fs' dst) (now e)"
proof -
  let ?tmp = "path_of (tmp_dir (BasePath (store m)) aid)"
  let ?fs1 = "snd (mkdir_all (faults e) ?tmp (snd (remove_all (faults e) ?tmp fs)))"
  let ?fs2 = "snd (try_origins e (origins m) aid ?tmp ?fs1)"
  from run obtain fr fs3 where tr: "fst (try_origins e (origins m) aid ?tmp ?fs1) = Some fr"
    and inst: "install e (ttl m) aid (tmp_dir (BasePath (store m)) aid) fr (store m) ?fs2 = (Inr u, s', fs3, ms)"
    and fs': "fs' = snd (remove_all (faults e) ?tmp fs3)"
    by (cases rule: fetch_cases) simp_all
  have wf1: "fs_wf ?fs1" using calls_wf(1) [OF calls_wf(2) [OF wf]] .
  have wf2: "fs_wf ?fs2" by (rule try_origins_wf [OF os wf1])
  note inst_ok = install_success [OF inv wf2 apart inst, folded dst_def]
  have cfg: "fs_get ?fs2 (?tmp @ [config_file]) \<noteq> None" by (rule try_origins_config [OF os tr])
  let ?fs2m = "snd (WriteMeta e ?tmp (fetched_meta e (ttl m) fr) ?fs2)"
  have "config_file \<noteq> MetaFileName" by (simp add: config_file_def MetaFileName_def)
  then have "fs_get ?fs2m (?tmp @ [config_file]) = fs_get ?fs2 (?tmp @ [config_file])"
    by (intro WriteMeta_frame) simp
  then have cfg3: "fs_get fs3 (dst @ [config_file]) \<noteq> None" using cfg inst_ok(2) by simp
  obtain d where d: "encodeMeta e (fetched_meta e (ttl m) fr) = Inr d"
    and "write_file (faults e) (?tmp @ [MetaFileName]) d (now e) ?fs2 = (Inr (), ?fs2m)"
    using inst_ok(3) by (auto simp: WriteMeta_def split: sum.splits)
  then have meta3: "fs_get fs3 (dst @ [MetaFileName]) = Some (FileNode d (now e))"
    using write_file_Inr inst_ok(2) by simp
  have keep: "fs_get fs' q = fs_get fs3 q" if "prefix dst q" for q
  proof -
    have "\<not> prefix ?tmp q" using that inst_ok(4,5) by (metis prefix_same_cases)
    then show ?thesis by (simp add: fs' remove_all_frame)
  qed
  have wf': "fs_wf fs'" unfolding fs' by (rule calls_wf(2) [OF inst_ok(1)])
  have size: "dir_bytes fs' dst = dir_bytes fs3 dst" by (rule dir_bytes_cong [OF inst_ok(1) wf']) (rule keep)
  show ?thesis
    using wf' cfg3 meta3 d inst_ok(6) keep [of "dst @ [config_file]"] keep [of "dst @ [MetaFileName]"]
    by (auto simp: size)
qed

section \<open>Ensuring an adapter\<close>

lemma install_store:
  assumes inv: "store_inv s" and v: "ValidateAdapterID (BasePath s) aid = Inr ()"
    and run: "install e t aid tmp fr s fs = (r, s', fs', ms)"
  shows "store_inv s' \<and> BasePath s' = BasePath s"
  using run
proof (cases rule: install_cases)
  case (room err ev)
  then show ?thesis using make_room_result [OF room(2) inv] by simp
next
  case (move ev s2 fs2)
  note s2 = make_room_result [OF move(1) inv]
  then show ?thesis using move_into_place_store [of s2 aid e tmp fs2 r s' fs'] v move(2) by simp
qed (use inv in simp_all)

lemma fetch_store:
  assumes inv: "store_inv (store m)" and v: "ValidateAdapterID (BasePath (store m)) aid = Inr ()"
    and run: "fetchFromOrigin e m aid fs = (r, s', fs', ms)"
  shows "store_inv s' \<and> BasePath s' = BasePath (store m)"
  using run
proof (cases rule: fetch_cases)
  case (some fr fs3)
  then show ?thesis using install_store [OF inv v some(2)] by simp
qed (use inv in simp_all)

lemma hd_touch: "lru_inv l \<Longrightarrow> \<exists>rest. lru_items (lru_touch l aid sz t) = aid # rest"
proof -
  assume "lru_inv l"
  then have "lru_items (lru_touch l aid sz t) = map fst (a_touch aid sz (lru_entries l))"
    by (metis entries_touch map_fst_lru_entries)
  then show ?thesis by (auto simp: a_touch_def split: option.splits)
qed

lemma store_has_get:
  assumes "store_has e s fs aid" and "is_abs (BasePath s)"
  shows "fs_get fs (adapter_dir (BasePath s) aid) = Some DirNode"
    and "fs_get fs (adapter_dir (BasePath s) aid @ [config_file]) \<noteq> None"
  using assms by (auto simp: store_has_def Let_def adapter_config_path stat_def split: sum.splits node.splits option.splits)

lemma maybeRevalidate_store:
  assumes "maybeRevalidate e m aid fs = (m', ts)"
  shows "store m' = store m \<and> origins m' = origins m \<and> ttl m' = ttl m"
  using assms by (auto simp: maybeRevalidate_def split: if_splits sum.splits)

text \<open>The ways \<open>EnsureAdapter\<close> can go: refused, served from the store, or fetched.\<close>

lemma ensure_cases:
  assumes "EnsureAdapter e m aid fs = (r, m', fs', ms, ts)"
  obtains (refused) err where "ValidateAdapterID (BasePath (store m)) aid = Inl err" "r = Inl err" "m' = m" "fs' = fs" "ts = []" "ms = []"
  | (touch_error) err where "ValidateAdapterID (BasePath (store m)) aid = Inr ()" "store_has e (store m) fs aid"
      "r = Inl err" "m' = m" "fs' = fs" "ts = []" "ms = []"
  | (cached) s' where "ValidateAdapterID (BasePath (store m)) aid = Inr ()" "store_has e (store m) fs aid"
      "store_touch e fs aid (store m) = (Inr (), s')" "maybeRevalidate e (m\<lparr>store := s'\<rparr>) aid fs = (m', ts)"
      "r = Inr \<lparr>Path = AdapterPath (BasePath s') aid, Cached = True\<rparr>" "fs' = fs" "ms = RecordCacheHit ''local''"
  | (failed) err s' where "ValidateAdapterID (BasePath (store m)) aid = Inr ()" "\<not> store_has e (store m) fs aid"
      "fetchFromOrigin e m aid fs = (Inl err, s', fs', ms)" "r = Inl err" "m' = m\<lparr>store := s'\<rparr>" "ts = []"
  | (fetched) s' ms' where "ValidateAdapterID (BasePath (store m)) aid = Inr ()" "\<not> store_has e (store m) fs aid"
      "fetchFromOrigin e m aid fs = (Inr (), s', fs', ms')" "m' = m\<lparr>store := s'\<rparr>" "ts = []"
      "r = Inr \<lparr>Path = AdapterPath (BasePath s') aid, Cached = False\<rparr>" "ms = ms' @ RecordCacheHit ''origin''"
proof (cases "ValidateAdapterID (BasePath (store m)) aid")
  case (Inl err)
  then show thesis using assms by (intro refused) (auto simp: EnsureAdapter_def)
next
  case v: (Inr u)
  then have run: "ensureInternal e m aid fs = (r, m', fs', ms, ts)" using assms by (simp add: EnsureAdapter_def)
  show thesis
  proof (cases "store_has e (store m) fs aid")
    case True
    obtain rt s' where tt: "store_touch e fs aid (store m) = (rt, s')" by fastforce
    show thesis
    proof (cases rt)
      case (Inl err)
      then have "s' = store m" using tt by (auto simp: store_touch_def split: sum.splits)
      then have "m\<lparr>store := s'\<rparr> = m" by simp
      then show thesis using run True tt Inl v by (intro touch_error [of err]) (auto simp: ensureInternal_def)
    next
      case (Inr u)
      then show thesis using run True tt v
        by (intro cached [of s']) (auto simp: ensureInternal_def split: prod.splits)
    qed
  next
    case False
    obtain rf s' fs1 ms1 where ff: "fetchFromOrigin e m aid fs = (rf, s', fs1, ms1)" by (metis prod.collapse)
    show thesis
    proof (cases rf)
      case (Inl err)
      then show thesis using run False ff v by (intro failed [of err s']) (simp_all add: ensureInternal_def)
    next
      case (Inr u)
      then show thesis using run False ff v by (intro fetched [of s' ms1]) (simp_all add: ensureInternal_def)
    qed
  qed
qed

lemma ensure_stays:
  assumes inv: "store_inv (store m)" and b: "b = path_of (BasePath (store m))" "b \<noteq> []"
    and os: "origins_ok (origins m)" and run: "EnsureAdapter e m aid fs = (r, m', fs', ms, ts)"
  shows "stays_below b fs fs' \<and> store_inv (store m') \<and> BasePath (store m') = BasePath (store m)
    \<and> origins m' = origins m"
  using run
proof (cases rule: ensure_cases)
  case (cached s')
  then show ?thesis using store_touch_result [OF cached(3) inv cached(1)] maybeRevalidate_store [OF cached(4)] by simp
next
  case (failed err s')
  then show ?thesis using below_fetch [OF inv b failed(1) os failed(3)] by simp
next
  case (fetched s' ms')
  then show ?thesis using below_fetch [OF inv b fetched(1) os fetched(3)] by simp
qed (use inv in simp_all)

section \<open>Properties\<close>

lemma ensure_on_disk:
  assumes inv: "store_inv (store m)" and wf: "fs_wf fs" and os: "origins_ok (origins m)"
    and apart: "\<forall>a \<in> tracked (store m). \<not> prefix (path_of (tmp_dir (BasePath (store m)) aid)) (adapter_dir (BasePath (store m)) a)"
    and run: "EnsureAdapter e m aid fs = (Inr r, m', fs', ms, ts)"
  shows "Path r = AdapterPath (BasePath (store m)) aid \<and> fs_wf fs'
    \<and> fs_get fs' (path_of (Path r)) = Some DirNode \<and> fs_get fs' (path_of (Path r) @ [config_file]) \<noteq> None"
proof -
  have base: "is_abs (BasePath (store m))" using inv by (simp add: store_inv_def)
  from run show ?thesis
  proof (cases rule: ensure_cases)
    case (cached s')
    then show ?thesis
      using store_has_get [OF cached(2) base] store_touch_result [OF cached(3) inv cached(1)] wf by simp
  next
    case (fetched s' ms')
    then show ?thesis
      using fetch_success [OF inv wf os fetched(1) apart fetched(3)] fetch_store [OF inv fetched(1,3)] fs_dir_of [of fs']
      by auto
  qed simp_all
qed

text \<open>C1: When EnsureAdapter succeeds, the path it returns is the adapter's directory, that directory
  is on disk with an \<open>adapter_config.json\<close> in it, and the adapter is the most recently used entry of
  a well-formed index, whether it was cached or fetched through origins that keep the contract.  The one
  assumption on the cache is that no indexed adapter lies in the temporary directory of this one.\<close>

theorem ensure_success:
  assumes inv: "store_inv (store m)" and wf: "fs_wf fs" and os: "origins_ok (origins m)"
    and apart: "\<forall>a \<in> tracked (store m). \<not> prefix (path_of (tmp_dir (BasePath (store m)) aid)) (adapter_dir (BasePath (store m)) a)"
    and run: "EnsureAdapter e m aid fs = (Inr r, m', fs', ms, ts)"
  shows "Path r = AdapterPath (BasePath (store m)) aid
    \<and> fs_get fs' (path_of (Path r)) = Some DirNode
    \<and> fs_get fs' (path_of (Path r) @ [config_file]) \<noteq> None
    \<and> store_inv (store m') \<and> fs_wf fs'
    \<and> (\<exists>rest. lru_items (lru (store m')) = aid # rest)"
proof -
  have lru: "lru_inv (lru (store m))" using inv by (simp add: store_inv_def)
  have "store_inv (store m') \<and> (\<exists>rest. lru_items (lru (store m')) = aid # rest)"
    using run
  proof (cases rule: ensure_cases)
    case (cached s')
    obtain sz where "lru s' = lru_touch (lru (store m)) aid sz (now e)"
      using cached(3) by (auto simp: store_touch_def split: sum.splits)
    then show ?thesis using hd_touch [OF lru, of aid sz "now e"] store_touch_result [OF cached(3) inv cached(1)]
        maybeRevalidate_store [OF cached(4)] by simp
  next
    case (fetched s' ms')
    have "\<exists>rest. lru_items (lru s') = aid # rest"
      using fetch_success [OF inv wf os fetched(1) apart fetched(3)] hd_touch [OF lru_evict_inv [OF lru]] by metis
    then show ?thesis using fetch_store [OF inv fetched(1,3)] fetched(4) by simp
  qed simp_all
  then show ?thesis using ensure_on_disk [OF inv wf os apart run] by metis
qed

text \<open>A manager over an empty storage directory, with one HTTP origin.\<close>

definition example_manager :: Manager where
  "example_manager = NewManager (NewStore ''/d'' 10) [http_origin (NewHTTP ''h/'' example_client)] 0"

definition empty_disk :: fs where
  "empty_disk = [([''d''], DirNode)]"

lemma example_manager_ok:
  "store_inv (store example_manager)" "fs_wf empty_disk" "origins_ok (origins example_manager)"
  "tracked (store example_manager) = {}" "BasePath (store example_manager) = ''/d''"
proof -
  have "is_abs ''/d''" by code_simp
  then show "store_inv (store example_manager)" by (simp add: example_manager_def NewManager_def NewStore_inv)
  show "fs_wf empty_disk" by code_simp
  show "origins_ok (origins example_manager)"
    using http_fetch.origin_contract_axioms
    by (simp add: origins_ok_def example_manager_def NewManager_def http_origin_def)
  show "tracked (store example_manager) = {}"
    by (simp add: tracked_def example_manager_def NewManager_def NewStore_def NewLRU_def lru_items_def)
  show "BasePath (store example_manager) = ''/d''" by (simp add: example_manager_def NewManager_def NewStore_def)
qed

definition example_ensure :: "EnsureResult res \<times> Manager \<times> fs \<times> metrics \<times> task list" where
  "example_ensure = EnsureAdapter example_env example_manager ''a'' empty_disk"

lemma example_ensure_run:
  "EnsureAdapter example_env example_manager ''a'' empty_disk
   = (Inr \<lparr>Path = ''/d/a'', Cached = False\<rparr>, fst (snd example_ensure), fst (snd (snd example_ensure)),
      [CounterAdd ''loraplex_cache_hits_total'' [''origin''] 1], [])"
proof -
  have "fst example_ensure = Inr \<lparr>Path = ''/d/a'', Cached = False\<rparr>" by code_simp
  moreover have "fst (snd (snd (snd example_ensure))) = [CounterAdd ''loraplex_cache_hits_total'' [''origin''] 1]" by code_simp
  moreover have "length (snd (snd (snd (snd example_ensure)))) = 0" by code_simp
  ultimately show ?thesis unfolding example_ensure_def by (metis length_0_conv prod.collapse)
qed

lemma ensure_success_witness:
  "fs_get (fst (snd (snd example_ensure))) [''d'', ''a'', ''adapter_config.json''] \<noteq> None
   \<and> (\<exists>rest. lru_items (lru (store (fst (snd example_ensure)))) = ''a'' # rest)"
proof -
  have path: "path_of (Path \<lparr>Path = ''/d/a'', Cached = False\<rparr>) @ [config_file] = [''d'', ''a'', ''adapter_config.json'']"
    by code_simp
  have apart: "\<forall>a \<in> tracked (store example_manager). \<not> prefix (path_of (tmp_dir (BasePath (store example_manager)) ''a''))
      (adapter_dir (BasePath (store example_manager)) a)"
    by (simp add: example_manager_ok(4))
  note all = ensure_success [OF example_manager_ok(1,2,3) apart example_ensure_run, unfolded path]
  show ?thesis using all by metis
qed



text \<open>C12: Fetching an adapter that was not in the index and fits the budget by itself keeps the cache
  within the budget: the sizes the index counts, the new adapter's included, do not exceed
  \<open>max_size\<close>, and what is counted for the new adapter is the size of its directory.\<close>

theorem ensure_within_budget:
  assumes inv: "store_inv (store m)" and wf: "fs_wf fs" and os: "origins_ok (origins m)"
    and apart: "\<forall>a \<in> tracked (store m). \<not> prefix (path_of (tmp_dir (BasePath (store m)) aid)) (adapter_dir (BasePath (store m)) a)"
    and run: "EnsureAdapter e m aid fs = (Inr r, m', fs', ms, ts)" and new: "\<not> Cached r" "aid \<notin> tracked (store m)"
    and fits: "sint (dir_bytes fs' (path_of (Path r))) \<le> sint (lru_maxSize (lru (store m)))"
  shows "sint (lru_size (lru (store m'))) \<le> sint (lru_maxSize (lru (store m')))
    \<and> lru_maxSize (lru (store m')) = lru_maxSize (lru (store m))
    \<and> map_of (lru_entries (lru (store m'))) aid = Some (dir_bytes fs' (path_of (Path r)))"
  using run
proof (cases rule: ensure_cases)
  case (fetched s' ms')
  have lru: "lru_inv (lru (store m))" using inv by (simp add: store_inv_def)
  let ?sz = "dir_bytes fs' (adapter_dir (BasePath (store m)) aid)"
  let ?l = "fst (lru_evict (lru (store m)) ?sz)"
  have bp: "BasePath s' = BasePath (store m)" using fetch_store [OF inv fetched(1,3)] by simp
  have l': "lru s' = lru_touch ?l aid ?sz (now e)"
    using fetch_success [OF inv wf os fetched(1) apart fetched(3)] by simp
  have new': "aid \<notin> fst ` set (lru_entries (lru (store m)))" using new(2) by (simp add: tracked_def)
  have "\<not> maxSize (lru (store m)) <s ?sz" using fits fetched(6) bp by (simp add: sless_sint lru_maxSize_def)
  then have "\<not> maxSize (lru (store m)) <s a_total (lru_entries (lru s'))"
    unfolding l' by (rule lru_index.evict_then_touch [OF lru _ new'])
  moreover have "a_total (lru_entries (lru s')) = lru_size (lru s')"
    using a_total_lru_entries lru_touch_inv [OF lru_evict_inv [OF lru]] by (simp add: l' lru_size_def)
  moreover have mx: "lru_maxSize (lru s') = lru_maxSize (lru (store m))" using lru by (simp add: l' lru_maxSize_def)
  moreover have "map_of (lru_entries (lru s')) aid = Some ?sz"
  proof -
    have "aid \<notin> fst ` set (lru_entries ?l)"
      using lru_index.evict_partition(1) [OF lru, of ?sz] new' by blast
    then have "map_of (lru_entries ?l) aid = None" by (metis map_of_eq_None_iff)
    then show ?thesis by (simp add: l' entries_touch lru_evict_inv [OF lru] a_touch_def)
  qed
  ultimately show ?thesis using fetched(4,6) bp by (simp add: sless_sint lru_maxSize_def)
qed (use new in simp_all)

lemma ensure_within_budget_witness:
  "sint (lru_size (lru (store (fst (snd example_ensure))))) \<le> 10"
proof -
  have apart: "\<forall>a \<in> tracked (store example_manager). \<not> prefix (path_of (tmp_dir (BasePath (store example_manager)) ''a''))
      (adapter_dir (BasePath (store example_manager)) a)"
    by (simp add: example_manager_ok(4))
  have fetched: "\<not> Cached \<lparr>Path = ''/d/a'', Cached = False\<rparr>" by simp
  have new: "''a'' \<notin> tracked (store example_manager)" by (simp add: example_manager_ok(4))
  have mx: "sint (lru_maxSize (lru (store example_manager))) = 10" by code_simp
  have fits: "sint (dir_bytes (fst (snd (snd example_ensure))) (path_of (Path \<lparr>Path = ''/d/a'', Cached = False\<rparr>)))
      \<le> sint (lru_maxSize (lru (store example_manager)))"
    by code_simp
  show ?thesis
    using ensure_within_budget [OF example_manager_ok(1,2,3) apart example_ensure_run fetched new fits] mx by metis
qed

text \<open>Creating the temporary directory on a disk that works: it is new, and the rest stays.\<close>

lemma tmp_created:
  assumes wf: "fs_wf fs" and base: "fs_get fs B = Some DirNode" and flt: "flt = no_faults"
  obtains fs1 where "mkdir_all flt (B @ [c]) (snd (remove_all flt (B @ [c]) fs)) = (Inr (), fs1)" and "fs_wf fs1"
    and "\<And>q. \<not> prefix (B @ [c]) q \<Longrightarrow> fs_get fs1 q = fs_get fs q"
proof -
  let ?tmp = "B @ [c]"
  let ?fs0 = "snd (remove_all flt ?tmp fs)"
  have rm: "remove_all flt ?tmp fs = (Inr (), ?fs0)"
    using remove_all_ok [OF wf, of ?tmp] base by (simp add: flt)
  have wf0: "fs_wf ?fs0" by (rule calls_wf(2) [OF wf])
  have base0: "fs_get ?fs0 B = Some DirNode"
    using base remove_all_frame [of ?tmp B flt fs] by simp
  have up: "fs_get ?fs0 q = Some DirNode" if "prefix q B" for q
    using that base0 fs_ancestor [OF wf0, of B q] by (cases "q = B") (auto simp: strict_prefix_def)
  have gone0: "fs_get ?fs0 ?tmp = None" by (rule remove_all_gone [OF rm]) simp_all
  have "\<not> is_file ?fs0 q" if "prefix q ?tmp" for q
    using that gone0 up [of q] by (cases "q = ?tmp") (auto simp: is_file_def)
  then have "\<not> list_ex (is_file ?fs0) (prefixes ?tmp)" by (auto simp: list_ex_iff)
  then obtain fs1 where mk: "mkdir_all flt ?tmp ?fs0 = (Inr (), fs1)"
    by (simp add: mkdir_all_def syscall_def flt no_faults_def mkdir_raw_def)
  have wf1: "fs_wf fs1" using calls_wf(1) [OF wf0, of flt ?tmp] mk by simp
  have "fs_get fs1 q = fs_get fs q" if "\<not> prefix ?tmp q" for q
  proof -
    have "\<not> prefix q ?tmp \<or> fs_get ?fs0 q \<noteq> None" using up [of q] that by auto
    then show ?thesis
      using mkdir_all_frame [of q ?tmp ?fs0 flt] remove_all_frame [OF that, of flt fs] mk by simp
  qed
  with that [OF mk wf1] show thesis by blast
qed

lemma try_origins_fail:
  assumes "\<forall>o1 \<in> set os. \<forall>fs1. isl (fst (oFetch o1 e aid tmp fs1))"
  shows "fst (try_origins e os aid tmp fs) = None"
  using assms
proof (induction os arbitrary: fs)
  case Nil
  then show ?case by simp
next
  case (Cons o1 os)
  then obtain err fs1 where "oFetch o1 e aid tmp fs = (Inl err, fs1)"
    by (metis isl_def list.set_intros(1) prod.collapse)
  then show ?case using Cons by simp
qed



text \<open>C16: A cached adapter is served without asking an origin and without touching the disk: it moves to
  the front of the recency list, one local hit is counted, and a revalidation is started at most for
  this adapter, only when its metadata has expired and none is under way for it.\<close>

theorem ensure_cached_hit:
  assumes inv: "store_inv (store m)" and v: "ValidateAdapterID (BasePath (store m)) aid = Inr ()"
    and has: "store_has e (store m) fs aid"
    and readable: "dir_size (faults e) (adapter_dir (BasePath (store m)) aid) fs = Inr sz"
  shows "\<exists>m' ts. EnsureAdapter e m aid fs
      = (Inr \<lparr>Path = AdapterPath (BasePath (store m)) aid, Cached = True\<rparr>, m', fs,
         [CounterAdd ''loraplex_cache_hits_total'' [''local''] 1], ts)
    \<and> lru_entries (lru (store m')) = a_touch aid sz (lru_entries (lru (store m)))
    \<and> revalidating m' = revalidating m \<union> fst ` set ts
    \<and> (ts = [] \<or> (\<exists>meta. ts = [(aid, meta)] \<and> aid \<notin> revalidating m \<and> 0 <s ttl m \<and> IsExpired (now e) meta
         \<and> ReadMeta e (adapter_dir (BasePath (store m)) aid) fs = Inr meta))"
proof -
  let ?s = "(store m)\<lparr>lru := lru_touch (lru (store m)) aid sz (now e)\<rparr>"
  have tt: "store_touch e fs aid (store m) = (Inr (), ?s)" by (simp add: store_touch_def readable)
  obtain m' ts where mr: "maybeRevalidate e (m\<lparr>store := ?s\<rparr>) aid fs = (m', ts)" by fastforce
  have "EnsureAdapter e m aid fs
      = (Inr \<lparr>Path = AdapterPath (BasePath (store m)) aid, Cached = True\<rparr>, m', fs,
         [CounterAdd ''loraplex_cache_hits_total'' [''local''] 1], ts)"
    by (simp add: EnsureAdapter_def v ensureInternal_def has tt mr RecordCacheHit_def)
  moreover have "store m' = ?s" using maybeRevalidate_store [OF mr] by simp
  moreover have "lru_entries (lru ?s) = a_touch aid sz (lru_entries (lru (store m)))"
    using inv by (simp add: store_inv_def entries_touch)
  moreover have "revalidating m' = revalidating m \<union> fst ` set ts
    \<and> (ts = [] \<or> (\<exists>meta. ts = [(aid, meta)] \<and> aid \<notin> revalidating m \<and> 0 <s ttl m \<and> IsExpired (now e) meta
         \<and> ReadMeta e (adapter_dir (BasePath (store m)) aid) fs = Inr meta))"
    using mr by (auto simp: maybeRevalidate_def sless_sint sle_sint split: if_splits sum.splits)
  ultimately show ?thesis by metis
qed

definition cached_manager :: Manager where
  "cached_manager = NewManager example_store [http_origin (NewHTTP ''h/'' example_client)] 0"

lemma ensure_cached_hit_witness:
  "\<exists>m' ts. EnsureAdapter example_env cached_manager ''o/b'' example_disk
      = (Inr \<lparr>Path = ''/d/o/b'', Cached = True\<rparr>, m', example_disk,
         [CounterAdd ''loraplex_cache_hits_total'' [''local''] 1], ts)
    \<and> lru_entries (lru (store m')) = [(''o/b'', 2), (''a'', 2)]"
proof -
  have st: "store cached_manager = example_store" by (simp add: cached_manager_def NewManager_def)
  have inv: "store_inv (store cached_manager)" by (simp add: st example_store_inv)
  have v: "ValidateAdapterID (BasePath (store cached_manager)) ''o/b'' = Inr ()" by code_simp
  have has: "store_has example_env (store cached_manager) example_disk ''o/b''" by code_simp
  have size: "dir_size (faults example_env) (adapter_dir (BasePath (store cached_manager)) ''o/b'') example_disk = Inr 2"
    by code_simp
  have path: "AdapterPath (BasePath (store cached_manager)) ''o/b'' = ''/d/o/b''" by code_simp
  have front: "a_touch ''o/b'' 2 (lru_entries (lru (store cached_manager))) = [(''o/b'', 2), (''a'', 2)]" by code_simp
  show ?thesis using ensure_cached_hit [OF inv v has size] unfolding path front by metis
qed

text \<open>EvictAdapter refuses an ID that leaves the storage directory and then changes nothing.  For any
  other ID the adapter leaves the index, other entries and everything outside its directory stay, and
  when no error is reported nothing is left of the directory.\<close>

theorem evict_adapter_effect:
  assumes inv: "store_inv (store m)" and wf: "fs_wf fs"
  shows "\<exists>r m' fs'. EvictAdapter e m aid fs = (r, m', fs') \<and> store_inv (store m') \<and> fs_wf fs'
    \<and> (if isl (ValidateAdapterID (BasePath (store m)) aid) then isl r \<and> m' = m \<and> fs' = fs
       else tracked (store m') = tracked (store m) - {aid}
         \<and> (\<forall>q. \<not> prefix (adapter_dir (BasePath (store m)) aid) q \<longrightarrow> fs_get fs' q = fs_get fs q)
         \<and> (r = Inr () \<longrightarrow> (\<forall>q. prefix (adapter_dir (BasePath (store m)) aid) q \<and> q \<noteq> [] \<longrightarrow> fs_get fs' q = None)))"
proof (cases "ValidateAdapterID (BasePath (store m)) aid")
  case (Inl err)
  then show ?thesis using inv wf by (simp add: EvictAdapter_def)
next
  case (Inr u)
  let ?d = "adapter_dir (BasePath (store m)) aid"
  obtain r s' fs' where rm: "store_remove e aid (store m) fs = (r, s', fs')" by (metis prod.collapse)
  then have ra: "remove_all (faults e) ?d fs = (r, fs')" by (auto simp: store_remove_def Let_def split: prod.splits)
  have "\<forall>q. \<not> prefix ?d q \<longrightarrow> fs_get fs' q = fs_get fs q" using remove_all_frame [of ?d _ "faults e" fs] ra by simp
  moreover have "r = Inr () \<longrightarrow> (\<forall>q. prefix ?d q \<and> q \<noteq> [] \<longrightarrow> fs_get fs' q = None)"
    using remove_all_gone ra by blast
  moreover note store_remove_inv [OF inv wf rm]
  ultimately show ?thesis using Inr rm by (simp add: EvictAdapter_def)
qed

lemma evict_adapter_effect_witness:
  "\<exists>r m' fs'. EvictAdapter example_env example_manager ''../x'' empty_disk = (r, m', fs') \<and> isl r \<and> fs' = empty_disk"
proof -
  have bad: "isl (ValidateAdapterID (BasePath (store example_manager)) ''../x'')"
    unfolding example_manager_ok(5) by code_simp
  then show ?thesis
    using evict_adapter_effect [OF example_manager_ok(1,2), of example_env "''../x''"] by auto
qed

section \<open>Revalidation\<close>

lemma revalidate_unchanged_run:
  assumes "first_head (origins m) aid = Some h"
    and "(if frETag h = [] then frRevision h else frETag h) = ContentID meta" and "ContentID meta \<noteq> []"
  shows "run_task e m (aid, meta) fs = (m\<lparr>revalidating := revalidating m - {aid}\<rparr>,
    snd (WriteMeta e (adapter_dir (BasePath (store m)) aid) (meta\<lparr>metaFetchedAt := now e\<rparr>) fs), [])"
  using assms by (simp add: run_task_def revalidateAdapter_def Let_def)


text \<open>A codec for one metadata value, the metadata of adapter \<open>a\<close> of the example origin.\<close>

definition example_meta :: AdapterMeta where
  "example_meta = \<lparr>metaOrigin = ''http'', metaETag = ''v1'', metaRevision = [], metaFetchedAt = 100, metaTTLSeconds = 60\<rparr>"

definition codec_env :: env where
  "codec_env = example_env\<lparr>encodeMeta := \<lambda>m. if m = example_meta then Inr ''M'' else Inl (Errorf []),
     decodeMeta := \<lambda>d. if d = ''M'' then Inr example_meta else Inl (Errorf [])\<rparr>"


section \<open>The cache over time\<close>

text \<open>
  The manager with its disk, the revalidations started and not yet run, and the metrics recorded.
  A step is one call of the cache's interface, or one pending revalidation run to its end, each in
  an environment (clock and faults) of its own.
\<close>

record cache_system =
  mgr :: Manager
  disk :: fs
  pending :: "task list"
  logged :: metrics

inductive cache_step :: "cache_system \<Rightarrow> cache_system \<Rightarrow> bool" where
  Ensure: "EnsureAdapter e (mgr c) aid (disk c) = (r, m', fs', ms, ts) \<Longrightarrow>
    cache_step c \<lparr>mgr = m', disk = fs', pending = pending c @ ts, logged = logged c @ ms\<rparr>"
| Evict: "EvictAdapter e (mgr c) aid (disk c) = (r, m', fs') \<Longrightarrow>
    cache_step c \<lparr>mgr = m', disk = fs', pending = pending c, logged = logged c\<rparr>"
| Revalidate: "pending c = ts1 @ t # ts2 \<Longrightarrow> run_task e (mgr c) t (disk c) = (m', fs', ms) \<Longrightarrow>
    cache_step c \<lparr>mgr = m', disk = fs', pending = ts1 @ ts2, logged = logged c @ ms\<rparr>"

inductive_cases cache_stepE: "cache_step c c'"

definition cache_inv :: "string \<Rightarrow> OriginFetcher list \<Rightarrow> fs \<Rightarrow> cache_system \<Rightarrow> bool" where
  "cache_inv base os fs0 c \<longleftrightarrow>
     store_inv (store (mgr c)) \<and> BasePath (store (mgr c)) = base \<and> origins (mgr c) = os
     \<and> stays_below (path_of base) fs0 (disk c)
     \<and> distinct (map fst (pending c)) \<and> fst ` set (pending c) = revalidating (mgr c)
     \<and> (\<forall>t \<in> set (pending c). ValidateAdapterID base (fst t) = Inr ())"

lemma ensure_tasks:
  assumes "EnsureAdapter e m aid fs = (r, m', fs', ms, ts)"
  shows "revalidating m' = revalidating m \<union> fst ` set ts
    \<and> (ts = [] \<or> (\<exists>meta. ts = [(aid, meta)] \<and> aid \<notin> revalidating m
        \<and> ValidateAdapterID (BasePath (store m)) aid = Inr ()))"
  using assms
  by (cases rule: ensure_cases) (auto simp: maybeRevalidate_def split: if_splits sum.splits)

lemma evict_stays:
  assumes inv: "store_inv (store m)" and run: "EvictAdapter e m aid fs = (r, m', fs')"
  shows "stays_below (path_of (BasePath (store m))) fs fs' \<and> store_inv (store m') \<and> BasePath (store m') = BasePath (store m)
    \<and> origins m' = origins m \<and> revalidating m' = revalidating m"
proof (cases "ValidateAdapterID (BasePath (store m)) aid")
  case (Inl err)
  then show ?thesis using run inv by (simp add: EvictAdapter_def)
next
  case (Inr u)
  let ?d = "adapter_dir (BasePath (store m)) aid"
  have fs': "fs' = snd (remove_all (faults e) ?d fs)" and m': "store m' = (store m)\<lparr>lru := fst (lru_remove (lru (store m)) aid)\<rparr>"
    and rest: "origins m' = origins m" "revalidating m' = revalidating m"
    using run Inr by (auto simp: EvictAdapter_def store_remove_def Let_def split: prod.splits)
  have "prefix (path_of (BasePath (store m))) ?d" using inv Inr by (auto simp: store_inv_def intro: valid_id_inside)
  then have "stays_below (path_of (BasePath (store m))) fs fs'" unfolding fs' by (rule below_remove_all)
  moreover have "store_inv (store m')"
    using inv store_tracked_remove [of "store m" aid] by (auto simp: m' store_inv_def lru_remove_inv)
  ultimately show ?thesis using rest by (simp add: m')
qed

lemma revalidate_cases:
  assumes "revalidateAdapter e m (aid, meta) fs = (m1, fs', ms)"
  obtains (none) "m1 = m" "fs' = fs"
    | (same) mt where "m1 = m" "fs' = snd (WriteMeta e (adapter_dir (BasePath (store m)) aid) mt fs)"
    | (refetch) r1 s1 fs1 r2 s2 where "store_remove e aid (store m) fs = (r1, s1, fs1)"
        "fetchFromOrigin e (m\<lparr>store := s1\<rparr>) aid fs1 = (r2, s2, fs', ms)" "m1 = m\<lparr>store := s2\<rparr>"
proof (cases "first_head (origins m) aid")
  case None
  then show thesis using assms by (intro none) (simp_all add: revalidateAdapter_def)
next
  case (Some h)
  let ?new = "if frETag h = [] then frRevision h else frETag h"
  show thesis
  proof (cases "?new \<noteq> [] \<and> ContentID meta \<noteq> [] \<and> ?new = ContentID meta")
    case True
    then show thesis using assms Some by (intro same [of "meta\<lparr>metaFetchedAt := now e\<rparr>"]) (auto simp: revalidateAdapter_def Let_def)
  next
    case False
    obtain r1 s1 fs1 where rm: "store_remove e aid (store m) fs = (r1, s1, fs1)" by (metis prod.collapse)
    obtain r2 s2 fs2 ms2 where ff: "fetchFromOrigin e (m\<lparr>store := s1\<rparr>) aid fs1 = (r2, s2, fs2, ms2)" by (metis prod.collapse)
    have "revalidateAdapter e m (aid, meta) fs = (m\<lparr>store := s2\<rparr>, fs2, ms2)"
      unfolding revalidateAdapter_def Let_def prod.case Some option.case if_not_P [OF False] rm ff ..
    then show thesis using assms rm ff by (intro refetch) simp_all
  qed
qed

lemma task_stays:
  assumes inv: "store_inv (store m)" and b: "b = path_of (BasePath (store m))" "b \<noteq> []"
    and os: "origins_ok (origins m)" and v: "ValidateAdapterID (BasePath (store m)) (fst t) = Inr ()"
    and run: "run_task e m t fs = (m', fs', ms)"
  shows "stays_below b fs fs' \<and> store_inv (store m') \<and> BasePath (store m') = BasePath (store m)
    \<and> origins m' = origins m \<and> revalidating m' = revalidating m - {fst t}"
proof -
  obtain aid meta where t: "t = (aid, meta)" by fastforce
  let ?d = "adapter_dir (BasePath (store m)) aid"
  have d: "prefix b ?d" using inv v t b(1) by (auto simp: store_inv_def intro: valid_id_inside)
  obtain m1 where rv: "revalidateAdapter e m t fs = (m1, fs', ms)" and m': "m' = m1\<lparr>revalidating := revalidating m1 - {aid}\<rparr>"
    using run by (auto simp: run_task_def t split: prod.splits)
  from rv [unfolded t] show ?thesis
  proof (cases rule: revalidate_cases)
    case none
    then show ?thesis using inv by (simp add: m' t)
  next
    case same
    then show ?thesis using inv below_write_meta [OF d] by (simp add: m' t)
  next
    case (refetch r1 s1 fs1 r2 s2)
    have ev: "EvictAdapter e m aid fs = (r1, m\<lparr>store := s1\<rparr>, fs1)" using refetch(1) v t by (simp add: EvictAdapter_def)
    note e1 = evict_stays [OF inv ev]
    have "stays_below b fs1 fs' \<and> store_inv s2 \<and> BasePath s2 = BasePath (store m)"
      using below_fetch [of "m\<lparr>store := s1\<rparr>" b aid e fs1 r2 s2 fs' ms] e1 b os v t refetch(2) by simp
    then show ?thesis using e1 below_trans [OF b(2)] b(1) refetch(3) by (auto simp: m' t)
  qed
qed

lemma cache_step_inv:
  assumes ne: "path_of base \<noteq> []" and os: "origins_ok os"
    and inv: "cache_inv base os fs0 c" and step: "cache_step c c'"
  shows "cache_inv base os fs0 c'"
proof -
  let ?b = "path_of base"
  note iv = inv [unfolded cache_inv_def]
  have si: "store_inv (store (mgr c))" and bp: "BasePath (store (mgr c)) = base" and og: "origins (mgr c) = os"
    and below: "stays_below ?b fs0 (disk c)" and dist: "distinct (map fst (pending c))"
    and rev: "fst ` set (pending c) = revalidating (mgr c)"
    and val: "\<forall>t \<in> set (pending c). ValidateAdapterID base (fst t) = Inr ()"
    using iv by auto
  have b: "?b = path_of (BasePath (store (mgr c)))" by (simp add: bp)
  have og': "origins_ok (origins (mgr c))" by (simp add: og os)
  from step show ?thesis
  proof (cases rule: cache_step.cases)
    case (Ensure e aid r m' fs' ms ts)
    note st = ensure_stays [OF si b ne og' Ensure(2)] and tk = ensure_tasks [OF Ensure(2)]
    have "stays_below ?b fs0 fs'" using below_trans [OF ne below] st by blast
    moreover have "distinct (map fst (pending c @ ts)) \<and> fst ` set (pending c @ ts) = revalidating m'"
      using tk dist rev by auto
    moreover have "\<forall>t \<in> set (pending c @ ts). ValidateAdapterID base (fst t) = Inr ()" using tk val bp by auto
    ultimately show ?thesis using st bp og by (simp add: cache_inv_def Ensure(1))
  next
    case (Evict e aid r m' fs')
    note st = evict_stays [OF si Evict(2), folded b]
    have "stays_below ?b fs0 fs'" using below_trans [OF ne below] st by blast
    then show ?thesis using st bp og dist rev val by (simp add: cache_inv_def Evict(1))
  next
    case (Revalidate ts1 t ts2 e m' fs' ms)
    have v: "ValidateAdapterID (BasePath (store (mgr c))) (fst t) = Inr ()" using val bp Revalidate(2) by simp
    note st = task_stays [OF si b ne og' v Revalidate(3)]
    have "stays_below ?b fs0 fs'" using below_trans [OF ne below] st by blast
    moreover have "distinct (map fst (ts1 @ ts2)) \<and> fst ` set (ts1 @ ts2) = revalidating m'"
    proof -
      have "fst t \<notin> fst ` set (ts1 @ ts2)" using dist by (auto simp: Revalidate(2))
      moreover have "fst ` set (pending c) = insert (fst t) (fst ` set (ts1 @ ts2))" by (auto simp: Revalidate(2))
      ultimately have "fst ` set (ts1 @ ts2) = fst ` set (pending c) - {fst t}" by (metis Diff_insert_absorb)
      then have "fst ` set (ts1 @ ts2) = revalidating m'" using st rev by metis
      moreover have "distinct (map fst (ts1 @ ts2))" using dist by (auto simp: Revalidate(2))
      ultimately show ?thesis by metis
    qed
    moreover have "\<forall>t \<in> set (ts1 @ ts2). ValidateAdapterID base (fst t) = Inr ()" using val Revalidate(2) by auto
    ultimately show ?thesis using st bp og by (simp add: cache_inv_def Revalidate(1))
  qed
qed



end
