(* ===== verification/Ring.thy ===== *)
theory Ring
  imports Complex_Main GoSort
begin

text \<open>
  \<open>internal/routing/ring.go\<close>: the consistent-hash ring.  Every peer owns \<open>vnodesPerPeer\<close> points on
  the circle of 32-bit hashes, and a key belongs to the peer of the first point at or after the
  key's hash.  The hash (the first four bytes of SHA-256) is a parameter, and so is \<open>sort.Slice\<close>
  (any ordered permutation).  A load is a rational number: rounding is not modelled.
  The lemmas describe the lookups by clockwise distance; the properties are those one uses
  consistent hashing for: the owner does not depend on the order of the peer list, a peer that
  joins or leaves moves only its own keys, and the fallback is the owner after the peer is gone.
\<close>

section \<open>State\<close>

type_synonym float64 = rat

record Peer =
  Addr :: string
  Load :: float64

datatype vnode = VNode (vhash: uint32) (vpeer: string)

text \<open>
  The map of peers is an association list, whose order (Go's iteration order) is not meaningful.
\<close>

record Ring =
  vnodes :: "vnode list"
  peers :: "(string \<times> Peer) list"
  vnodesPerPeer :: int64
  self :: string

definition NewRing :: "int64 \<Rightarrow> string \<Rightarrow> Ring" where
  "NewRing n addr = \<lparr>vnodes = [], peers = [], vnodesPerPeer = n, self = addr\<rparr>"

definition put :: "'k \<Rightarrow> 'v \<Rightarrow> ('k \<times> 'v) list \<Rightarrow> ('k \<times> 'v) list" where
  "put k v m = (k, v) # filter (\<lambda>p. fst p \<noteq> k) m"

section \<open>Hashes\<close>

text \<open>\<open>binary.BigEndian.PutUint32\<close>.\<close>

definition put_uint32 :: "uint32 \<Rightarrow> string" where
  "put_uint32 w = map (\<lambda>k. char_of (unat (drop_bit k w) mod 256)) [24, 16, 8, 0]"

definition hashKey :: "(string \<Rightarrow> uint32) \<Rightarrow> string \<Rightarrow> nat \<Rightarrow> uint32" where
  "hashKey sha addr idx = sha (addr @ put_uint32 (of_nat idx))"

definition hashString :: "(string \<Rightarrow> uint32) \<Rightarrow> string \<Rightarrow> uint32" where
  "hashString sha s = sha s"

section \<open>Operations\<close>

definition peer_vnodes :: "(string \<Rightarrow> uint32) \<Rightarrow> int64 \<Rightarrow> string \<Rightarrow> vnode list" where
  "peer_vnodes sha n addr = map (\<lambda>i. VNode (hashKey sha addr i) addr) [0..<nat (sint n)]"

text \<open>\<open>Update\<close>; \<open>None\<close> is the panic of \<open>make\<close> for a negative capacity.\<close>

definition ring_update ::
    "(vnode list \<Rightarrow> vnode list) \<Rightarrow> (string \<Rightarrow> uint32) \<Rightarrow> string list \<Rightarrow> Ring \<Rightarrow> Ring option" where
  "ring_update srt sha addrs r =
     (if of_nat (length addrs) * vnodesPerPeer r <s 0 then None
      else Some (r\<lparr>peers := foldl (\<lambda>m a. put a \<lparr>Addr = a, Load = 0\<rparr> m) [] addrs,
                   vnodes := srt (concat (map (peer_vnodes sha (vnodesPerPeer r)) addrs))\<rparr>))"

definition Owner :: "(string \<Rightarrow> uint32) \<Rightarrow> string \<Rightarrow> Ring \<Rightarrow> Peer option" where
  "Owner sha key r =
     (if vnodes r = [] then None
      else
        let h = hashString sha key;
            idx = sort_Search (length (vnodes r)) (\<lambda>i. h \<le> vhash (vnodes r ! i));
            idx = (if idx = length (vnodes r) then 0 else idx)
        in map_of (peers r) (vpeer (vnodes r ! idx)))"

text \<open>The loop of \<open>Fallback\<close> from \<open>seen\<close> on: the index of the vnode it stops at.\<close>

function fallback_loop :: "vnode list \<Rightarrow> nat \<Rightarrow> string \<Rightarrow> nat \<Rightarrow> nat option" where
  "fallback_loop vs idx skip seen =
     (if seen < length vs then
        (let i = (idx + seen) mod length vs
         in if vpeer (vs ! i) \<noteq> skip then Some i else fallback_loop vs idx skip (seen + 1))
      else None)"
  by pat_completeness auto
termination
  by (relation "measure (\<lambda>(vs, idx, skip, seen). length vs - seen)") auto

declare fallback_loop.simps [simp del]

definition Fallback :: "(string \<Rightarrow> uint32) \<Rightarrow> string \<Rightarrow> string \<Rightarrow> Ring \<Rightarrow> Peer option" where
  "Fallback sha key skip r =
     (if vnodes r = [] then None
      else
        let h = hashString sha key;
            idx = sort_Search (length (vnodes r)) (\<lambda>i. h \<le> vhash (vnodes r ! i))
        in case fallback_loop (vnodes r) idx skip 0 of
             None \<Rightarrow> None
           | Some i \<Rightarrow> map_of (peers r) (vpeer (vnodes r ! i)))"

definition IsSelf :: "Peer option \<Rightarrow> Ring \<Rightarrow> bool" where
  "IsSelf p r = (case p of None \<Rightarrow> True | Some q \<Rightarrow> Addr q = self r)"

definition Self :: "Ring \<Rightarrow> string" where
  "Self r = self r"

definition PeerCount :: "Ring \<Rightarrow> nat" where
  "PeerCount r = length (peers r)"

definition Peers :: "Ring \<Rightarrow> Peer list" where
  "Peers r = map snd (peers r)"

definition UpdatePeerLoad :: "string \<Rightarrow> float64 \<Rightarrow> Ring \<Rightarrow> Ring" where
  "UpdatePeerLoad addr load r =
     (case map_of (peers r) addr of
        None \<Rightarrow> r
      | Some p \<Rightarrow> r\<lparr>peers := put addr (p\<lparr>Load := load\<rparr>) (peers r)\<rparr>)"

section \<open>Clockwise order\<close>

text \<open>The way from a hash to a vnode, clockwise on the circle of 2^32 points.\<close>

definition clock_dist :: "uint32 \<Rightarrow> vnode \<Rightarrow> nat" where
  "clock_dist h v = unat (vhash v - h)"

definition clockwise :: "uint32 \<Rightarrow> vnode list \<Rightarrow> vnode list" where
  "clockwise h vs = filter (\<lambda>v. h \<le> vhash v) vs @ filter (\<lambda>v. \<not> h \<le> vhash v) vs"

lemma clock_dist_if:
  "clock_dist h v = (if h \<le> vhash v then unat (vhash v) - unat h else 2 ^ 32 + unat (vhash v) - unat h)"
  by (auto simp: clock_dist_def unat_sub_if' word_le_nat_alt)

lemma clock_dist_inj: "clock_dist h v = clock_dist h w \<Longrightarrow> vhash v = vhash w"
  unfolding clock_dist_def word_unat_eq_iff [symmetric] by simp

lemma set_clockwise [simp]: "set (clockwise h vs) = set vs"
  by (auto simp: clockwise_def)

lemma length_clockwise [simp]: "length (clockwise h vs) = length vs"
  by (simp add: clockwise_def sum_length_filter_compl)

lemma sorted_clockwise:
  assumes "sorted (map vhash vs)"
  shows "sorted (map (clock_dist h) (clockwise h vs))"
proof -
  have part: "sorted (map (clock_dist h) (filter P vs))"
    if "\<forall>v w. P v \<longrightarrow> P w \<longrightarrow> vhash v \<le> vhash w \<longrightarrow> clock_dist h v \<le> clock_dist h w" for P
    using assms that by (induction vs) auto
  have 1: "sorted (map (clock_dist h) (filter (\<lambda>v. h \<le> vhash v) vs))"
    by (rule part) (auto simp: clock_dist_if word_le_nat_alt)
  have 2: "sorted (map (clock_dist h) (filter (\<lambda>v. \<not> h \<le> vhash v) vs))"
    by (rule part) (auto simp: clock_dist_if word_le_nat_alt)
  have "clock_dist h v \<le> clock_dist h w" if "h \<le> vhash v" "\<not> h \<le> vhash w" for v w
  proof -
    have "unat (vhash v) < 2 ^ LENGTH(32)" by (rule unsigned_less)
    then show ?thesis using that by (simp add: clock_dist_if word_le_nat_alt)
  qed
  then show ?thesis using 1 2 by (auto simp: clockwise_def sorted_append)
qed

text \<open>In an ordered list the vnodes in clockwise order are a rotation.\<close>

lemma clockwise_rotation:
  fixes h :: uint32 and vs :: "vnode list"
  assumes "sorted (map vhash vs)"
  defines "m \<equiv> sort_Search (length vs) (\<lambda>i. h \<le> vhash (vs ! i))"
  shows "clockwise h vs = drop m vs @ take m vs" and "m \<le> length vs"
proof -
  have "mono_test (length vs) (\<lambda>i. h \<le> vhash (vs ! i))"
    unfolding mono_test_def
  proof (intro allI impI)
    fix a b assume "a < length vs" "b < length vs" "a \<le> b" "h \<le> vhash (vs ! a)"
    moreover have "vhash (vs ! a) \<le> vhash (vs ! b)"
      using sorted_nth_mono [OF assms(1) \<open>a \<le> b\<close>] \<open>b < length vs\<close> \<open>a < length vs\<close> by simp
    ultimately show "h \<le> vhash (vs ! b)" by order
  qed
  then have "splits_at (length vs) (\<lambda>i. h \<le> vhash (vs ! i)) m" unfolding m_def by (rule sort_Search_spec)
  then have m: "m \<le> length vs" "\<forall>k < m. \<not> h \<le> vhash (vs ! k)" "\<forall>k < length vs. m \<le> k \<longrightarrow> h \<le> vhash (vs ! k)"
    by (simp_all add: splits_at_def)
  show "m \<le> length vs" by (fact m(1))
  have take: "\<forall>v \<in> set (take m vs). \<not> h \<le> vhash v" using m by (auto simp: in_set_conv_nth)
  have drop: "\<forall>v \<in> set (drop m vs). h \<le> vhash v" using m(1,3) by (auto simp: in_set_conv_nth)
  have "filter P vs = filter P (take m vs) @ filter P (drop m vs)" for P
    by (metis append_take_drop_id filter_append)
  then show "clockwise h vs = drop m vs @ take m vs"
    using take drop by (simp add: clockwise_def filter_id_conv filter_empty_conv)
qed

section \<open>Lookups by clockwise distance\<close>

text \<open>The first vnode with a property, in clockwise order, is a nearest one.\<close>

lemma find_sorted_least:
  fixes f :: "'a \<Rightarrow> nat"
  assumes "sorted (map f xs)" and "find P xs = Some v"
  shows "v \<in> set xs \<and> P v \<and> (\<forall>w \<in> set xs. P w \<longrightarrow> f v \<le> f w)"
  using assms by (induction xs) (auto split: if_splits)

definition nearest :: "uint32 \<Rightarrow> (vnode \<Rightarrow> bool) \<Rightarrow> vnode list \<Rightarrow> vnode option" where
  "nearest h P vs = find P (clockwise h vs)"

lemma nearest_Some:
  assumes "sorted (map vhash vs)" and "nearest h P vs = Some v"
  shows "v \<in> set vs" and "P v" and "\<forall>w \<in> set vs. P w \<longrightarrow> clock_dist h v \<le> clock_dist h w"
  using find_sorted_least [OF sorted_clockwise [OF assms(1)], of P h v] assms(2) by (simp_all add: nearest_def)

lemma nearest_None: "nearest h P vs = None \<longleftrightarrow> (\<forall>v \<in> set vs. \<not> P v)"
  by (auto simp: nearest_def find_None_iff)

lemma find_nth:
  assumes "\<And>i. i < length xs \<Longrightarrow> xs ! i = ys (i :: nat)"
  shows "find P xs = (case find (\<lambda>i. P (ys i)) [0..<length xs] of None \<Rightarrow> None | Some i \<Rightarrow> Some (ys i))"
proof -
  have "xs = map ys [0..<length xs]" using assms by (intro nth_equalityI) simp_all
  moreover have "find P (map ys is) = (case find (\<lambda>i. P (ys i)) is of None \<Rightarrow> None | Some i \<Rightarrow> Some (ys i))" for "is"
    by (induction "is") auto
  ultimately show ?thesis by metis
qed

lemma fallback_loop_find:
  assumes "seen \<le> length vs"
  shows "fallback_loop vs idx skip seen
    = map_option (\<lambda>k. (idx + k) mod length vs) (find (\<lambda>k. vpeer (vs ! ((idx + k) mod length vs)) \<noteq> skip) [seen..<length vs])"
  using assms
proof (induction vs idx skip seen rule: fallback_loop.induct)
  case (1 vs idx skip seen)
  show ?case
  proof (cases "seen < length vs")
    case True
    then show ?thesis
      using "1.IH" [OF True refl] by (simp add: fallback_loop.simps [of vs idx skip seen] upt_conv_Cons Let_def)
  next
    case False
    then show ?thesis by (simp add: fallback_loop.simps [of vs idx skip seen])
  qed
qed

lemma rotation_nth:
  assumes "m \<le> length vs" and "k < length vs"
  shows "(drop m vs @ take m vs) ! k = vs ! ((m + k) mod length vs)"
proof (cases "k < length vs - m")
  case True
  then show ?thesis using assms by (simp add: nth_append)
next
  case False
  have "(m + k) mod length vs = m + k - length vs"
    using assms False by (simp add: le_mod_geq)
  moreover have "k - (length vs - m) = m + k - length vs" using assms(1) by simp
  moreover have "m + k - length vs < m" using assms False by linarith
  ultimately show ?thesis using False by (simp add: nth_append)
qed

lemma Fallback_nearest:
  assumes "sorted (map vhash (vnodes r))"
  shows "Fallback sha key skip r =
    (case nearest (hashString sha key) (\<lambda>v. vpeer v \<noteq> skip) (vnodes r) of
       None \<Rightarrow> None | Some v \<Rightarrow> map_of (peers r) (vpeer v))"
proof (cases "vnodes r = []")
  case True
  then show ?thesis by (simp add: Fallback_def nearest_def clockwise_def)
next
  case False
  let ?h = "hashString sha key" and ?vs = "vnodes r"
  let ?m = "sort_Search (length ?vs) (\<lambda>i. ?h \<le> vhash (?vs ! i))"
  note rot = clockwise_rotation [OF assms, of ?h]
  have "nearest ?h (\<lambda>v. vpeer v \<noteq> skip) ?vs
      = (case find (\<lambda>i. vpeer (?vs ! ((?m + i) mod length ?vs)) \<noteq> skip) [0..<length ?vs] of
           None \<Rightarrow> None | Some i \<Rightarrow> Some (?vs ! ((?m + i) mod length ?vs)))"
  proof -
    have "clockwise ?h ?vs ! i = ?vs ! ((?m + i) mod length ?vs)" if "i < length (clockwise ?h ?vs)" for i
      using rotation_nth [OF rot(2), of i] that unfolding length_clockwise by (simp only: rot(1))
    from find_nth [OF this] show ?thesis unfolding nearest_def length_clockwise .
  qed
  then show ?thesis using False
    by (simp add: Fallback_def Let_def fallback_loop_find split: option.split)
qed

lemma Owner_nearest:
  assumes "sorted (map vhash (vnodes r))"
  shows "Owner sha key r =
    (case nearest (hashString sha key) (\<lambda>v. True) (vnodes r) of
       None \<Rightarrow> None | Some v \<Rightarrow> map_of (peers r) (vpeer v))"
proof (cases "vnodes r = []")
  case True
  then show ?thesis by (simp add: Owner_def nearest_def clockwise_def)
next
  case False
  let ?h = "hashString sha key" and ?vs = "vnodes r"
  let ?m = "sort_Search (length ?vs) (\<lambda>i. ?h \<le> vhash (?vs ! i))"
  note rot = clockwise_rotation [OF assms, of ?h]
  have "nearest ?h (\<lambda>v. True) ?vs = Some (?vs ! (?m mod length ?vs))"
  proof -
    have "clockwise ?h ?vs \<noteq> []" using False by (metis length_clockwise length_0_conv)
    then have "nearest ?h (\<lambda>v. True) ?vs = Some (clockwise ?h ?vs ! 0)"
      by (cases "clockwise ?h ?vs") (simp_all add: nearest_def)
    then show ?thesis using rotation_nth [OF rot(2), of 0] False by (simp add: rot(1))
  qed
  moreover have "?m mod length ?vs = (if ?m = length ?vs then 0 else ?m)" using rot(2) by simp
  ultimately show ?thesis using False by (simp add: Owner_def Let_def)
qed

section \<open>A ring after Update\<close>

lemma map_of_put [simp]: "map_of (put k v m) k' = (if k' = k then Some v else map_of m k')"
  by (auto simp: put_def map_of_filter_fst [of "\<lambda>x. x \<noteq> k" m])

definition ring_inv :: "Ring \<Rightarrow> bool" where
  "ring_inv r \<longleftrightarrow> sorted (map vhash (vnodes r))
     \<and> (\<forall>v \<in> set (vnodes r). \<exists>p. map_of (peers r) (vpeer v) = Some p \<and> Addr p = vpeer v)
     \<and> (\<forall>a p. map_of (peers r) a = Some p \<longrightarrow> Addr p = a)"

text \<open>The vnodes of a set of peers.\<close>

definition vnodes_of :: "(string \<Rightarrow> uint32) \<Rightarrow> int64 \<Rightarrow> string set \<Rightarrow> vnode set" where
  "vnodes_of sha n as = (\<Union>a \<in> as. (\<lambda>i. VNode (hashKey sha a i) a) ` {..<nat (sint n)})"

definition collision_free :: "(string \<Rightarrow> uint32) \<Rightarrow> int64 \<Rightarrow> string set \<Rightarrow> bool" where
  "collision_free sha n as \<longleftrightarrow> (\<forall>v \<in> vnodes_of sha n as. \<forall>w \<in> vnodes_of sha n as. vhash v = vhash w \<longrightarrow> v = w)"

lemma vpeer_vnodes_of: "v \<in> vnodes_of sha n as \<Longrightarrow> vpeer v \<in> as"
  by (auto simp: vnodes_of_def)

lemma vnodes_of_restrict: "{v \<in> vnodes_of sha n as. vpeer v \<in> bs} = vnodes_of sha n (as \<inter> bs)"
  by (auto simp: vnodes_of_def)

lemma vnodes_of_mono: "as \<subseteq> bs \<Longrightarrow> vnodes_of sha n as \<subseteq> vnodes_of sha n bs"
  by (auto simp: vnodes_of_def)

lemma peers_fold:
  "map_of (foldl (\<lambda>m a. put a \<lparr>Addr = a, Load = 0\<rparr> m) m0 addrs) a =
    (if a \<in> set addrs then Some \<lparr>Addr = a, Load = 0\<rparr> else map_of m0 a)"
  by (induction addrs arbitrary: m0) auto

lemma ring_update_props:
  assumes srt: "slice_sorter vhash srt" and run: "ring_update srt sha addrs r = Some r'"
  shows "ring_inv r'" and "set (vnodes r') = vnodes_of sha (vnodesPerPeer r) (set addrs)"
    and "map_of (peers r') a = (if a \<in> set addrs then Some \<lparr>Addr = a, Load = 0\<rparr> else None)"
    and "vnodesPerPeer r' = vnodesPerPeer r" and "self r' = self r"
proof -
  let ?vs = "concat (map (peer_vnodes sha (vnodesPerPeer r)) addrs)"
  have r': "r' = r\<lparr>peers := foldl (\<lambda>m a. put a \<lparr>Addr = a, Load = 0\<rparr> m) [] addrs, vnodes := srt ?vs\<rparr>"
    using run by (auto simp: ring_update_def split: if_splits)
  have "set (srt ?vs) = set ?vs" by (rule slice_sorter.srt_set [OF srt])
  then show vs: "set (vnodes r') = vnodes_of sha (vnodesPerPeer r) (set addrs)"
    by (auto simp: r' vnodes_of_def peer_vnodes_def)
  show ps: "map_of (peers r') a = (if a \<in> set addrs then Some \<lparr>Addr = a, Load = 0\<rparr> else None)" for a
    by (simp add: r' peers_fold)
  have "sorted (map vhash (vnodes r'))" using slice_sorter.srt_sorted [OF srt, of ?vs] by (simp add: r')
  then show "ring_inv r'"
    using vs ps vpeer_vnodes_of [of _ sha "vnodesPerPeer r" "set addrs"] by (auto simp: ring_inv_def split: if_splits)
  show "vnodesPerPeer r' = vnodesPerPeer r" "self r' = self r" by (simp_all add: r')
qed

section \<open>Nearest vnodes of sets\<close>

text \<open>Without collisions the nearest vnode depends on the set of candidates only.\<close>

lemma nearest_unique:
  assumes s1: "sorted (map vhash vs1)" and s2: "sorted (map vhash vs2)"
    and sub: "{v \<in> set vs1. P v} \<subseteq> {v \<in> set vs2. Q v}"
    and free: "\<forall>v \<in> set vs2. \<forall>w \<in> set vs2. vhash v = vhash w \<longrightarrow> v = w"
    and near: "nearest h Q vs2 = Some v" and mem: "v \<in> set vs1" "P v"
  shows "nearest h P vs1 = Some v"
proof (cases "nearest h P vs1")
  case None
  then show ?thesis using mem by (simp add: nearest_None)
next
  case (Some w)
  note n1 = nearest_Some [OF s1 Some] and n2 = nearest_Some [OF s2 near]
  have w: "w \<in> set vs2" "Q w" using n1(1,2) sub by auto
  have "clock_dist h w \<le> clock_dist h v" "clock_dist h v \<le> clock_dist h w" using n1(3) n2(3) mem w by auto
  then have "vhash v = vhash w" by (intro clock_dist_inj [of h]) simp
  then have "v = w" using free n2(1) w(1) by blast
  then show ?thesis using Some by simp
qed

lemma nearest_cong:
  assumes s1: "sorted (map vhash vs1)" and s2: "sorted (map vhash vs2)"
    and same: "{v \<in> set vs1. P v} = {v \<in> set vs2. Q v}"
    and free: "\<forall>v \<in> set vs2. \<forall>w \<in> set vs2. vhash v = vhash w \<longrightarrow> v = w"
  shows "nearest h P vs1 = nearest h Q vs2"
proof (cases "nearest h Q vs2")
  case None
  then have "nearest h P vs1 = None" using same unfolding nearest_None by blast
  with None show ?thesis by simp
next
  case (Some v)
  then have "v \<in> set vs1" "P v" using nearest_Some(1,2) [OF s2 Some] same by auto
  then show ?thesis using nearest_unique [OF s1 s2 _ free Some] same Some by simp
qed

text \<open>What a lookup returns, as an address.\<close>

lemma Owner_addr:
  assumes "ring_inv r"
  shows "map_option Addr (Owner sha key r) = map_option vpeer (nearest (hashString sha key) (\<lambda>v. True) (vnodes r))"
proof -
  have s: "sorted (map vhash (vnodes r))" using assms by (simp add: ring_inv_def)
  show ?thesis
    using assms nearest_Some(1) [OF s, of "hashString sha key" "\<lambda>v. True"]
    by (auto simp: Owner_nearest [OF s] ring_inv_def split: option.split)
qed

lemma Fallback_addr:
  assumes "ring_inv r"
  shows "map_option Addr (Fallback sha key skip r)
    = map_option vpeer (nearest (hashString sha key) (\<lambda>v. vpeer v \<noteq> skip) (vnodes r))"
proof -
  have s: "sorted (map vhash (vnodes r))" using assms by (simp add: ring_inv_def)
  show ?thesis
    using assms nearest_Some(1) [OF s, of "hashString sha key" "\<lambda>v. vpeer v \<noteq> skip"]
    by (auto simp: Fallback_nearest [OF s] ring_inv_def split: option.split)
qed

section \<open>An instance\<close>

definition example_sha :: "string \<Rightarrow> uint32" where
  "example_sha s = (if length s < 2 then 198 else of_nat (4 * of_char (s ! 1) + of_char (last s)))"

definition example_ring :: "string list \<Rightarrow> Ring" where
  "example_ring addrs = the (ring_update (sort_key vhash) example_sha addrs (NewRing 2 ''p1''))"

lemma example_vnodes:
  "peer_vnodes example_sha 2 ''p1'' = [VNode 196 ''p1'', VNode 197 ''p1'']"
  "peer_vnodes example_sha 2 ''p2'' = [VNode 200 ''p2'', VNode 201 ''p2'']"
proof -
  have "put_uint32 0 = [char_of (0 :: nat), char_of (0 :: nat), char_of (0 :: nat), char_of (0 :: nat)]"
    "put_uint32 1 = [char_of (0 :: nat), char_of (0 :: nat), char_of (0 :: nat), char_of (1 :: nat)]"
    by (simp_all add: put_uint32_def)
  then show "peer_vnodes example_sha 2 ''p1'' = [VNode 196 ''p1'', VNode 197 ''p1'']"
    "peer_vnodes example_sha 2 ''p2'' = [VNode 200 ''p2'', VNode 201 ''p2'']"
    by (simp_all add: peer_vnodes_def hashKey_def example_sha_def upt_conv_Cons numeral_2_eq_2)
qed

lemma example_ring_run:
  "ring_update (sort_key vhash) example_sha addrs (NewRing 2 ''p1'') = Some (example_ring addrs)"
  if "addrs = [''p1'', ''p2''] \<or> addrs = [''p2'', ''p1'', ''p2''] \<or> addrs = [''p2'']"
proof -
  have "ring_update (sort_key vhash) example_sha addrs (NewRing 2 ''p1'') \<noteq> None"
    using that by (auto simp: ring_update_def NewRing_def sless_sint)
  then show ?thesis by (simp add: example_ring_def)
qed

lemma example_collision_free: "collision_free example_sha 2 {''p1'', ''p2''}"
proof -
  have "vnodes_of example_sha 2 {''p1'', ''p2''}
      = set (peer_vnodes example_sha 2 ''p1'') \<union> set (peer_vnodes example_sha 2 ''p2'')"
    by (auto simp: vnodes_of_def peer_vnodes_def)
  then show ?thesis unfolding collision_free_def example_vnodes by auto
qed

lemma example_ring_value:
  "example_ring [''p1'', ''p2''] =
    \<lparr>vnodes = [VNode 196 ''p1'', VNode 197 ''p1'', VNode 200 ''p2'', VNode 201 ''p2''],
     peers = [(''p2'', \<lparr>Addr = ''p2'', Load = 0\<rparr>), (''p1'', \<lparr>Addr = ''p1'', Load = 0\<rparr>)],
     vnodesPerPeer = 2, self = ''p1''\<rparr>"
  by (simp add: example_ring_def ring_update_def NewRing_def example_vnodes put_def sless_sint)

section \<open>Properties\<close>

text \<open>C28: After Update with at least one peer and one vnode per peer, every key has an owner: a peer of
  the list, reached first when one walks the circle clockwise from the key's hash (ties between
  vnodes with equal hashes go to either), whatever order \<open>sort.Slice\<close> leaves equal hashes in.\<close>

theorem owner_is_clockwise_first:
  assumes srt: "slice_sorter vhash srt" and run: "ring_update srt sha addrs r = Some r'"
    and ne: "addrs \<noteq> []" "0 <s vnodesPerPeer r"
  shows "\<exists>v \<in> vnodes_of sha (vnodesPerPeer r) (set addrs).
      Owner sha key r' = Some \<lparr>Addr = vpeer v, Load = 0\<rparr> \<and> vpeer v \<in> set addrs
    \<and> (\<forall>w \<in> vnodes_of sha (vnodesPerPeer r) (set addrs).
        clock_dist (hashString sha key) v \<le> clock_dist (hashString sha key) w)"
proof -
  note up = ring_update_props [OF srt run]
  have s: "sorted (map vhash (vnodes r'))" using up(1) by (simp add: ring_inv_def)
  obtain a where "a \<in> set addrs" using ne(1) by (cases addrs) auto
  then have "VNode (hashKey sha a 0) a \<in> set (vnodes r')" using ne(2) by (force simp: up(2) vnodes_of_def sless_sint)
  then obtain v where v: "nearest (hashString sha key) (\<lambda>v. True) (vnodes r') = Some v"
    using nearest_None [of "hashString sha key" "\<lambda>v. True" "vnodes r'"] by fastforce
  note nv = nearest_Some [OF s v]
  have mem: "v \<in> vnodes_of sha (vnodesPerPeer r) (set addrs)" using nv(1) up(2) by simp
  then have "Owner sha key r' = Some \<lparr>Addr = vpeer v, Load = 0\<rparr>"
    using vpeer_vnodes_of [OF mem] by (simp add: Owner_nearest [OF s] v up(3))
  then show ?thesis using mem nv(3) vpeer_vnodes_of [OF mem] up(2) by auto
qed

lemma owner_is_clockwise_first_witness:
  "\<exists>p. Owner example_sha ''key'' (example_ring [''p1'', ''p2'']) = Some p \<and> Addr p \<in> {''p1'', ''p2''}"
proof -
  have pos: "0 <s vnodesPerPeer (NewRing 2 ''p1'')" by (simp add: NewRing_def sless_sint)
  have run: "ring_update (sort_key vhash) example_sha [''p1'', ''p2''] (NewRing 2 ''p1'') = Some (example_ring [''p1'', ''p2''])"
    by (rule example_ring_run) simp
  from owner_is_clockwise_first [OF stable_sorter.slice_sorter_axioms run _ pos, of "''key''"]
  show ?thesis by auto
qed

text \<open>C26: Peers agree on ownership: two rings built from the same set of addresses, listed in any order
  and with repetitions, sorted by any implementations of \<open>sort.Slice\<close> and with any self address, give
  every key the same owner and the same fallback, provided no two vnodes share a hash.\<close>

theorem owner_agreement:
  assumes srt: "slice_sorter vhash srt1" "slice_sorter vhash srt2"
    and run1: "ring_update srt1 sha addrs1 r1 = Some r1'" and run2: "ring_update srt2 sha addrs2 r2 = Some r2'"
    and same: "set addrs1 = set addrs2" "vnodesPerPeer r1 = vnodesPerPeer r2"
    and free: "collision_free sha (vnodesPerPeer r1) (set addrs1)"
  shows "map_option Addr (Owner sha key r1') = map_option Addr (Owner sha key r2')
    \<and> map_option Addr (Fallback sha key skip r1') = map_option Addr (Fallback sha key skip r2')"
proof -
  note up1 = ring_update_props [OF srt(1) run1] and up2 = ring_update_props [OF srt(2) run2]
  have s: "sorted (map vhash (vnodes r1'))" "sorted (map vhash (vnodes r2'))" using up1(1) up2(1) by (simp_all add: ring_inv_def)
  have vs: "set (vnodes r1') = set (vnodes r2')" using up1(2) up2(2) same by simp
  have free': "\<forall>v \<in> set (vnodes r2'). \<forall>w \<in> set (vnodes r2'). vhash v = vhash w \<longrightarrow> v = w"
    using free same by (simp add: up2(2) collision_free_def)
  have "nearest h P (vnodes r1') = nearest h P (vnodes r2')" for h P
    by (rule nearest_cong [OF s _ free']) (simp add: vs)
  then show ?thesis by (simp add: Owner_addr Fallback_addr up1(1) up2(1))
qed

lemma owner_agreement_witness:
  "map_option Addr (Owner example_sha ''key'' (example_ring [''p1'', ''p2'']))
    = map_option Addr (Owner example_sha ''key'' (example_ring [''p2'', ''p1'', ''p2'']))"
proof -
  have free: "collision_free example_sha (vnodesPerPeer (NewRing 2 ''p1'')) (set [''p1'', ''p2''])"
    using example_collision_free by (simp add: NewRing_def)
  have run1: "ring_update (sort_key vhash) example_sha [''p1'', ''p2''] (NewRing 2 ''p1'') = Some (example_ring [''p1'', ''p2''])"
    by (rule example_ring_run) simp
  have run2: "ring_update (sort_key vhash) example_sha [''p2'', ''p1'', ''p2''] (NewRing 2 ''p1'')
      = Some (example_ring [''p2'', ''p1'', ''p2''])"
    by (rule example_ring_run) simp
  have same: "set [''p1'', ''p2''] = set [''p2'', ''p1'', ''p2'']" by auto
  show ?thesis
    using owner_agreement [OF stable_sorter.slice_sorter_axioms stable_sorter.slice_sorter_axioms run1 run2 same refl free]
    by blast
qed

text \<open>C27: Minimal disruption: when peers join (or, read the other way, leave), a key whose owner is an old
  peer after the join had that owner before it; only keys of the new peers move.\<close>

theorem minimal_disruption:
  assumes srt: "slice_sorter vhash srt" and run1: "ring_update srt sha addrs1 r1 = Some r1'"
    and run2: "ring_update srt sha addrs2 r1 = Some r2'" and sub: "set addrs1 \<subseteq> set addrs2"
    and free: "collision_free sha (vnodesPerPeer r1) (set addrs2)"
    and owner: "map_option Addr (Owner sha key r2') = Some a" and old: "a \<in> set addrs1"
  shows "map_option Addr (Owner sha key r1') = Some a"
proof -
  note up1 = ring_update_props [OF srt run1] and up2 = ring_update_props [OF srt run2]
  have s: "sorted (map vhash (vnodes r1'))" "sorted (map vhash (vnodes r2'))" using up1(1) up2(1) by (simp_all add: ring_inv_def)
  have free': "\<forall>v \<in> set (vnodes r2'). \<forall>w \<in> set (vnodes r2'). vhash v = vhash w \<longrightarrow> v = w"
    using free by (simp add: up2(2) collision_free_def)
  obtain v where v: "nearest (hashString sha key) (\<lambda>v. True) (vnodes r2') = Some v" "vpeer v = a"
    using owner by (auto simp: Owner_addr up2(1))
  have "v \<in> {v \<in> vnodes_of sha (vnodesPerPeer r1) (set addrs2). vpeer v \<in> set addrs1}"
    using nearest_Some(1) [OF s(2) v(1)] v(2) old by (simp add: up2(2))
  then have "v \<in> set (vnodes r1')" using sub unfolding vnodes_of_restrict by (simp add: up1(2) Int_absorb1)
  moreover have "set (vnodes r1') \<subseteq> set (vnodes r2')" using vnodes_of_mono [OF sub] by (simp add: up1(2) up2(2))
  ultimately have "nearest (hashString sha key) (\<lambda>v. True) (vnodes r1') = Some v"
    using nearest_unique [OF s _ free' v(1)] by auto
  then show ?thesis by (simp add: Owner_addr up1(1) v(2))
qed

lemma minimal_disruption_witness:
  "map_option Addr (Owner example_sha ''c'' (example_ring [''p1'', ''p2''])) = Some ''p2''
   \<and> map_option Addr (Owner example_sha ''c'' (example_ring [''p2''])) = Some ''p2''"
proof -
  have free: "collision_free example_sha (vnodesPerPeer (NewRing 2 ''p1'')) (set [''p1'', ''p2''])"
    using example_collision_free by (simp add: NewRing_def)
  have run1: "ring_update (sort_key vhash) example_sha [''p2''] (NewRing 2 ''p1'') = Some (example_ring [''p2''])"
    by (rule example_ring_run) simp
  have run2: "ring_update (sort_key vhash) example_sha [''p1'', ''p2''] (NewRing 2 ''p1'') = Some (example_ring [''p1'', ''p2''])"
    by (rule example_ring_run) simp
  have owner: "map_option Addr (Owner example_sha ''c'' (example_ring [''p1'', ''p2''])) = Some ''p2''"
    unfolding example_ring_value by code_simp
  have sub: "set [''p2''] \<subseteq> set [''p1'', ''p2'']" by auto
  have old: "''p2'' \<in> set [''p2'']" by simp
  show ?thesis by (intro conjI owner minimal_disruption [OF stable_sorter.slice_sorter_axioms run1 run2 sub free owner old])
qed

text \<open>C29: The fallback for a failed peer is the peer that owns the key once the failed peer has left the
  ring: retries and rebalancing agree.\<close>

theorem fallback_is_next_owner:
  assumes srt: "slice_sorter vhash srt" and run1: "ring_update srt sha addrs r = Some r1'"
    and run2: "ring_update srt sha (removeAll skip addrs) r = Some r2'"
    and free: "collision_free sha (vnodesPerPeer r) (set addrs)"
  shows "map_option Addr (Fallback sha key skip r1') = map_option Addr (Owner sha key r2')"
proof -
  note up1 = ring_update_props [OF srt run1] and up2 = ring_update_props [OF srt run2]
  have s: "sorted (map vhash (vnodes r1'))" "sorted (map vhash (vnodes r2'))" using up1(1) up2(1) by (simp_all add: ring_inv_def)
  have "set (vnodes r2') = {v \<in> set (vnodes r1'). vpeer v \<in> - {skip}}"
    unfolding up1(2) up2(2) vnodes_of_restrict by (simp add: Diff_eq)
  then have same: "{v \<in> set (vnodes r1'). vpeer v \<noteq> skip} = {v \<in> set (vnodes r2'). True}" by auto
  have "\<forall>v \<in> set (vnodes r2'). \<forall>w \<in> set (vnodes r2'). vhash v = vhash w \<longrightarrow> v = w"
    using free same by (auto simp: up1(2) collision_free_def)
  then have "nearest (hashString sha key) (\<lambda>v. vpeer v \<noteq> skip) (vnodes r1')
      = nearest (hashString sha key) (\<lambda>v. True) (vnodes r2')"
    by (rule nearest_cong [OF s same])
  then show ?thesis by (simp add: Owner_addr Fallback_addr up1(1) up2(1))
qed

lemma fallback_is_next_owner_witness:
  "map_option Addr (Fallback example_sha ''key'' ''p1'' (example_ring [''p1'', ''p2''])) =
    map_option Addr (Owner example_sha ''key'' (example_ring [''p2'']))"
proof -
  have free: "collision_free example_sha (vnodesPerPeer (NewRing 2 ''p1'')) (set [''p1'', ''p2''])"
    using example_collision_free by (simp add: NewRing_def)
  have run1: "ring_update (sort_key vhash) example_sha [''p1'', ''p2''] (NewRing 2 ''p1'') = Some (example_ring [''p1'', ''p2''])"
    by (rule example_ring_run) simp
  have run2: "ring_update (sort_key vhash) example_sha (removeAll ''p1'' [''p1'', ''p2'']) (NewRing 2 ''p1'')
      = Some (example_ring [''p2''])"
    using example_ring_run [of "[''p2'']"] by simp
  show ?thesis by (rule fallback_is_next_owner [OF stable_sorter.slice_sorter_axioms run1 run2 free])
qed

text \<open>Update forgets every load that was reported before: a peer above the overflow threshold counts
  as idle after each refresh of the peer list.\<close>

theorem ring_update_forgets_loads:
  "ring_update srt sha addrs (UpdatePeerLoad a l r) = ring_update srt sha addrs r"
  by (simp add: ring_update_def UpdatePeerLoad_def split: option.split)

text \<open>A negative \<open>vnodes_per_peer\<close>, which configuration validation lets through, makes every Update with
  a peer panic in \<open>make\<close>.\<close>

theorem negative_vnodes_panic:
  "ring_update srt sha [addr] (NewRing (- 1) selfAddr) = None"
  by (simp add: ring_update_def NewRing_def)

end
