(* ===== verification/Forwarder.thy ===== *)
theory Forwarder
  imports Ring Http
begin

text \<open>
  \<open>internal/routing/forwarder.go\<close>: whether a request is served here or sent to the peer that owns
  its key, and the sending itself.  What the forwarder needs of the ring is the locale
  \<open>peer_directory\<close>, which the ring meets.  A sending operation returns the outcome together with
  the requests it has sent, in order.
\<close>

section \<open>State\<close>

definition HeaderForwarded :: string where
  "HeaderForwarded = ''X-Loraplex-Forwarded''"

record Forwarder =
  fwdClient :: http_client
  threshold :: float64

definition NewForwarder :: "http_client \<Rightarrow> float64 \<Rightarrow> Forwarder" where
  "NewForwarder c overflowThreshold = \<lparr>fwdClient = c, threshold = overflowThreshold\<rparr>"

record RouteDecision =
  HandleLocally :: bool
  ForwardTo :: "Peer option"
  Overflow :: bool

text \<open>A request on the wire.\<close>

record sent_request =
  sentTo :: string
  sentMethod :: string
  sentPath :: string
  sentHeader :: header
  sentBody :: string

section \<open>Operations\<close>

definition Decide :: "(string \<Rightarrow> uint32) \<Rightarrow> Ring \<Rightarrow> Forwarder \<Rightarrow> string \<Rightarrow> bool \<Rightarrow> RouteDecision" where
  "Decide sha r f key isForwarded =
     (if isForwarded then \<lparr>HandleLocally = True, ForwardTo = None, Overflow = False\<rparr>
      else case Owner sha key r of
             None \<Rightarrow> \<lparr>HandleLocally = True, ForwardTo = None, Overflow = False\<rparr>
           | Some owner \<Rightarrow>
               if IsSelf (Some owner) r then \<lparr>HandleLocally = True, ForwardTo = None, Overflow = False\<rparr>
               else if threshold f \<le> Load owner then \<lparr>HandleLocally = True, ForwardTo = None, Overflow = True\<rparr>
               else \<lparr>HandleLocally = False, ForwardTo = Some owner, Overflow = False\<rparr>)"

definition Forward :: "Forwarder \<Rightarrow> Peer \<Rightarrow> string \<Rightarrow> string \<Rightarrow> string \<Rightarrow> header \<Rightarrow> response res \<times> sent_request list" where
  "Forward f peer method path body headers =
     (let url = ''http://'' @ Addr peer @ path
      in case newRequest (fwdClient f) method url of
           Some err \<Rightarrow> (Inl err, [])
         | None \<Rightarrow>
             let hdr = header_set HeaderForwarded ''true'' (header_add_all headers []);
                 req = \<lparr>sentTo = Addr peer, sentMethod = method, sentPath = path, sentHeader = hdr, sentBody = body\<rparr>
             in (case roundTrip (fwdClient f) method url hdr body of
                   Inl err \<Rightarrow> (Inl (Wrapf (''forward to '' @ Addr peer @ '': '') err), [req])
                 | Inr resp \<Rightarrow> (Inr resp, [req])))"

definition ForwardWithFallback ::
    "(string \<Rightarrow> uint32) \<Rightarrow> Ring \<Rightarrow> Forwarder \<Rightarrow> string \<Rightarrow> string \<Rightarrow> string \<Rightarrow> string \<Rightarrow> header \<Rightarrow> response res \<times> sent_request list" where
  "ForwardWithFallback sha r f key method path body headers =
     (case Owner sha key r of
        None \<Rightarrow> (Inl (Errorf ''no peer available''), [])
      | Some owner \<Rightarrow>
          (case Forward f owner method path body headers of
             (Inr resp, sent) \<Rightarrow> (Inr resp, sent)
           | (Inl err, sent) \<Rightarrow>
               let fallback = Fallback sha key (Addr owner) r
               in (case fallback of
                     None \<Rightarrow> (Inl (Wrapf (''owner '' @ Addr owner @ '' failed, no remote fallback: '') err), sent)
                   | Some fb \<Rightarrow>
                       if IsSelf fallback r
                       then (Inl (Wrapf (''owner '' @ Addr owner @ '' failed, no remote fallback: '') err), sent)
                       else (case Forward f fb method path body headers of (res, sent') \<Rightarrow> (res, sent @ sent')))))"

text \<open>What is written to the client: the headers added to the empty reply, status and body.\<close>

record reply =
  replyStatus :: int
  replyHeader :: header
  replyBody :: string

definition CopyResponse :: "response \<Rightarrow> reply" where
  "CopyResponse resp =
     \<lparr>replyStatus = respStatus resp, replyHeader = header_add_all (respHeader resp) [], replyBody = respBody resp\<rparr>"

section \<open>What the forwarder needs of the ring\<close>

locale peer_directory =
  fixes wf :: "'r \<Rightarrow> bool"
    and owner :: "'r \<Rightarrow> string \<Rightarrow> Peer option"
    and fallback :: "'r \<Rightarrow> string \<Rightarrow> string \<Rightarrow> Peer option"
    and known :: "'r \<Rightarrow> Peer \<Rightarrow> bool"
  assumes owner_known: "wf r \<Longrightarrow> owner r k = Some p \<Longrightarrow> known r p"
    and fallback_known: "wf r \<Longrightarrow> fallback r k skip = Some p \<Longrightarrow> known r p"
    and fallback_other: "wf r \<Longrightarrow> fallback r k skip = Some p \<Longrightarrow> Addr p \<noteq> skip"
    and fallback_total: "wf r \<Longrightarrow> owner r k = Some p \<Longrightarrow> Addr p \<noteq> skip \<Longrightarrow> fallback r k skip = Some p"
begin

lemma fallback_after_owner:
  assumes "wf r" and "owner r k = Some p" and "fallback r k (Addr p) = Some q"
  shows "known r p" and "known r q" and "Addr q \<noteq> Addr p"
  using assms by (auto intro: owner_known fallback_known dest: fallback_other)

end

lemma ring_inv_sorted: "ring_inv r \<Longrightarrow> sorted (map vhash (vnodes r))"
  by (simp add: ring_inv_def)

lemma ring_inv_peer: "ring_inv r \<Longrightarrow> v \<in> set (vnodes r) \<Longrightarrow> map_of (peers r) (vpeer v) = Some p \<Longrightarrow> Addr p = vpeer v"
  by (force simp: ring_inv_def)

interpretation ring_directory: peer_directory ring_inv "\<lambda>r k. Owner sha k r" "\<lambda>r k skip. Fallback sha k skip r"
    "\<lambda>r p. p \<in> set (Peers r)" for sha
proof unfold_locales
  fix r k skip p
  assume inv: "ring_inv r"
  note s = ring_inv_sorted [OF inv]
  show "p \<in> set (Peers r)" if "Owner sha k r = Some p"
    using that by (force simp: Owner_nearest [OF s] Peers_def dest: map_of_SomeD split: option.splits)
  show "p \<in> set (Peers r)" if "Fallback sha k skip r = Some p"
    using that by (force simp: Fallback_nearest [OF s] Peers_def dest: map_of_SomeD split: option.splits)
  show "Addr p \<noteq> skip" if "Fallback sha k skip r = Some p"
    using that nearest_Some(1,2) [OF s] ring_inv_peer [OF inv]
    by (fastforce simp: Fallback_nearest [OF s] split: option.splits)
  show "Fallback sha k skip r = Some p" if own: "Owner sha k r = Some p" and "Addr p \<noteq> skip"
  proof -
    obtain v where v: "nearest (hashString sha k) (\<lambda>v. True) (vnodes r) = Some v" and p: "map_of (peers r) (vpeer v) = Some p"
      using own by (auto simp: Owner_nearest [OF s] split: option.splits)
    have "vpeer v \<noteq> skip" using ring_inv_peer [OF inv nearest_Some(1) [OF s v] p] that(2) by simp
    then have "nearest (hashString sha k) (\<lambda>v. vpeer v \<noteq> skip) (vnodes r) = Some v"
      using v by (cases "clockwise (hashString sha k) (vnodes r)") (auto simp: nearest_def)
    then show ?thesis by (simp add: Fallback_nearest [OF s] p)
  qed
qed

section \<open>What is sent\<close>

lemma add_all_empty: "header_wf headers \<Longrightarrow> header_values (header_add_all headers []) k = header_values headers k"
  by (simp add: header_add_all_values) (simp add: header_values_def)

text \<open>A request on behalf of \<open>headers\<close>: the same but for the forwarding mark.\<close>

definition relayed :: "string \<Rightarrow> string \<Rightarrow> string \<Rightarrow> header \<Rightarrow> sent_request \<Rightarrow> bool" where
  "relayed method path body headers q \<longleftrightarrow>
     sentMethod q = method \<and> sentPath q = path \<and> sentBody q = body
     \<and> (\<forall>k. header_values (sentHeader q) k
          = (if canonical k = canonical HeaderForwarded then [''true''] else header_values headers k))"

text \<open>The answer a peer gives to a request.\<close>

definition answers :: "Forwarder \<Rightarrow> sent_request \<Rightarrow> response res \<Rightarrow> bool" where
  "answers f q a \<longleftrightarrow> roundTrip (fwdClient f) (sentMethod q) (''http://'' @ sentTo q @ sentPath q) (sentHeader q) (sentBody q) = a"

lemma Forward_cases:
  assumes "Forward f peer method path body headers = (res, sent)" and "header_wf headers"
  obtains (refused) err where "sent = []" "res = Inl err"
  | (failed) q err where "sent = [q]" "sentTo q = Addr peer" "relayed method path body headers q" "answers f q (Inl err)" "isl res"
  | (answered) q resp where "sent = [q]" "sentTo q = Addr peer" "relayed method path body headers q" "answers f q (Inr resp)" "res = Inr resp"
proof -
  let ?hdr = "header_set HeaderForwarded ''true'' (header_add_all headers [])"
  let ?q = "\<lparr>sentTo = Addr peer, sentMethod = method, sentPath = path, sentHeader = ?hdr, sentBody = body\<rparr>"
  have rel: "relayed method path body headers ?q" by (simp add: relayed_def add_all_empty [OF assms(2)])
  show thesis
  proof (cases "newRequest (fwdClient f) method (''http://'' @ Addr peer @ path)")
    case (Some err)
    then show thesis using assms(1) by (intro refused) (auto simp: Forward_def)
  next
    case None
    show thesis
    proof (cases "roundTrip (fwdClient f) method (''http://'' @ Addr peer @ path) ?hdr body")
      case (Inl err)
      then show thesis using assms(1) None rel
        by (intro failed [of ?q err]) (auto simp: Forward_def answers_def Let_def)
    next
      case (Inr resp)
      then show thesis using assms(1) None rel
        by (intro answered [of ?q resp]) (auto simp: Forward_def answers_def Let_def)
    qed
  qed
qed

section \<open>Properties\<close>

text \<open>C30: Decide forwards to the owner only, and only when the request has not been forwarded before, the
  owner is a known peer other than this one, and its load is below the threshold; it reports overflow
  exactly when the load alone kept the request here.\<close>

theorem decide_forwards_safely:
  assumes "ring_inv r"
  shows "(HandleLocally (Decide sha r f key fwd) \<longleftrightarrow> ForwardTo (Decide sha r f key fwd) = None)
    \<and> (ForwardTo (Decide sha r f key fwd) = Some p \<longleftrightarrow>
        \<not> fwd \<and> Owner sha key r = Some p \<and> p \<in> set (Peers r) \<and> Addr p \<noteq> self r \<and> Load p < threshold f)
    \<and> (Overflow (Decide sha r f key fwd) \<longleftrightarrow>
        \<not> fwd \<and> (\<exists>q. Owner sha key r = Some q \<and> Addr q \<noteq> self r \<and> threshold f \<le> Load q))"
  using ring_directory.owner_known [OF assms, of sha key]
  by (auto simp: Decide_def IsSelf_def split: option.split)

text \<open>Peers that answer every request with 200, and peers that cannot be reached.\<close>

definition answering :: http_client where
  "answering = \<lparr>newRequest = (\<lambda>m u. None),
     roundTrip = (\<lambda>m u h b. Inr \<lparr>respStatus = 200, respHeader = [], respBody = u, respErr = None\<rparr>)\<rparr>"

definition unreachable :: http_client where
  "unreachable = \<lparr>newRequest = (\<lambda>m u. None), roundTrip = (\<lambda>m u h b. Inl (Errorf ''refused''))\<rparr>"

lemma example_ring_inv: "ring_inv (example_ring [''p1'', ''p2''])"
  using ring_update_props(1) [OF stable_sorter.slice_sorter_axioms example_ring_run [of "[''p1'', ''p2'']"]] by simp

lemma example_owner: "Owner example_sha ''c'' (example_ring [''p1'', ''p2'']) = Some \<lparr>Addr = ''p2'', Load = 0\<rparr>"
  unfolding example_ring_value by code_simp

lemma decide_forwards_safely_witness:
  "ForwardTo (Decide example_sha (example_ring [''p1'', ''p2'']) (NewForwarder answering 1) ''c'' False)
     = Some \<lparr>Addr = ''p2'', Load = 0\<rparr>"
proof -
  have mem: "\<lparr>Addr = ''p2'', Load = 0\<rparr> \<in> set (Peers (example_ring [''p1'', ''p2'']))"
    unfolding example_ring_value by (simp add: Peers_def)
  have self: "Addr \<lparr>Addr = ''p2'', Load = 0\<rparr> \<noteq> self (example_ring [''p1'', ''p2''])"
    unfolding example_ring_value by simp
  have load: "Load \<lparr>Addr = ''p2'', Load = 0\<rparr> < threshold (NewForwarder answering 1)" by (simp add: NewForwarder_def)
  show ?thesis
    using conjunct1 [OF conjunct2 [OF decide_forwards_safely [OF example_ring_inv]]] mem self load example_owner by blast
qed



end
