(* ===== verification/Proxy.thy ===== *)
theory Proxy
  imports Manager Forwarder
begin

text \<open>
  \<open>internal/proxy/body.go\<close> and \<open>internal/proxy/proxy.go\<close>: the request handler.  It reads the model
  and the tenant of a request, builds the key that is hashed onto the ring, and answers the request
  through a peer or through the local vLLM server, after making sure the adapter is on disk.
  Decoding the body (the \<open>model\<close> member of a JSON object, if it is a string) is a parameter.
  The outcome of a request collects the reply, the requests sent, the cache and the metrics.
\<close>

section \<open>Requests\<close>

text \<open>
  A request as the handler receives it: \<open>reqBody\<close> is what can be read of the body and \<open>reqBodyErr\<close>
  the error the reading ends with, \<open>reqGone\<close> says that the client has gone away when the answer of
  vLLM fails to come.
\<close>

record request =
  reqMethod :: string
  reqPath :: string
  reqQuery :: string
  reqHeader :: header
  reqBody :: string
  reqBodyErr :: "goerr option"
  reqGone :: bool

record RequestInfo =
  infoModel :: string
  infoTenant :: string
  infoHashKey :: string
  infoBody :: string

definition maxBodySize :: nat where
  "maxBodySize = 10 * 2 ^ 20"

text \<open>\<open>strings.SplitN(s, "/", 2)\<close>.\<close>

definition split_two :: "string \<Rightarrow> string \<times> string option" where
  "split_two s =
     (takeWhile (\<lambda>c. c \<noteq> slash) s,
      if slash \<in> set s then Some (tl (dropWhile (\<lambda>c. c \<noteq> slash) s)) else None)"

definition buildHashKey :: "string \<Rightarrow> string \<Rightarrow> header \<Rightarrow> string \<Rightarrow> string" where
  "buildHashKey model tenant hdr hashOn =
     (if hashOn = ''model'' then model
      else if hashOn = ''tenant'' then tenant
      else if hashOn = ''tenant/model'' then (if tenant \<noteq> [] then tenant @ ''/'' @ model else model)
      else if prefix ''header:'' hashOn then
        (case split_two (trim_prefix ''header:'' hashOn) of
           (name, rest) \<Rightarrow>
             let headerVal = header_get hdr name
             in if rest = Some ''model'' then (if headerVal \<noteq> [] then headerVal @ ''/'' @ model else model)
                else headerVal)
      else model)"

text \<open>The body is read through a reader that stops one byte after the limit.\<close>

definition read_body :: "request \<Rightarrow> string res" where
  "read_body r =
     (if maxBodySize < length (reqBody r) then Inr (take (maxBodySize + 1) (reqBody r))
      else case reqBodyErr r of Some err \<Rightarrow> Inl err | None \<Rightarrow> Inr (reqBody r))"

definition ExtractRequestInfo :: "(string \<Rightarrow> string option) \<Rightarrow> request \<Rightarrow> string \<Rightarrow> RequestInfo res" where
  "ExtractRequestInfo json r hashOn =
     (case read_body r of
        Inl err \<Rightarrow> Inl (Wrapf ''read body: '' err)
      | Inr body \<Rightarrow>
          if maxBodySize < length body
          then Inl (Errorf (''request body too large (max '' @ utoa maxBodySize @ '' bytes)''))
          else
            let model = (if body = [] then [] else case json body of Some m \<Rightarrow> m | None \<Rightarrow> []);
                tenant = header_get (reqHeader r) ''X-Tenant-ID''
            in Inr \<lparr>infoModel = model, infoTenant = tenant,
                 infoHashKey = buildHashKey model tenant (reqHeader r) hashOn, infoBody = body\<rparr>)"

section \<open>Replies\<close>

text \<open>The text of an error, as \<open>Error()\<close> and the \<open>%v\<close> and \<open>%w\<close> verbs give it.\<close>

fun errno_text :: "errno \<Rightarrow> string" where
  "errno_text ENOENT = ''no such file or directory''"
| "errno_text ENOTDIR = ''not a directory''"
| "errno_text EISDIR = ''is a directory''"
| "errno_text EEXIST = ''file exists''"
| "errno_text EINVAL = ''invalid argument''"
| "errno_text EIO = ''input/output error''"

fun error_text :: "goerr \<Rightarrow> string" where
  "error_text (Errorf s) = s"
| "error_text (SysErr op p n) = op @ '' /'' @ join_with slash p @ '': '' @ errno_text n"
| "error_text (Wrapf s e) = s @ error_text e"

text \<open>\<open>http.Error\<close>.\<close>

definition http_error :: "string \<Rightarrow> int \<Rightarrow> reply" where
  "http_error msg code =
     \<lparr>replyStatus = code,
      replyHeader = [(''Content-Type'', [''text/plain; charset=utf-8'']), (''X-Content-Type-Options'', [''nosniff''])],
      replyBody = msg @ [CHR 0x0A]\<rparr>"

section \<open>The proxy\<close>

record Proxy =
  vllmURL :: string
  baseModel :: string
  hashOn :: string
  fallbackBase :: bool
  vllmClient :: http_client

definition NewProxy :: "string \<Rightarrow> string \<Rightarrow> string \<Rightarrow> bool \<Rightarrow> http_client \<Rightarrow> Proxy" where
  "NewProxy url base ho fb c =
     \<lparr>vllmURL = url, baseModel = base, hashOn = ho, fallbackBase = fb, vllmClient = c\<rparr>"

definition proxyToVLLM :: "Proxy \<Rightarrow> request \<Rightarrow> string \<Rightarrow> reply option \<times> sent_request list" where
  "proxyToVLLM p r body =
     (let path = reqPath r @ (if reqQuery r \<noteq> [] then ''?'' @ reqQuery r else []);
          url = vllmURL p @ path
      in case newRequest (vllmClient p) (reqMethod r) url of
           Some err \<Rightarrow> (Some (http_error (error_text err) 500), [])
         | None \<Rightarrow>
             let hdr = header_set ''Content-Type'' ''application/json''
                         (header_del HeaderForwarded (header_add_all (reqHeader r) []));
                 req = \<lparr>sentTo = vllmURL p, sentMethod = reqMethod r, sentPath = path, sentHeader = hdr, sentBody = body\<rparr>
             in (case roundTrip (vllmClient p) (reqMethod r) url hdr body of
                   Inl err \<Rightarrow>
                     (if reqGone r then None else Some (http_error (''vllm proxy error: '' @ error_text err) 502), [req])
                 | Inr resp \<Rightarrow> (Some (CopyResponse resp), [req])))"

text \<open>
  The copy of a streamed body in pieces writes the same bytes as \<open>io.Copy\<close>, so both ends of
  \<open>proxyToVLLM\<close> are \<open>CopyResponse\<close>.
\<close>

record served =
  servedReply :: "reply option"
  servedMgr :: Manager
  servedDisk :: fs
  servedMetrics :: metrics
  servedTasks :: "task list"
  toPeers :: "sent_request list"
  toVLLM :: "sent_request list"

text \<open>The answer through vLLM, with the requests already sent and the metric of its tier.\<close>

definition via_vllm :: "Proxy \<Rightarrow> request \<Rightarrow> RequestInfo \<Rightarrow> string \<Rightarrow> served \<Rightarrow> served" where
  "via_vllm p r info tier s =
     (case proxyToVLLM p r (infoBody info) of
        (rep, sent) \<Rightarrow>
          s\<lparr>servedReply := rep, toVLLM := toVLLM s @ sent,
            servedMetrics := servedMetrics s @ RecordRequest (infoTenant info) tier\<rparr>)"

text \<open>The local part of the handler, after the routing decision.\<close>

definition serve_locally :: "env \<Rightarrow> Proxy \<Rightarrow> request \<Rightarrow> RequestInfo \<Rightarrow> bool \<Rightarrow> served \<Rightarrow> served" where
  "serve_locally e p r info isBaseModel s =
     (if \<not> isBaseModel then
        (case EnsureAdapter e (servedMgr s) (infoModel info) (servedDisk s) of
           (res, m', fs', ms, ts) \<Rightarrow>
             let s' = s\<lparr>servedMgr := m', servedDisk := fs', servedMetrics := servedMetrics s @ ms, servedTasks := ts\<rparr>
             in case res of
                  Inl err \<Rightarrow>
                    if fallbackBase p then via_vllm p r info ''fallback-base'' s'
                    else s'\<lparr>servedReply := Some (http_error (''adapter not available: '' @ error_text err) 503)\<rparr>
                | Inr result \<Rightarrow> via_vllm p r info (if Cached result then ''local'' else ''origin'') s')
      else via_vllm p r info ''routed'' s)"

definition ServeHTTP ::
    "env \<Rightarrow> (string \<Rightarrow> string option) \<Rightarrow> (string \<Rightarrow> uint32) \<Rightarrow> Ring \<Rightarrow> Forwarder \<Rightarrow> Proxy \<Rightarrow> request \<Rightarrow> Manager \<Rightarrow> fs \<Rightarrow> served" where
  "ServeHTTP e json sha ring f p r m fs =
     (let s0 = \<lparr>servedReply = None, servedMgr = m, servedDisk = fs, servedMetrics = [], servedTasks = [],
                toPeers = [], toVLLM = []\<rparr>
      in case ExtractRequestInfo json r (hashOn p) of
           Inl err \<Rightarrow> s0\<lparr>servedReply := Some (http_error (error_text err) 400)\<rparr>
         | Inr info \<Rightarrow>
             let isBaseModel = (infoModel info = [] \<or> infoModel info = baseModel p)
             in if isBaseModel \<and> (hashOn p = ''model'' \<or> infoHashKey info = [])
                then via_vllm p r info ''passthrough'' s0
                else
                  let isForwarded = (header_get (reqHeader r) HeaderForwarded = ''true'');
                      decision = Decide sha ring f (infoHashKey info) isForwarded;
                      overflow = (if Overflow decision then RecordOverflow else [])
                  in if HandleLocally decision
                     then serve_locally e p r info isBaseModel (s0\<lparr>servedMetrics := overflow\<rparr>)
                     else
                       (case ForwardWithFallback sha ring f (infoHashKey info) (reqMethod r) (reqPath r)
                               (infoBody info) (reqHeader r) of
                          (Inl err, sent) \<Rightarrow>
                            serve_locally e p r info isBaseModel (s0\<lparr>toPeers := sent, servedMetrics := overflow\<rparr>)
                        | (Inr resp, sent) \<Rightarrow>
                            s0\<lparr>servedReply := Some (CopyResponse resp), toPeers := sent,
                               servedMetrics := RecordForwardDuration
                                 @ (case ForwardTo decision of Some q \<Rightarrow> RecordForward (Addr q) | None \<Rightarrow> [])
                                 @ RecordRequest (infoTenant info) ''forwarded''\<rparr>))"

section \<open>The ways a request can go\<close>

definition served_start :: "Manager \<Rightarrow> fs \<Rightarrow> served" where
  "served_start m fs =
     \<lparr>servedReply = None, servedMgr = m, servedDisk = fs, servedMetrics = [], servedTasks = [], toPeers = [], toVLLM = []\<rparr>"

definition base_request :: "Proxy \<Rightarrow> RequestInfo \<Rightarrow> bool" where
  "base_request p info \<longleftrightarrow> infoModel info = [] \<or> infoModel info = baseModel p"

definition marked :: "request \<Rightarrow> bool" where
  "marked r \<longleftrightarrow> header_get (reqHeader r) HeaderForwarded = ''true''"

lemma serve_cases:
  fixes e json sha ring f p r m fs
  defines "s \<equiv> ServeHTTP e json sha ring f p r m fs"
  obtains (bad) err where "ExtractRequestInfo json r (hashOn p) = Inl err"
      "s = served_start m fs\<lparr>servedReply := Some (http_error (error_text err) 400)\<rparr>"
  | (pass) info where "ExtractRequestInfo json r (hashOn p) = Inr info" "base_request p info"
      "s = via_vllm p r info ''passthrough'' (served_start m fs)"
  | (local) info sent ms where "ExtractRequestInfo json r (hashOn p) = Inr info"
      "s = serve_locally e p r info (base_request p info) (served_start m fs\<lparr>toPeers := sent, servedMetrics := ms\<rparr>)"
      "ms = [] \<or> ms = RecordOverflow" "sent = [] \<or> \<not> marked r \<and> (\<exists>q err. ForwardTo (Decide sha ring f (infoHashKey info) False) = Some q
        \<and> ForwardWithFallback sha ring f (infoHashKey info) (reqMethod r) (reqPath r) (infoBody info) (reqHeader r) = (Inl err, sent))"
  | (relay) info q resp sent where "ExtractRequestInfo json r (hashOn p) = Inr info" "\<not> marked r"
      "ForwardTo (Decide sha ring f (infoHashKey info) False) = Some q"
      "ForwardWithFallback sha ring f (infoHashKey info) (reqMethod r) (reqPath r) (infoBody info) (reqHeader r) = (Inr resp, sent)"
      "s = served_start m fs\<lparr>servedReply := Some (CopyResponse resp), toPeers := sent,
         servedMetrics := RecordForwardDuration @ RecordForward (Addr q) @ RecordRequest (infoTenant info) ''forwarded''\<rparr>"
proof (cases "ExtractRequestInfo json r (hashOn p)")
  case (Inl err)
  then show thesis by (intro bad [of err]) (simp_all add: s_def ServeHTTP_def served_start_def)
next
  case (Inr info)
  let ?base = "infoModel info = [] \<or> infoModel info = baseModel p"
  let ?d = "Decide sha ring f (infoHashKey info) (header_get (reqHeader r) HeaderForwarded = ''true'')"
  let ?fw = "ForwardWithFallback sha ring f (infoHashKey info) (reqMethod r) (reqPath r) (infoBody info) (reqHeader r)"
  let ?ov = "if Overflow ?d then RecordOverflow else []"
  show thesis
  proof (cases "?base \<and> (hashOn p = ''model'' \<or> infoHashKey info = [])")
    case True
    then show thesis using Inr
      by (intro pass [of info]) (simp_all add: s_def ServeHTTP_def served_start_def base_request_def Let_def)
  next
    case nopass: False
    show thesis
    proof (cases "HandleLocally ?d")
      case True
      have "s = serve_locally e p r info (base_request p info) (served_start m fs\<lparr>toPeers := [], servedMetrics := ?ov\<rparr>)"
        unfolding s_def ServeHTTP_def Inr sum.case Let_def if_not_P [OF nopass] if_P [OF True]
        by (simp add: served_start_def base_request_def)
      then show thesis using Inr by (intro local [of info ?ov "[]"]) simp_all
    next
      case False
      have nm: "\<not> marked r" using False by (auto simp: Decide_def marked_def split: if_splits)
      then have d: "?d = Decide sha ring f (infoHashKey info) False" by (simp add: marked_def)
      have "ForwardTo ?d \<noteq> None" using False by (auto simp: Decide_def split: if_splits option.splits)
      then obtain q where q: "ForwardTo ?d = Some q" by auto
      show thesis
      proof (cases ?fw)
        case (Pair res sent)
        show thesis
        proof (cases res)
          case err: (Inl err)
          have "s = serve_locally e p r info (base_request p info) (served_start m fs\<lparr>toPeers := sent, servedMetrics := ?ov\<rparr>)"
            unfolding s_def ServeHTTP_def Inr sum.case Let_def if_not_P [OF nopass] if_not_P [OF False] Pair prod.case err
            by (simp add: served_start_def base_request_def)
          then show thesis using Inr nm q Pair err unfolding d by (intro local [of info ?ov sent]) (auto simp: d)
        next
          case resp: (Inr resp)
          have "s = served_start m fs\<lparr>servedReply := Some (CopyResponse resp), toPeers := sent,
              servedMetrics := RecordForwardDuration @ RecordForward (Addr q) @ RecordRequest (infoTenant info) ''forwarded''\<rparr>"
            unfolding s_def ServeHTTP_def Inr sum.case Let_def if_not_P [OF nopass] if_not_P [OF False] Pair prod.case resp
            by (simp add: served_start_def q)
          then show thesis using Inr nm q Pair resp unfolding d by (intro relay [of info q resp sent]) simp_all
        qed
      qed
    qed
  qed
qed

lemma via_vllm_fields [simp]:
  "servedMgr (via_vllm p r info tier s) = servedMgr s" "servedDisk (via_vllm p r info tier s) = servedDisk s"
  "toPeers (via_vllm p r info tier s) = toPeers s" "servedTasks (via_vllm p r info tier s) = servedTasks s"
  "servedMetrics (via_vllm p r info tier s) = servedMetrics s @ RecordRequest (infoTenant info) tier"
  "toVLLM (via_vllm p r info tier s) = toVLLM s @ snd (proxyToVLLM p r (infoBody info))"
  "servedReply (via_vllm p r info tier s) = fst (proxyToVLLM p r (infoBody info))"
  by (simp_all add: via_vllm_def split: prod.split)

lemma served_start_fields [simp]:
  "servedMgr (served_start m fs) = m" "servedDisk (served_start m fs) = fs" "servedMetrics (served_start m fs) = []"
  "servedTasks (served_start m fs) = []" "toPeers (served_start m fs) = []" "toVLLM (served_start m fs) = []"
  "servedReply (served_start m fs) = None"
  by (simp_all add: served_start_def)

text \<open>The ways the local part can go: the base model, an adapter that is there, one that is not.\<close>

lemma locally_cases:
  fixes e p r info base s1
  defines "s \<equiv> serve_locally e p r info base s1"
  obtains (base) "base" "s = via_vllm p r info ''routed'' s1"
  | (present) res m' fs' ms ts s2 where "\<not> base" "EnsureAdapter e (servedMgr s1) (infoModel info) (servedDisk s1) = (Inr res, m', fs', ms, ts)"
      "s2 = s1\<lparr>servedMgr := m', servedDisk := fs', servedMetrics := servedMetrics s1 @ ms, servedTasks := ts\<rparr>"
      "s = via_vllm p r info (if Cached res then ''local'' else ''origin'') s2"
  | (absent) err m' fs' ms ts s2 where "\<not> base" "EnsureAdapter e (servedMgr s1) (infoModel info) (servedDisk s1) = (Inl err, m', fs', ms, ts)"
      "s2 = s1\<lparr>servedMgr := m', servedDisk := fs', servedMetrics := servedMetrics s1 @ ms, servedTasks := ts\<rparr>"
      "s = (if fallbackBase p then via_vllm p r info ''fallback-base'' s2
            else s2\<lparr>servedReply := Some (http_error (''adapter not available: '' @ error_text err) 503)\<rparr>)"
proof (cases base)
  case True
  then show thesis by (intro that(1)) (simp_all add: s_def serve_locally_def)
next
  case False
  obtain res m' fs' ms ts where run: "EnsureAdapter e (servedMgr s1) (infoModel info) (servedDisk s1) = (res, m', fs', ms, ts)"
    by (metis prod.collapse)
  show thesis
  proof (cases res)
    case (Inl err)
    then show thesis using False run by (intro that(3) [OF False _ refl]) (simp_all add: s_def serve_locally_def Let_def)
  next
    case (Inr r1)
    then show thesis using False run by (intro that(2) [OF False _ refl]) (simp_all add: s_def serve_locally_def Let_def)
  qed
qed

lemma locally_peers: "toPeers (serve_locally e p r info base s1) = toPeers s1"
  by (cases rule: locally_cases [where e = e and p = p and r = r and info = info and base = base and ?s1.0 = s1]) simp_all

lemma canonical_eval: "canonical ''Content-Type'' \<noteq> canonical HeaderForwarded"
  by code_simp

text \<open>The one request vLLM gets: the client's, without the forwarding mark and labelled as JSON.\<close>

definition for_vllm :: "Proxy \<Rightarrow> request \<Rightarrow> string \<Rightarrow> sent_request \<Rightarrow> bool" where
  "for_vllm p r body q \<longleftrightarrow>
     sentTo q = vllmURL p \<and> sentMethod q = reqMethod r \<and> sentBody q = body
     \<and> sentPath q = reqPath r @ (if reqQuery r \<noteq> [] then ''?'' @ reqQuery r else [])
     \<and> header_values (sentHeader q) HeaderForwarded = []
     \<and> header_values (sentHeader q) ''Content-Type'' = [''application/json'']
     \<and> (\<forall>k. canonical k \<noteq> canonical HeaderForwarded \<longrightarrow> canonical k \<noteq> canonical ''Content-Type'' \<longrightarrow>
          header_values (sentHeader q) k = header_values (reqHeader r) k)"

lemma proxyToVLLM_props:
  assumes "header_wf (reqHeader r)"
  shows "(\<forall>q \<in> set (snd (proxyToVLLM p r body)). for_vllm p r body q) \<and> length (snd (proxyToVLLM p r body)) \<le> 1
    \<and> (fst (proxyToVLLM p r body) = None \<longrightarrow> reqGone r)"
  using canonical_eval
  by (auto simp: proxyToVLLM_def for_vllm_def Let_def add_all_empty [OF assms] split: option.split sum.split)

lemma locally_vllm:
  assumes "header_wf (reqHeader r)" and "toVLLM s1 = []"
  shows "(\<forall>q \<in> set (toVLLM (serve_locally e p r info base s1)). for_vllm p r (infoBody info) q)
    \<and> length (toVLLM (serve_locally e p r info base s1)) \<le> 1
    \<and> (servedReply (serve_locally e p r info base s1) = None \<longrightarrow> reqGone r)"
  using proxyToVLLM_props [OF assms(1), of p "infoBody info"] assms(2)
  by (cases rule: locally_cases [where e = e and p = p and r = r and info = info and base = base and ?s1.0 = s1])
    auto

lemma extract_body:
  assumes "ExtractRequestInfo json r ho = Inr info"
  shows "infoBody info = reqBody r \<and> length (reqBody r) \<le> maxBodySize \<and> reqBodyErr r = None"
  using assms by (auto simp: ExtractRequestInfo_def read_body_def Let_def split: sum.splits if_splits option.splits)

lemma fallback_marks:
  assumes "header_wf headers" and "ForwardWithFallback sha ring f key method path body headers = (res, sent)"
    and "q \<in> set sent"
  shows "header_values (sentHeader q) HeaderForwarded = [''true'']"
proof -
  have one: "header_values (sentHeader q) HeaderForwarded = [''true'']"
    if "Forward f peer method path body headers = (r1, s1)" "q \<in> set s1" for peer r1 s1
    using that(1) assms(1) by (cases rule: Forward_cases) (use that(2) in \<open>auto simp: relayed_def\<close>)
  show ?thesis using assms(2,3) one
    by (auto simp: ForwardWithFallback_def Let_def split: option.splits prod.splits sum.splits if_splits)
qed

section \<open>Properties\<close>


text \<open>A proxy whose vLLM answers every request, and a forwarded request for adapter \<open>a\<close>.\<close>

definition example_proxy :: Proxy where
  "example_proxy = \<lparr>vllmURL = ''http://v'', baseModel = ''base'', hashOn = ''model'', fallbackBase = False, vllmClient = answering\<rparr>"

definition example_json :: "string \<Rightarrow> string option" where
  "example_json body = (if body = ''A'' then Some ''a'' else None)"

definition example_request :: "header \<Rightarrow> request" where
  "example_request h = \<lparr>reqMethod = ''POST'', reqPath = ''/v1/x'', reqQuery = ''q=1'', reqHeader = h, reqBody = ''A'',
     reqBodyErr = None, reqGone = False\<rparr>"

definition forwarded_header :: header where
  "forwarded_header = header_set HeaderForwarded ''true'' []"

definition example_served :: served where
  "example_served = ServeHTTP example_env example_json example_sha (example_ring [''p1'', ''p2'']) (NewForwarder answering 1)
     example_proxy (example_request forwarded_header) example_manager empty_disk"

lemma example_info: "ExtractRequestInfo example_json (example_request h) (hashOn example_proxy)
    = Inr \<lparr>infoModel = ''a'', infoTenant = header_get h ''X-Tenant-ID'', infoHashKey = ''a'', infoBody = ''A''\<rparr>"
  by (simp add: ExtractRequestInfo_def read_body_def example_request_def maxBodySize_def example_json_def
      buildHashKey_def example_proxy_def Let_def)

lemma example_served_sent: "toVLLM example_served \<noteq> []"
proof -
  have mark: "header_get (reqHeader (example_request forwarded_header)) HeaderForwarded = ''true''"
    by (simp add: example_request_def forwarded_header_def)
  show ?thesis
    unfolding example_served_def ServeHTTP_def example_info sum.case Let_def mark
    by (simp add: example_proxy_def Decide_def serve_locally_def example_ensure_run via_vllm_def proxyToVLLM_def answering_def Let_def)
qed


text \<open>C25: No forwarding loops: a node that receives a request another node has forwarded, whatever its ring,
  cache and configuration, sends it to no peer.\<close>

theorem at_most_one_hop:
  assumes hdr: "header_wf (reqHeader r)"
    and q: "q \<in> set (toPeers (ServeHTTP e json sha ring f p r m fs))"
    and recv: "reqHeader r' = sentHeader q"
  shows "toPeers (ServeHTTP e' json' sha' ring' f' p' r' m' fs') = []"
proof -
  have "header_values (sentHeader q) HeaderForwarded = [''true'']"
  proof (cases rule: serve_cases [where e = e and json = json and sha = sha and ring = ring and f = f and p = p and r = r and m = m and fs = fs])
    case (local info sent ms)
    then show ?thesis using q fallback_marks [OF hdr] by (auto simp: locally_peers)
  next
    case (relay info q' resp sent)
    then show ?thesis using q fallback_marks [OF hdr] by auto
  qed (use q in auto)
  then have "marked r'" by (simp add: marked_def recv header_get_def)
  then show ?thesis
    by (cases rule: serve_cases [where e = e' and json = json' and sha = sha' and ring = ring' and f = f' and p = p' and r = r' and m = m' and fs = fs'])
      (auto simp: locally_peers)
qed

lemma at_most_one_hop_witness:
  "\<exists>q. toPeers (ServeHTTP example_env example_json example_sha (example_ring [''p1'', ''p2'']) (NewForwarder answering 1)
        example_proxy (example_request []) example_manager empty_disk) = [q] \<and> sentTo q = ''p2''
    \<and> toPeers (ServeHTTP example_env example_json example_sha (example_ring [''p1'', ''p2'']) (NewForwarder answering 1)
        example_proxy (example_request (sentHeader q)) example_manager empty_disk) = []"
proof -
  have own: "Owner example_sha ''a'' (example_ring [''p1'', ''p2'']) = Some \<lparr>Addr = ''p2'', Load = 0\<rparr>"
    unfolding example_ring_value by code_simp
  have self: "self (example_ring [''p1'', ''p2'']) = ''p1''" by (simp add: example_ring_value)
  have mark: "header_get (reqHeader (example_request [])) HeaderForwarded = []"
    by (simp add: example_request_def header_get_def header_values_def)
  let ?s = "ServeHTTP example_env example_json example_sha (example_ring [''p1'', ''p2'']) (NewForwarder answering 1)
        example_proxy (example_request []) example_manager empty_disk"
  have "\<exists>q. toPeers ?s = [q] \<and> sentTo q = ''p2''"
    unfolding ServeHTTP_def example_info sum.case Let_def mark
    by (simp add: example_proxy_def Decide_def own self IsSelf_def ForwardWithFallback_def Forward_def answering_def
        NewForwarder_def Let_def)
  then obtain q where q: "toPeers ?s = [q]" "sentTo q = ''p2''" by blast
  have wf: "header_wf (reqHeader (example_request []))" by (simp add: example_request_def header_wf_def)
  have mem: "q \<in> set (toPeers ?s)" using q by simp
  have recv: "reqHeader (example_request (sentHeader q)) = sentHeader q" by (simp add: example_request_def)
  show ?thesis using at_most_one_hop [OF wf mem recv] q by blast
qed

text \<open>C32: vLLM gets at most one request per client request, with the client's method, path, query, body and
  headers, labelled as JSON and without the forwarding mark; and the client is left without an answer
  only when it has gone away.\<close>

theorem vllm_request_shape:
  assumes "header_wf (reqHeader r)"
  shows "(\<forall>q \<in> set (toVLLM (ServeHTTP e json sha ring f p r m fs)). for_vllm p r (reqBody r) q)
    \<and> length (toVLLM (ServeHTTP e json sha ring f p r m fs)) \<le> 1
    \<and> (servedReply (ServeHTTP e json sha ring f p r m fs) = None \<longrightarrow> reqGone r)"
proof (cases rule: serve_cases [where e = e and json = json and sha = sha and ring = ring and f = f and p = p and r = r and m = m and fs = fs])
  case (pass info)
  then show ?thesis using proxyToVLLM_props [OF assms, of p "infoBody info"] extract_body [OF pass(1)] by simp
next
  case (local info sent ms)
  then show ?thesis
    using locally_vllm [OF assms, of "served_start m fs\<lparr>toPeers := sent, servedMetrics := ms\<rparr>" e p info "base_request p info"]
      extract_body [OF local(1)] by simp
qed simp_all

lemma vllm_request_shape_witness:
  "\<exists>q. toVLLM example_served = [q] \<and> for_vllm example_proxy (example_request forwarded_header) ''A'' q"
proof -
  have wf: "header_wf (reqHeader (example_request forwarded_header))"
    by (simp add: example_request_def forwarded_header_def header_set_def header_wf_def)
  have body: "reqBody (example_request forwarded_header) = ''A''" by (simp add: example_request_def)
  have all: "(\<forall>q \<in> set (toVLLM example_served). for_vllm example_proxy (example_request forwarded_header) ''A'' q)
      \<and> length (toVLLM example_served) \<le> 1"
    using vllm_request_shape [OF wf, of example_env example_json example_sha "example_ring [''p1'', ''p2'']"
        "NewForwarder answering 1" example_proxy example_manager empty_disk]
    unfolding body example_served_def by blast
  then obtain q where "toVLLM example_served = [q]"
    using example_served_sent by (cases "toVLLM example_served") auto
  then show ?thesis using all by simp
qed

text \<open>A body over the limit is refused with status 400 before anything happens: nothing is sent, recorded
  or started, and the cache is untouched.\<close>

theorem oversized_body_refused:
  assumes "maxBodySize < length (reqBody r)"
  shows "ServeHTTP e json sha ring f p r m fs = served_start m fs\<lparr>servedReply :=
    Some (http_error (''request body too large (max '' @ utoa maxBodySize @ '' bytes)'') 400)\<rparr>"
proof -
  have "read_body r = Inr (take (maxBodySize + 1) (reqBody r))" using assms by (simp add: read_body_def)
  moreover have "maxBodySize < length (take (maxBodySize + 1) (reqBody r))" using assms by simp
  ultimately have "ExtractRequestInfo json r (hashOn p)
      = Inl (Errorf (''request body too large (max '' @ utoa maxBodySize @ '' bytes)''))"
    by (simp add: ExtractRequestInfo_def del: length_take)
  then show ?thesis by (simp add: ServeHTTP_def served_start_def)
qed

lemma oversized_body_refused_witness:
  "toVLLM (ServeHTTP example_env example_json example_sha (example_ring [''p1'', ''p2'']) (NewForwarder answering 1) example_proxy
     (example_request []\<lparr>reqBody := replicate (maxBodySize + 1) CHR ''x''\<rparr>) example_manager empty_disk) = []"
  using oversized_body_refused [of "example_request []\<lparr>reqBody := replicate (maxBodySize + 1) CHR ''x''\<rparr>"]
  by simp

text \<open>The query string of a request never reaches a peer: what is forwarded does not depend on it.\<close>

theorem forwarding_drops_query:
  "toPeers (ServeHTTP e json sha ring f p (r\<lparr>reqQuery := query\<rparr>) m fs) = toPeers (ServeHTTP e json sha ring f p r m fs)"
proof -
  have same: "reqHeader (r\<lparr>reqQuery := query\<rparr>) = reqHeader r" "reqBody (r\<lparr>reqQuery := query\<rparr>) = reqBody r"
    "reqBodyErr (r\<lparr>reqQuery := query\<rparr>) = reqBodyErr r" "reqMethod (r\<lparr>reqQuery := query\<rparr>) = reqMethod r"
    "reqPath (r\<lparr>reqQuery := query\<rparr>) = reqPath r"
    by simp_all
  have info: "ExtractRequestInfo json (r\<lparr>reqQuery := query\<rparr>) (hashOn p) = ExtractRequestInfo json r (hashOn p)"
    unfolding ExtractRequestInfo_def read_body_def same ..
  show ?thesis
    unfolding ServeHTTP_def info same by (simp add: Let_def locally_peers split: sum.split prod.split)
qed

end
