(* ===== verification/GoParse.thy ===== *)
theory GoParse
  imports Http
begin

text \<open>
  Parsing of numbers as Go's standard library does it: \<open>fmt.Sscanf(s, "%d", &n)\<close> for an \<open>int64\<close> and
  \<open>time.ParseDuration\<close>, with the quoting of their error texts.  A fraction in a duration is
  multiplied exactly (Go multiplies in floating point), and white space is that of ASCII.
\<close>

section \<open>Decimal digits\<close>

definition digit_val :: "char \<Rightarrow> nat" where
  "digit_val c = byte c - 48"

definition digits_val :: "string \<Rightarrow> nat" where
  "digits_val ds = foldl (\<lambda>v c. v * 10 + digit_val c) 0 ds"

lemma digit_char [simp]:
  assumes "n < 10"
  shows "digit_val (char_of (48 + n)) = n" and "is_digit (char_of (48 + n))"
  using assms by (simp_all add: digit_val_def is_digit_def)

lemma digits_val_snoc [simp]: "digits_val (ds @ [c]) = digits_val ds * 10 + digit_val c"
  by (simp add: digits_val_def)

lemma digits_val_utoa [simp]: "digits_val (utoa n) = n"
proof (induction n rule: utoa.induct)
  case (1 n)
  show ?case
  proof (cases "n < 10")
    case True
    then show ?thesis by (simp add: utoa.simps [of n] digits_val_def)
  next
    case False
    then show ?thesis using 1 by (simp add: utoa.simps [of n])
  qed
qed

lemma utoa_digits: "list_all is_digit (utoa n)"
proof (induction n rule: utoa.induct)
  case (1 n)
  then show ?case by (cases "n < 10") (simp_all add: utoa.simps [of n])
qed

lemma utoa_ne [simp]: "utoa n \<noteq> []"
  by (simp add: utoa.simps [of n])

lemma takeWhile_digits:
  assumes "list_all is_digit ds" and "rest = [] \<or> \<not> is_digit (hd rest)"
  shows "takeWhile is_digit (ds @ rest) = ds" and "dropWhile is_digit (ds @ rest) = rest"
  using assms by (induction ds) (cases rest; auto)+

lemma utoa_hd: "is_digit (hd (utoa n))"
  using utoa_digits [of n] by (cases "utoa n") auto

lemma digit_not_space: "is_digit c \<Longrightarrow> \<not> is_space c \<and> c \<noteq> CHR 0x0A \<and> c \<noteq> CHR ''-'' \<and> c \<noteq> CHR ''+'' \<and> c \<noteq> CHR ''.''"
  by (auto simp: is_digit_def is_space_def)

section \<open>Sscanf with \<open>%d\<close>\<close>

text \<open>Leading white space is skipped; a newline there is an error.\<close>

fun skip_blanks :: "string \<Rightarrow> string option" where
  "skip_blanks [] = Some []"
| "skip_blanks (c # cs) =
     (if c = CHR 0x0A then None else if is_space c then skip_blanks cs else Some (c # cs))"

definition scan_sign :: "string \<Rightarrow> bool \<times> string" where
  "scan_sign s =
     (case s of [] \<Rightarrow> (False, [])
      | c # cs \<Rightarrow> if c = CHR ''-'' then (True, cs) else if c = CHR ''+'' then (False, cs) else (False, s))"

text \<open>What follows the digits is not looked at.\<close>

definition sscanf_int :: "string \<Rightarrow> int64 option" where
  "sscanf_int s =
     (case skip_blanks s of None \<Rightarrow> None
      | Some t \<Rightarrow>
          let (neg, u) = scan_sign t;
              ds = takeWhile is_digit u;
              v = (if neg then - int (digits_val ds) else int (digits_val ds))
          in if ds = [] \<or> v < - (2 ^ 63) \<or> 2 ^ 63 \<le> v then None else Some (word_of_int v))"

lemma scan_prefix_utoa: "skip_blanks (utoa n @ rest) = Some (utoa n @ rest)"
    "scan_sign (utoa n @ rest) = (False, utoa n @ rest)"
  using digit_not_space [OF utoa_hd [of n]]
  by (cases "utoa n"; simp add: scan_sign_def)+

lemma sscanf_utoa:
  assumes "rest = [] \<or> \<not> is_digit (hd rest)"
  shows "sscanf_int (utoa n @ rest) = (if n < 2 ^ 63 then Some (of_nat n) else None)"
  using takeWhile_digits(1) [OF utoa_digits assms, of n]
  by (simp add: sscanf_int_def scan_prefix_utoa Let_def)

section \<open>Quoting\<close>

definition hex_digit :: "nat \<Rightarrow> char" where
  "hex_digit n = ''0123456789abcdef'' ! (n mod 16)"

definition quote_char :: "char \<Rightarrow> string" where
  "quote_char c =
     (if byte c < 32 \<or> 128 \<le> byte c then [CHR 0x5C, CHR ''x'', hex_digit (byte c div 16), hex_digit (byte c)]
      else if c = CHR 0x22 \<or> c = CHR 0x5C then [CHR 0x5C, c] else [c])"

text \<open>\<open>quote\<close> of package \<open>time\<close>.\<close>

definition quote :: "string \<Rightarrow> string" where
  "quote s = CHR 0x22 # concat (map quote_char s) @ [CHR 0x22]"

section \<open>ParseDuration\<close>

text \<open>The units, in nanoseconds (the micro sign and the Greek letter mu are two bytes each).\<close>

definition unit_ns :: "string \<Rightarrow> nat option" where
  "unit_ns u =
     (if u = ''ns'' then Some 1
      else if u = ''us'' \<or> u = [CHR 0xC2, CHR 0xB5, CHR ''s''] \<or> u = [CHR 0xCE, CHR 0xBC, CHR ''s''] then Some (10 ^ 3)
      else if u = ''ms'' then Some (10 ^ 6)
      else if u = ''s'' then Some (10 ^ 9)
      else if u = ''m'' then Some (60 * 10 ^ 9)
      else if u = ''h'' then Some (3600 * 10 ^ 9)
      else None)"

text \<open>The digits of a fraction: value and scale, digits beyond 63 bits being dropped.\<close>

fun leading_fraction :: "string \<Rightarrow> nat \<Rightarrow> nat \<Rightarrow> nat \<times> nat" where
  "leading_fraction [] x scale = (x, scale)"
| "leading_fraction (c # cs) x scale =
     (if (2 ^ 63 - 1) div 10 < x \<or> 2 ^ 63 < x * 10 + digit_val c then (x, scale)
      else leading_fraction cs (x * 10 + digit_val c) (scale * 10))"

text \<open>One \<open>number unit\<close> term of a duration: its nanoseconds and the rest of the text.\<close>

definition duration_term :: "string \<Rightarrow> string \<Rightarrow> (nat \<times> string) res" where
  "duration_term orig s =
     (let ds = takeWhile is_digit s;
          s1 = dropWhile is_digit s;
          frac = (s1 \<noteq> [] \<and> hd s1 = CHR ''.'');
          fs = (if frac then takeWhile is_digit (tl s1) else []);
          s2 = (if frac then dropWhile is_digit (tl s1) else s1);
          (f, scale) = leading_fraction fs 0 1;
          u = takeWhile (\<lambda>c. c \<noteq> CHR ''.'' \<and> \<not> is_digit c) s2;
          s3 = dropWhile (\<lambda>c. c \<noteq> CHR ''.'' \<and> \<not> is_digit c) s2;
          invalid = Inl (Errorf (''time: invalid duration '' @ quote orig))
      in if 2 ^ 63 < digits_val ds \<or> (ds = [] \<and> fs = []) then invalid
         else if u = [] then Inl (Errorf (''time: missing unit in duration '' @ quote orig))
         else case unit_ns u of
           None \<Rightarrow> Inl (Errorf (''time: unknown unit '' @ quote u @ '' in duration '' @ quote orig))
         | Some ns \<Rightarrow>
             if 2 ^ 63 div ns < digits_val ds \<or> 2 ^ 63 < digits_val ds * ns + f * ns div scale then invalid
             else Inr (digits_val ds * ns + f * ns div scale, s3))"

lemma duration_term_shorter:
  assumes "duration_term orig s = Inr (v, s')"
  shows "length s' < length s"
proof -
  let ?P = "\<lambda>c. c \<noteq> CHR ''.'' \<and> \<not> is_digit c"
  obtain s2 where s2: "length s2 \<le> length s" "takeWhile ?P s2 \<noteq> []" "s' = dropWhile ?P s2"
  proof -
    let ?s1 = "dropWhile is_digit s"
    let ?s2 = "if ?s1 \<noteq> [] \<and> hd ?s1 = CHR ''.'' then dropWhile is_digit (tl ?s1) else ?s1"
    have "length ?s1 \<le> length s" by (rule length_dropWhile_le)
    moreover have "length (dropWhile is_digit (tl ?s1)) \<le> length (tl ?s1)" by (rule length_dropWhile_le)
    ultimately have "length ?s2 \<le> length s" by auto
    moreover have "takeWhile ?P ?s2 \<noteq> []" "s' = dropWhile ?P ?s2"
      using assms unfolding duration_term_def Let_def by (auto split: prod.splits if_splits option.splits)
    ultimately show thesis by (rule that)
  qed
  then have "length s2 = length (takeWhile ?P s2) + length s'"
    by (metis length_append takeWhile_dropWhile_id)
  then show ?thesis using s2(1,2) by (cases "takeWhile ?P s2") auto
qed

function duration_terms :: "string \<Rightarrow> string \<Rightarrow> nat \<Rightarrow> nat res" where
  "duration_terms orig s d =
     (if s = [] then Inr d
      else case duration_term orig s of
        Inl err \<Rightarrow> Inl err
      | Inr (v, s') \<Rightarrow>
          if 2 ^ 63 < d + v then Inl (Errorf (''time: invalid duration '' @ quote orig))
          else duration_terms orig s' (d + v))"
  by pat_completeness auto
termination
  by (relation "measure (\<lambda>(orig, s, d). length s)") (auto dest: duration_term_shorter)

declare duration_terms.simps [simp del]

definition ParseDuration :: "string \<Rightarrow> int64 res" where
  "ParseDuration s =
     (let (neg, t) = scan_sign s in
      if t = ''0'' then Inr 0
      else if t = [] then Inl (Errorf (''time: invalid duration '' @ quote s))
      else case duration_terms s t 0 of
        Inl err \<Rightarrow> Inl err
      | Inr d \<Rightarrow>
          if neg then Inr (- of_nat d)
          else if d = 2 ^ 63 then Inl (Errorf (''time: invalid duration '' @ quote s))
          else Inr (of_nat d))"

lemma duration_terms_le: "duration_terms orig s d = Inr e \<Longrightarrow> d \<le> 2 ^ 63 \<Longrightarrow> e \<le> 2 ^ 63"
proof (induction orig s d rule: duration_terms.induct)
  case (1 orig s d)
  show ?case
  proof (cases "s = []")
    case True
    then show ?thesis using "1.prems" by (simp add: duration_terms.simps [of orig "[]" d])
  next
    case False
    then obtain v s' where t: "duration_term orig s = Inr (v, s')" "\<not> 2 ^ 63 < d + v" "duration_terms orig s' (d + v) = Inr e"
      using "1.prems"(1) by (auto simp: duration_terms.simps [of orig s d] split: sum.splits prod.splits if_splits)
    show ?thesis using "1.IH" [OF False t(1) refl t(2,3)] t(2) by simp
  qed
qed

text \<open>A whole number and a unit.\<close>

lemma ParseDuration_simple:
  assumes "unit_ns u = Some ns" and "n * ns < 2 ^ 63" and "u \<noteq> []"
    and "\<forall>c \<in> set u. c \<noteq> CHR ''.'' \<and> \<not> is_digit c"
  shows "ParseDuration (utoa n @ u) = Inr (of_nat (n * ns))"
proof -
  have ns: "0 < ns" using assms(1) by (auto simp: unit_ns_def split: if_splits)
  have n: "n \<le> n * ns" using ns by simp
  let ?s = "utoa n @ u"
  have rest: "u = [] \<or> \<not> is_digit (hd u)" using assms(3,4) by (cases u) auto
  have no_frac: "hd u \<noteq> CHR ''.''" using assms(3,4) by (cases u) auto
  have u: "takeWhile (\<lambda>c. c \<noteq> CHR ''.'' \<and> \<not> is_digit c) u = u" "dropWhile (\<lambda>c. c \<noteq> CHR ''.'' \<and> \<not> is_digit c) u = []"
    using assms(4) by (simp_all add: takeWhile_eq_all_conv dropWhile_eq_Nil_conv)
  have div: "\<not> 2 ^ 63 div ns < n"
    using assms(2) ns by (simp add: div_less_iff_less_mult not_less less_eq_div_iff_mult_less_eq)
  have small: "\<not> 2 ^ 63 < n" "\<not> 2 ^ 63 < n * ns" using assms(2) n by linarith+
  have "duration_term ?s ?s = Inr (n * ns, [])"
    using takeWhile_digits [OF utoa_digits rest, of n] small div
    by (simp add: duration_term_def Let_def no_frac u assms(1,3))
  then have "duration_terms ?s ?s 0 = Inr (n * ns)"
    using small by (simp add: duration_terms.simps [of ?s ?s 0] duration_terms.simps [of ?s "[]"])
  moreover have "?s \<noteq> ''0''"
    using assms(3) by (cases "utoa n") auto
  ultimately show ?thesis using assms(2)
    by (simp add: ParseDuration_def scan_prefix_utoa)
qed

end
