(* ===== verification/GoUtf8.thy ===== *)
theory GoUtf8
  imports GoParse
begin

text \<open>
  UTF-8 as package \<open>unicode/utf8\<close> reads and writes it: the length of the code point at the head of a
  byte string, and the bytes of a code point.  Invalid bytes are read one at a time.
\<close>

section \<open>Reading\<close>

definition byte_in :: "nat \<Rightarrow> nat \<Rightarrow> string \<Rightarrow> nat \<Rightarrow> bool" where
  "byte_in lo hi s i \<longleftrightarrow> i < length s \<and> lo \<le> byte (s ! i) \<and> byte (s ! i) \<le> hi"

text \<open>The range of the second byte, by the first, and the number of bytes; 0 for a byte that starts nothing.\<close>

definition lead :: "nat \<Rightarrow> nat \<times> nat \<times> nat" where
  "lead b =
     (if b < 128 then (1, 0, 0)
      else if 194 \<le> b \<and> b \<le> 223 then (2, 128, 191)
      else if b = 224 then (3, 160, 191)
      else if b = 237 then (3, 128, 159)
      else if 225 \<le> b \<and> b \<le> 239 then (3, 128, 191)
      else if b = 240 then (4, 144, 191)
      else if 241 \<le> b \<and> b \<le> 243 then (4, 128, 191)
      else if b = 244 then (4, 128, 143)
      else (0, 0, 0))"

text \<open>The length of the code point at the head; 0 when there is none.\<close>

definition rune_len :: "string \<Rightarrow> nat" where
  "rune_len s =
     (case s of [] \<Rightarrow> 0
      | c # cs \<Rightarrow>
          (case lead (byte c) of (n, lo, hi) \<Rightarrow>
             if n \<le> 1 then n
             else if byte_in lo hi s 1 \<and> (n \<le> 2 \<or> byte_in 128 191 s 2) \<and> (n \<le> 3 \<or> byte_in 128 191 s 3) then n
             else 0))"

text \<open>The bytes of U+FFFD, which stand for what is invalid.\<close>

definition replacement :: string where
  "replacement = [CHR 0xEF, CHR 0xBF, CHR 0xBD]"

function valid_utf8 :: "string \<Rightarrow> bool" where
  "valid_utf8 s = (if s = [] then True else if rune_len s = 0 then False else valid_utf8 (drop (rune_len s) s))"
  by pat_completeness auto
termination by (relation "measure length") auto

declare valid_utf8.simps [simp del]

section \<open>Writing\<close>

text \<open>\<open>utf8.AppendRune\<close>: surrogates and what is no code point are replaced.\<close>

definition utf8_encode :: "nat \<Rightarrow> string" where
  "utf8_encode v =
     (if v < 0x80 then [char_of v]
      else if v < 0x800 then [char_of (192 + v div 64), char_of (128 + v mod 64)]
      else if (0xD800 \<le> v \<and> v < 0xE000) \<or> 0x10FFFF < v then replacement
      else if v < 0x10000 then [char_of (224 + v div 4096), char_of (128 + v div 64 mod 64), char_of (128 + v mod 64)]
      else [char_of (240 + v div 262144), char_of (128 + v div 4096 mod 64), char_of (128 + v div 64 mod 64), char_of (128 + v mod 64)])"

section \<open>Lemmas\<close>

lemma lead_le: "lead b = (n, lo, hi) \<Longrightarrow> n \<le> 4 \<and> (2 \<le> n \<longrightarrow> 128 \<le> lo \<and> 128 \<le> b)"
  by (auto simp: lead_def split: if_splits)

lemma rune_len_cases:
  assumes "rune_len (c # cs) = n" and "n \<noteq> 0"
  obtains (ascii) "n = 1" "byte c < 128"
  | (more) lo hi where "2 \<le> n" "n \<le> 4" "lead (byte c) = (n, lo, hi)" "128 \<le> byte c" "n \<le> length (c # cs)"
      "\<forall>x \<in> set (take n (c # cs)). 128 \<le> byte x"
proof -
  obtain k lo hi where l: "lead (byte c) = (k, lo, hi)" by (metis prod_cases3)
  note le = lead_le [OF l]
  show thesis
  proof (cases "k \<le> 1")
    case True
    then have "n = k" "n = 1" using assms l by (auto simp: rune_len_def)
    moreover have "byte c < 128" using l \<open>n = k\<close> \<open>n = 1\<close> by (auto simp: lead_def split: if_splits)
    ultimately show thesis using ascii by simp
  next
    case False
    then have n: "n = k" and b: "byte_in lo hi (c # cs) 1" "n \<le> 2 \<or> byte_in 128 191 (c # cs) 2" "n \<le> 3 \<or> byte_in 128 191 (c # cs) 3"
      using assms l by (auto simp: rune_len_def split: if_splits)
    have k: "2 \<le> n" "n \<le> 4" "128 \<le> lo" "128 \<le> byte c" using False le n by auto
    have nth: "128 \<le> byte ((c # cs) ! i)" if lt: "i < n" for i
    proof -
      consider "i = 0" | "i = 1" | "i = 2" | "i = 3" using lt k(2) by linarith
      then show ?thesis using k lt b by cases (auto simp: byte_in_def)
    qed
    have len: "n \<le> length (c # cs)"
    proof -
      consider "n = 2" | "n = 3" | "n = 4" using k by linarith
      then show ?thesis using b by cases (auto simp: byte_in_def Suc_le_eq)
    qed
    then have "\<forall>x \<in> set (take n (c # cs)). 128 \<le> byte x"
      using nth by (auto simp: in_set_conv_nth)
    then show thesis using more k l n len by blast
  qed
qed

lemma rune_len_le: "rune_len s \<le> length s"
proof (cases s)
  case Nil
  then show ?thesis by (simp add: rune_len_def)
next
  case (Cons c cs)
  show ?thesis
  proof (cases "rune_len s = 0")
    case False
    with Cons have "rune_len (c # cs) \<noteq> 0" by simp
    from rune_len_cases [OF refl this] show ?thesis unfolding Cons by (metis One_nat_def length_Cons less_eq_Suc_le zero_less_Suc)
  qed simp
qed

text \<open>The length depends on the code point only.\<close>

lemma rune_len_prefix:
  assumes "rune_len s = n" and "n \<noteq> 0"
  shows "rune_len (take n s @ t) = n"
proof -
  obtain c cs where s: "s = c # cs" using assms by (cases s) (auto simp: rune_len_def)
  from assms [unfolded s] show ?thesis
  proof (cases rule: rune_len_cases)
    case ascii
    then have "lead (byte c) = (1, 0, 0)" by (simp add: lead_def)
    then show ?thesis using ascii by (simp add: s rune_len_def)
  next
    case (more lo hi)
    have bi: "byte_in l h (take n s @ t) i = byte_in l h s i" if "i < n" for l h i
      using that more(5) by (simp add: byte_in_def s nth_append)
    have hd: "take n s @ t = c # (take (n - 1) cs @ t)" using more(1) by (cases n) (simp_all add: s)
    have b1: "byte_in l h (take n s @ t) (Suc 0) = byte_in l h s (Suc 0)" "byte_in l h (take n s @ t) 2 = byte_in l h s 2 \<or> n \<le> 2"
        "byte_in l h (take n s @ t) 3 = byte_in l h s 3 \<or> n \<le> 3" for l h
      using bi more(1) by auto
    show ?thesis using assms more(1,3) b1 [of lo hi] b1(2,3) [of 128 191] unfolding s hd [unfolded s]
      by (auto simp: rune_len_def split: if_splits)
  qed
qed

end
