(* ===== verification/GoJson.thy ===== *)
theory GoJson
  imports GoUtf8 Complex_Main
begin

text \<open>
  JSON as package \<open>encoding/json\<close> writes and reads it.  Writing escapes strings the way \<open>Marshal\<close> does
  (control bytes, quotes, \<open><\<close>, \<open>>\<close>, \<open>&\<close>, the two line separators; invalid bytes become U+FFFD).  Reading
  splits the text into tokens and runs them through a stack machine, as the package's scanner does; the
  whole text must be one value for \<open>Unmarshal\<close>, a \<open>Decoder\<close> takes the first one.  Numbers are
  rationals; the package's limit of 10000 on nesting is not modelled.
\<close>

section \<open>Values\<close>

datatype json =
    JNull
  | JStr string
  | JInt int
  | JNum rat
  | JBool bool
  | JArr "json list"
  | JObj "(string \<times> json) list"

text \<open>A Go map is written with its keys in order.\<close>

definition json_map :: "(string \<times> json) list \<Rightarrow> json" where
  "json_map ms = JObj (sort_key fst ms)"

section \<open>Writing\<close>

definition html_safe :: "char \<Rightarrow> bool" where
  "html_safe c \<longleftrightarrow> 32 \<le> byte c \<and> byte c < 128 \<and> c \<notin> {CHR 0x22, CHR 0x5C, CHR ''<'', CHR ''>'', CHR ''&''}"

definition escape_ascii :: "char \<Rightarrow> string" where
  "escape_ascii c =
     (if html_safe c then [c]
      else if c = CHR 0x22 \<or> c = CHR 0x5C then [CHR 0x5C, c]
      else if byte c = 8 then [CHR 0x5C, CHR ''b'']
      else if byte c = 12 then [CHR 0x5C, CHR ''f'']
      else if byte c = 10 then [CHR 0x5C, CHR ''n'']
      else if byte c = 13 then [CHR 0x5C, CHR ''r'']
      else if byte c = 9 then [CHR 0x5C, CHR ''t'']
      else [CHR 0x5C, CHR ''u'', CHR ''0'', CHR ''0'', hex_digit (byte c div 16), hex_digit (byte c)])"

definition escape_rune :: "string \<Rightarrow> string" where
  "escape_rune r =
     (if r = [CHR 0xE2, CHR 0x80, CHR 0xA8] then CHR 0x5C # ''u2028''
      else if r = [CHR 0xE2, CHR 0x80, CHR 0xA9] then CHR 0x5C # ''u2029'' else r)"

function escape :: "string \<Rightarrow> string" where
  "escape [] = []"
| "escape (c # cs) =
     (if byte c < 128 then escape_ascii c @ escape cs
      else let n = rune_len (c # cs)
           in if n = 0 then (CHR 0x5C # ''ufffd'') @ escape cs
              else escape_rune (take n (c # cs)) @ escape (drop n (c # cs)))"
  by pat_completeness auto
termination by (relation "measure length") auto

definition json_string :: "string \<Rightarrow> string" where
  "json_string s = CHR 0x22 # escape s @ [CHR 0x22]"

text \<open>A rational with a finite decimal expansion of at most 17 places, as \<open>strconv\<close> writes it without an exponent.\<close>

fun fraction_digits :: "nat \<Rightarrow> rat \<Rightarrow> string" where
  "fraction_digits 0 x = []"
| "fraction_digits (Suc n) x =
     (if x = 0 then [] else char_of (48 + nat \<lfloor>10 * x\<rfloor>) # fraction_digits n (10 * x - of_int \<lfloor>10 * x\<rfloor>))"

definition float_text :: "rat \<Rightarrow> string" where
  "float_text q =
     (let a = \<bar>q\<bar>; ds = fraction_digits 17 (a - of_int \<lfloor>a\<rfloor>)
      in (if q < 0 then ''-'' else []) @ utoa (nat \<lfloor>a\<rfloor>) @ (if ds = [] then [] else CHR ''.'' # ds))"

fun json_text :: "json \<Rightarrow> string" where
  "json_text JNull = ''null''"
| "json_text (JStr s) = json_string s"
| "json_text (JInt i) = itoa i"
| "json_text (JNum q) = float_text q"
| "json_text (JBool b) = (if b then ''true'' else ''false'')"
| "json_text (JArr vs) = ''['' @ join_with CHR '','' (map json_text vs) @ '']''"
| "json_text (JObj ms) = ''{'' @ join_with CHR '','' (map (\<lambda>(k, v). json_string k @ '':'' @ json_text v) ms) @ ''}''"

section \<open>Tokens\<close>

text \<open>The inside of a string as it stands in the text, up to the closing quote, and what follows it.\<close>

definition hex_val :: "char \<Rightarrow> nat option" where
  "hex_val c =
     (if is_digit c then Some (byte c - 48)
      else if 97 \<le> byte c \<and> byte c \<le> 102 then Some (byte c - 87)
      else if 65 \<le> byte c \<and> byte c \<le> 70 then Some (byte c - 55) else None)"

definition four_hex :: "string \<Rightarrow> nat option" where
  "four_hex s =
     (case map hex_val (take 4 s) of
        [Some a, Some b, Some c, Some d] \<Rightarrow> Some (4096 * a + 256 * b + 16 * c + d) | _ \<Rightarrow> None)"

fun lex_string :: "string \<Rightarrow> (string \<times> string) option" where
  "lex_string [] = None"
| "lex_string (c # cs) =
     (if c = CHR 0x22 then Some ([], cs)
      else if byte c < 32 then None
      else if c = CHR 0x5C then
        (case cs of [] \<Rightarrow> None
         | d # ds \<Rightarrow>
             if d = CHR ''u'' \<and> four_hex ds = None \<or> d \<notin> set [CHR ''b'', CHR ''f'', CHR ''n'', CHR ''r'', CHR ''t'', CHR 0x5C, CHR ''/'', CHR 0x22, CHR ''u'']
             then None
             else map_option (\<lambda>(raw, rest). (c # d # raw, rest)) (lex_string ds))
      else map_option (\<lambda>(raw, rest). (c # raw, rest)) (lex_string cs))"

definition escaped_char :: "char \<Rightarrow> char" where
  "escaped_char d =
     (if d = CHR ''b'' then CHR 0x08 else if d = CHR ''f'' then CHR 0x0C else if d = CHR ''n'' then CHR 0x0A
      else if d = CHR ''r'' then CHR 0x0D else if d = CHR ''t'' then CHR 0x09 else d)"

definition is_surrogate :: "nat \<Rightarrow> bool" where
  "is_surrogate v \<longleftrightarrow> 0xD800 \<le> v \<and> v < 0xE000"

text \<open>The second half of a surrogate pair, if one follows.\<close>

definition low_half :: "nat \<Rightarrow> string \<Rightarrow> nat option" where
  "low_half v s =
     (if v < 0xDC00 \<and> take 2 s = [CHR 0x5C, CHR ''u''] then
        (case four_hex (drop 2 s) of Some w \<Rightarrow> (if 0xDC00 \<le> w \<and> w < 0xE000 then Some w else None) | None \<Rightarrow> None)
      else None)"

text \<open>A backslash before a byte that is not ASCII, which the scanner lets through nowhere, stands for itself.\<close>

function unescape :: "string \<Rightarrow> string" where
  "unescape [] = []"
| "unescape (c # cs) =
     (if c = CHR 0x5C \<and> cs \<noteq> [] \<and> byte (hd cs) < 128 then
        (if hd cs = CHR ''u'' then
           (case four_hex (tl cs) of
              None \<Rightarrow> replacement @ unescape (tl cs)
            | Some v \<Rightarrow>
                if is_surrogate v then
                  (case low_half v (drop 5 cs) of
                     Some w \<Rightarrow> utf8_encode (0x10000 + (v - 0xD800) * 0x400 + (w - 0xDC00)) @ unescape (drop 11 cs)
                   | None \<Rightarrow> replacement @ unescape (drop 5 cs))
                else utf8_encode v @ unescape (drop 5 cs))
         else escaped_char (hd cs) # unescape (tl cs))
      else if byte c < 128 then c # unescape cs
      else let n = rune_len (c # cs)
           in if n = 0 then replacement @ unescape cs else take n (c # cs) @ unescape (drop n (c # cs)))"
  by pat_completeness auto
termination by (relation "measure length") auto

text \<open>A number: an integer when it has neither a fraction nor an exponent.\<close>

definition fraction_val :: "string \<Rightarrow> rat" where
  "fraction_val ds = foldr (\<lambda>c v. (of_nat (digit_val c) + v) / 10) ds 0"

definition lex_exponent :: "string \<Rightarrow> (int option \<times> string) option" where
  "lex_exponent s =
     (if s \<noteq> [] \<and> (hd s = CHR ''e'' \<or> hd s = CHR ''E'') then
        (case scan_sign (tl s) of
           (neg, t) \<Rightarrow>
             let ds = takeWhile is_digit t
             in if ds = [] then None
                else Some (Some (if neg then - int (digits_val ds) else int (digits_val ds)), dropWhile is_digit t))
      else Some (None, s))"

definition power_ten :: "int \<Rightarrow> rat" where
  "power_ten k = (if k < 0 then 1 / 10 ^ nat (- k) else 10 ^ nat k)"

definition lex_number :: "string \<Rightarrow> (json \<times> string) option" where
  "lex_number s =
     (let neg = (s \<noteq> [] \<and> hd s = CHR ''-''); t = (if neg then tl s else s);
          ds = (if t \<noteq> [] \<and> hd t = CHR ''0'' then [hd t] else takeWhile is_digit t); u = drop (length ds) t
      in if ds = [] then None
         else
           let frac = (u \<noteq> [] \<and> hd u = CHR ''.''); fs = (if frac then takeWhile is_digit (tl u) else []);
               w = (if frac then dropWhile is_digit (tl u) else u)
           in if frac \<and> fs = [] then None
              else case lex_exponent w of None \<Rightarrow> None
                | Some (ex, rest) \<Rightarrow>
                    let sgn = (if neg then - 1 else 1)
                    in Some (if \<not> frac \<and> ex = None then JInt (sgn * int (digits_val ds))
                             else JNum (of_int sgn * (of_nat (digits_val ds) + fraction_val fs)
                               * power_ten (case ex of None \<Rightarrow> 0 | Some k \<Rightarrow> k)), rest))"

datatype token = TOpenObj | TCloseObj | TOpenArr | TCloseArr | TColon | TComma | TStr string | TVal json | TBad

lemma lex_string_shorter: "lex_string s = Some (raw, rest) \<Longrightarrow> length rest < length s"
proof (induction s arbitrary: raw rest rule: lex_string.induct)
  case 1
  then show ?case by simp
next
  case (2 c cs)
  show ?case
  proof (cases "c = CHR 0x5C")
    case True
    then show ?thesis using 2 by (cases cs) (fastforce split: if_splits)+
  next
    case False
    then show ?thesis using 2 by (fastforce split: if_splits)
  qed
qed

lemma lex_exponent_rest: "lex_exponent s = Some (ex, rest) \<Longrightarrow> length rest \<le> length s"
proof -
  assume run: "lex_exponent s = Some (ex, rest)"
  obtain neg t where sg: "scan_sign (tl s) = (neg, t)" by fastforce
  have "scan_sign u = (n, v) \<Longrightarrow> length v \<le> length u" for u n v
    by (cases u) (auto simp: scan_sign_def split: if_splits)
  from this [OF sg] have "length t \<le> length s" by simp
  then show ?thesis using run sg length_dropWhile_le [of is_digit t]
    by (auto simp: lex_exponent_def Let_def split: if_splits)
qed

lemma lex_number_shorter: "lex_number s = Some (v, rest) \<Longrightarrow> length rest < length s"
proof -
  assume run: "lex_number s = Some (v, rest)"
  let ?t = "if s \<noteq> [] \<and> hd s = CHR ''-'' then tl s else s"
  let ?ds = "if ?t \<noteq> [] \<and> hd ?t = CHR ''0'' then [hd ?t] else takeWhile is_digit ?t"
  let ?u = "drop (length ?ds) ?t"
  obtain w ex where w: "lex_exponent w = Some (ex, rest)" "w = ?u \<or> w = dropWhile is_digit (tl ?u)" and ds: "?ds \<noteq> []"
    using run by (auto simp: lex_number_def Let_def split: if_splits option.splits)
  have "length w \<le> length ?u" using w(2) length_dropWhile_le [of is_digit "tl ?u"] by auto
  moreover have "length ?u < length ?t" using ds by (cases ?t) (auto split: if_splits)
  moreover have "length ?t \<le> length s" by simp
  ultimately show ?thesis using lex_exponent_rest [OF w(1)] by linarith
qed

definition json_space :: "char \<Rightarrow> bool" where
  "json_space c \<longleftrightarrow> byte c \<in> {9, 10, 13, 32}"

function tokens_of :: "string \<Rightarrow> token list" where
  "tokens_of [] = []"
| "tokens_of (c # cs) =
     (if json_space c then tokens_of cs
      else if c = CHR ''{'' then TOpenObj # tokens_of cs
      else if c = CHR ''}'' then TCloseObj # tokens_of cs
      else if c = CHR ''['' then TOpenArr # tokens_of cs
      else if c = CHR '']'' then TCloseArr # tokens_of cs
      else if c = CHR '':'' then TColon # tokens_of cs
      else if c = CHR '','' then TComma # tokens_of cs
      else if c = CHR 0x22 then
        (case lex_string cs of None \<Rightarrow> [TBad] | Some (raw, rest) \<Rightarrow> TStr (unescape raw) # tokens_of rest)
      else if c = CHR ''-'' \<or> is_digit c then
        (case lex_number (c # cs) of None \<Rightarrow> [TBad] | Some (v, rest) \<Rightarrow> TVal v # tokens_of rest)
      else if prefix ''true'' (c # cs) then TVal (JBool True) # tokens_of (drop 3 cs)
      else if prefix ''false'' (c # cs) then TVal (JBool False) # tokens_of (drop 4 cs)
      else if prefix ''null'' (c # cs) then TVal JNull # tokens_of (drop 3 cs)
      else [TBad])"
  by pat_completeness auto
termination
proof (relation "measure length", simp_all)
  fix c :: char and cs rest :: string and raw :: string and p
  assume "lex_string cs = Some p" and "(raw, rest) = p"
  then show "length rest < Suc (length cs)" using lex_string_shorter by (metis less_SucI)
next
  fix c :: char and cs rest :: string and v :: json and p
  assume "lex_number (c # cs) = Some p" and "(v, rest) = p"
  then show "length rest < Suc (length cs)" using lex_number_shorter by (metis length_Cons)
qed

section \<open>The machine\<close>

text \<open>What is open around the place of reading: an array with its elements so far, an object with its members and a key.\<close>

datatype frame = InArr "json list" | InObj "(string \<times> json) list" string

datatype pstate =
    Want "frame list"
  | WantElem "frame list"
  | InArray "json list" "frame list"
  | WantFirstKey "frame list"
  | WantKey "(string \<times> json) list" "frame list"
  | WantColon "(string \<times> json) list" string "frame list"
  | InObject "(string \<times> json) list" "frame list"
  | Done json

fun complete_value :: "json \<Rightarrow> frame list \<Rightarrow> pstate" where
  "complete_value v [] = Done v"
| "complete_value v (InArr vs # fs) = InArray (vs @ [v]) fs"
| "complete_value v (InObj ms k # fs) = InObject (ms @ [(k, v)]) fs"

fun begin_value :: "frame list \<Rightarrow> token \<Rightarrow> pstate option" where
  "begin_value fs TOpenObj = Some (WantFirstKey fs)"
| "begin_value fs TOpenArr = Some (WantElem fs)"
| "begin_value fs (TStr s) = Some (complete_value (JStr s) fs)"
| "begin_value fs (TVal v) = Some (complete_value v fs)"
| "begin_value fs _ = None"

fun parse_step :: "pstate \<Rightarrow> token \<Rightarrow> pstate option" where
  "parse_step (Want fs) t = begin_value fs t"
| "parse_step (WantElem fs) t = (if t = TCloseArr then Some (complete_value (JArr []) fs) else begin_value (InArr [] # fs) t)"
| "parse_step (InArray vs fs) t =
     (if t = TComma then Some (Want (InArr vs # fs)) else if t = TCloseArr then Some (complete_value (JArr vs) fs) else None)"
| "parse_step (WantFirstKey fs) t =
     (if t = TCloseObj then Some (complete_value (JObj []) fs) else case t of TStr k \<Rightarrow> Some (WantColon [] k fs) | _ \<Rightarrow> None)"
| "parse_step (WantKey ms fs) t = (case t of TStr k \<Rightarrow> Some (WantColon ms k fs) | _ \<Rightarrow> None)"
| "parse_step (WantColon ms k fs) t = (if t = TColon then Some (Want (InObj ms k # fs)) else None)"
| "parse_step (InObject ms fs) t =
     (if t = TComma then Some (WantKey ms fs) else if t = TCloseObj then Some (complete_value (JObj ms) fs) else None)"
| "parse_step (Done v) t = None"

fun parse_all :: "pstate \<Rightarrow> token list \<Rightarrow> json option" where
  "parse_all st [] = (case st of Done v \<Rightarrow> Some v | _ \<Rightarrow> None)"
| "parse_all st (t # ts) = (case parse_step st t of None \<Rightarrow> None | Some st' \<Rightarrow> parse_all st' ts)"

fun parse_first :: "pstate \<Rightarrow> token list \<Rightarrow> json option" where
  "parse_first (Done v) ts = Some v"
| "parse_first st [] = None"
| "parse_first st (t # ts) = (case parse_step st t of None \<Rightarrow> None | Some st' \<Rightarrow> parse_first st' ts)"

text \<open>\<open>Unmarshal\<close> and \<open>Decoder.Decode\<close>, up to the type of the target.\<close>

definition unmarshal :: "string \<Rightarrow> json option" where
  "unmarshal s = parse_all (Want []) (tokens_of s)"

definition decode_first :: "string \<Rightarrow> json option" where
  "decode_first s = parse_first (Want []) (tokens_of s)"

end
