(* ===== verification/Admin.thy ===== *)
theory Admin
  imports Proxy GoJson
begin

text \<open>
  \<open>internal/admin/handler.go\<close>: the administration interface.  JSON documents are values of
  \<open>GoJson\<close>; their text and the decoding of the two request bodies are parameters, which \<open>Codecs\<close>
  instantiates.  Evicting an
  adapter starts one goroutine per other peer; the result lists them (peer and body), and
  \<open>send_evict\<close> is what each does.  Every adapter of a warm-up is ensured at a time of its own.
\<close>

record admin_result =
  aReply :: reply
  aMgr :: Manager
  aDisk :: fs
  aMetrics :: metrics
  aTasks :: "task list"
  aBroadcast :: "(Peer \<times> string) list"

text \<open>The JSON package: \<open>jEncode\<close> is \<open>Marshal\<close>, the decoders read the bodies of evict and warm-up.\<close>

record json_codec =
  jEncode :: "json \<Rightarrow> string"
  jEvict :: "string \<Rightarrow> string option"
  jWarmup :: "string \<Rightarrow> string list option"

definition json_reply :: "json_codec \<Rightarrow> json \<Rightarrow> reply" where
  "json_reply j v =
     \<lparr>replyStatus = 200, replyHeader = header_set ''Content-Type'' ''application/json'' [],
      replyBody = jEncode j v @ [CHR 0x0A]\<rparr>"

definition cacheStats :: "json_codec \<Rightarrow> Manager \<Rightarrow> reply" where
  "cacheStats j m =
     json_reply j (json_map
       [(''items'', JInt (int (lru_len (lru (store m))))),
        (''size'', JInt (sint (lru_size (lru (store m))))),
        (''max_size'', JInt (sint (lru_maxSize (lru (store m))))),
        (''dir'', JStr (BasePath (store m)))])"

definition admin_peers :: "json_codec \<Rightarrow> Ring \<Rightarrow> reply" where
  "admin_peers j r =
     (let result = map (\<lambda>p. json_map [(''addr'', JStr (Addr p)), (''load'', JNum (Load p)), (''self'', JBool (IsSelf (Some p) r))]) (Peers r)
      in json_reply j (json_map [(''peers'', JArr result), (''self'', JStr (Self r)), (''count'', JInt (int (length result)))]))"

definition evict_body :: "json_codec \<Rightarrow> string \<Rightarrow> string" where
  "evict_body j aid = jEncode j (JObj [(''adapter'', JStr aid)])"

definition admin_evict :: "env \<Rightarrow> json_codec \<Rightarrow> Ring \<Rightarrow> request \<Rightarrow> Manager \<Rightarrow> fs \<Rightarrow> admin_result" where
  "admin_evict e j ring r m fs =
     (let result = (\<lambda>rep m' fs' bs. \<lparr>aReply = rep, aMgr = m', aDisk = fs', aMetrics = [], aTasks = [], aBroadcast = bs\<rparr>)
      in case jEvict j (reqBody r) of
           None \<Rightarrow> result (http_error ''invalid json'' 400) m fs []
         | Some adapter \<Rightarrow>
             if adapter = [] then result (http_error ''adapter field required'' 400) m fs []
             else case EvictAdapter e m adapter fs of
               (Inl err, m', fs') \<Rightarrow> result (http_error (error_text err) 500) m' fs' []
             | (Inr _, m', fs') \<Rightarrow>
                 let isForwarded = (header_get (reqHeader r) HeaderForwarded = ''true'');
                     others = filter (\<lambda>p. \<not> IsSelf (Some p) ring) (Peers ring)
                 in result (json_reply j (json_map [(''status'', JStr ''evicted''), (''adapter'', JStr adapter)])) m' fs'
                      (if isForwarded then [] else map (\<lambda>p. (p, evict_body j adapter)) others))"

definition send_evict :: "Forwarder \<Rightarrow> Peer \<times> string \<Rightarrow> response res \<times> sent_request list" where
  "send_evict f t = Forward f (fst t) ''POST'' ''/admin/cache/evict'' (snd t) [(HeaderForwarded, [''true''])]"

text \<open>The loop of the warm-up: adapter \<open>i\<close> is ensured in environment \<open>es i\<close>.\<close>

fun warmup_loop :: "(nat \<Rightarrow> env) \<Rightarrow> nat \<Rightarrow> string list \<Rightarrow> Manager \<Rightarrow> fs \<Rightarrow>
    (string \<times> string) list \<times> Manager \<times> fs \<times> metrics \<times> task list" where
  "warmup_loop es i [] m fs = ([], m, fs, [], [])"
| "warmup_loop es i (aid # aids) m fs =
     (case EnsureAdapter (es i) m aid fs of
        (res, m1, fs1, ms1, ts1) \<Rightarrow>
          let status = (case res of Inl err \<Rightarrow> ''error: '' @ error_text err | Inr _ \<Rightarrow> ''ok'')
          in (case warmup_loop es (i + 1) aids m1 fs1 of
                (rs, m2, fs2, ms2, ts2) \<Rightarrow> ((aid, status) # rs, m2, fs2, ms1 @ ms2, ts1 @ ts2)))"

definition admin_warmup :: "(nat \<Rightarrow> env) \<Rightarrow> json_codec \<Rightarrow> request \<Rightarrow> Manager \<Rightarrow> fs \<Rightarrow> admin_result" where
  "admin_warmup es j r m fs =
     (case jWarmup j (reqBody r) of
        None \<Rightarrow> \<lparr>aReply = http_error ''invalid json'' 400, aMgr = m, aDisk = fs, aMetrics = [], aTasks = [], aBroadcast = []\<rparr>
      | Some adapters \<Rightarrow>
          (case warmup_loop es 0 adapters m fs of
             (rs, m', fs', ms, ts) \<Rightarrow>
               \<lparr>aReply = json_reply j (json_map [(''results'', JArr (map (\<lambda>(a, s). json_map [(''adapter'', JStr a), (''status'', JStr s)]) rs))]),
                aMgr = m', aDisk = fs', aMetrics = ms, aTasks = ts, aBroadcast = []\<rparr>))"

definition admin_ServeHTTP :: "(nat \<Rightarrow> env) \<Rightarrow> json_codec \<Rightarrow> Ring \<Rightarrow> request \<Rightarrow> Manager \<Rightarrow> fs \<Rightarrow> admin_result" where
  "admin_ServeHTTP es j ring r m fs =
     (let only = (\<lambda>rep. \<lparr>aReply = rep, aMgr = m, aDisk = fs, aMetrics = [], aTasks = [], aBroadcast = []\<rparr>)
      in if reqMethod r = ''GET'' \<and> reqPath r = ''/admin/cache/stats'' then only (cacheStats j m)
         else if reqMethod r = ''GET'' \<and> reqPath r = ''/admin/peers'' then only (admin_peers j ring)
         else if reqMethod r = ''POST'' \<and> reqPath r = ''/admin/cache/evict'' then admin_evict (es 0) j ring r m fs
         else if reqMethod r = ''POST'' \<and> reqPath r = ''/admin/cache/warmup'' then admin_warmup es j r m fs
         else only (http_error ''404 page not found'' 404))"

section \<open>The cache under the administration interface\<close>

text \<open>A system of the cache after some calls of its interface.\<close>

definition after :: "cache_system \<Rightarrow> Manager \<Rightarrow> fs \<Rightarrow> task list \<Rightarrow> metrics \<Rightarrow> cache_system" where
  "after c m fs ts ms = \<lparr>mgr = m, disk = fs, pending = pending c @ ts, logged = logged c @ ms\<rparr>"

lemma after_Nil [simp]: "after c (mgr c) (disk c) [] [] = c"
  by (simp add: after_def)

lemma warmup_steps:
  "warmup_loop es i aids (mgr c) (disk c) = (rs, m', fs', ms, ts) \<Longrightarrow> cache_step\<^sup>*\<^sup>* c (after c m' fs' ts ms)"
proof (induction aids arbitrary: i c rs m' fs' ms ts)
  case Nil
  then have "m' = mgr c" "fs' = disk c" "ms = []" "ts = []" by simp_all
  then show ?case by simp
next
  case (Cons aid aids)
  obtain res m1 fs1 ms1 ts1 where one: "EnsureAdapter (es i) (mgr c) aid (disk c) = (res, m1, fs1, ms1, ts1)"
    by (metis prod.collapse)
  let ?c1 = "after c m1 fs1 ts1 ms1"
  obtain rs2 m2 fs2 ms2 ts2 where rest: "warmup_loop es (i + 1) aids (mgr ?c1) (disk ?c1) = (rs2, m2, fs2, ms2, ts2)"
    by (metis prod.collapse)
  have "cache_step c ?c1" unfolding after_def by (rule cache_step.Ensure [OF one])
  moreover have "cache_step\<^sup>*\<^sup>* ?c1 (after ?c1 m2 fs2 ts2 ms2)" by (rule Cons.IH [OF rest])
  moreover have "after ?c1 m2 fs2 ts2 ms2 = after c m' fs' ts ms"
    using Cons.prems one rest by (simp add: after_def Let_def)
  ultimately show ?case by simp
qed

lemma warmup_results:
  "warmup_loop es i aids m fs = (rs, m', fs', ms, ts) \<Longrightarrow> map fst rs = aids"
  by (induction aids arbitrary: i m fs rs m' fs' ms ts) (auto simp: Let_def split: prod.splits)

lemma admin_steps:
  assumes "admin_ServeHTTP es j ring r (mgr c) (disk c) = out"
  shows "cache_step\<^sup>*\<^sup>* c (after c (aMgr out) (aDisk out) (aTasks out) (aMetrics out))"
proof -
  have ev: "cache_step\<^sup>*\<^sup>* c (after c m' fs' [] [])" if "EvictAdapter (es 0) (mgr c) a (disk c) = (u, m', fs')" for a u m' fs'
    using cache_step.Evict [OF that] by (simp add: after_def r_into_rtranclp)
  show ?thesis unfolding assms [symmetric]
    using warmup_steps [of es 0 _ c] ev
    by (auto simp: admin_ServeHTTP_def admin_evict_def admin_warmup_def Let_def split: option.split sum.split prod.split)
qed

section \<open>Properties\<close>

lemma evict_header_wf: "header_wf [(HeaderForwarded, [''true''])]"
proof -
  have "canonical HeaderForwarded = HeaderForwarded" by code_simp
  then show ?thesis by (simp add: header_wf_def)
qed

lemma evict_dispatch:
  assumes "reqMethod r = ''POST''" and "reqPath r = ''/admin/cache/evict''"
  shows "admin_ServeHTTP es j ring r m fs = admin_evict (es 0) j ring r m fs"
  using assms by (simp add: admin_ServeHTTP_def Let_def)

lemma send_evict_sent:
  assumes "q \<in> set (snd (send_evict f t))"
  shows "sentTo q = Addr (fst t) \<and> relayed ''POST'' ''/admin/cache/evict'' (snd t) [(HeaderForwarded, [''true''])] q"
proof -
  obtain res sent where run: "send_evict f t = (res, sent)" by fastforce
  have "Forward f (fst t) ''POST'' ''/admin/cache/evict'' (snd t) [(HeaderForwarded, [''true''])] = (res, sent)"
    using run by (simp add: send_evict_def)
  then show ?thesis using evict_header_wf by (cases rule: Forward_cases) (use assms run in auto)
qed

text \<open>Evicting an adapter through one node evicts it on every node, once: when the eviction succeeds the
  node sends it to every other peer it knows and to no one else, and a peer that receives it evicts the
  same adapter from its own cache and sends it no further.\<close>

theorem evict_reaches_every_peer_once:
  assumes codec: "jEvict j (evict_body j adapter) = Some adapter"
    and req: "reqMethod r = ''POST''" "reqPath r = ''/admin/cache/evict''" "jEvict j (reqBody r) = Some adapter" "adapter \<noteq> []"
      "\<not> marked r"
    and ok: "EvictAdapter (es 0) m adapter fs = (Inr u, m', fs')"
  shows "map fst (aBroadcast (admin_ServeHTTP es j ring r m fs)) = filter (\<lambda>p. Addr p \<noteq> self ring) (Peers ring)
    \<and> (\<forall>t \<in> set (aBroadcast (admin_ServeHTTP es j ring r m fs)). \<forall>q \<in> set (snd (send_evict f t)).
        sentTo q = Addr (fst t)
        \<and> (\<forall>r' es' ring' m2 fs2.
            reqMethod r' = sentMethod q \<and> reqPath r' = sentPath q \<and> reqHeader r' = sentHeader q \<and> reqBody r' = sentBody q \<longrightarrow>
            aBroadcast (admin_ServeHTTP es' j ring' r' m2 fs2) = []
            \<and> (aMgr (admin_ServeHTTP es' j ring' r' m2 fs2), aDisk (admin_ServeHTTP es' j ring' r' m2 fs2))
              = snd (EvictAdapter (es' 0) m2 adapter fs2)))"
proof -
  have bc: "aBroadcast (admin_ServeHTTP es j ring r m fs)
      = map (\<lambda>p. (p, evict_body j adapter)) (filter (\<lambda>p. Addr p \<noteq> self ring) (Peers ring))"
    using req(5) by (simp add: evict_dispatch [OF req(1,2)] admin_evict_def req(3,4) ok marked_def Let_def IsSelf_def)
  have recv: "aBroadcast (admin_ServeHTTP es' j ring' r' m2 fs2) = []
      \<and> (aMgr (admin_ServeHTTP es' j ring' r' m2 fs2), aDisk (admin_ServeHTTP es' j ring' r' m2 fs2))
        = snd (EvictAdapter (es' 0) m2 adapter fs2)"
    if rel: "relayed ''POST'' ''/admin/cache/evict'' (evict_body j adapter) [(HeaderForwarded, [''true''])] q"
      and r': "reqMethod r' = sentMethod q" "reqPath r' = sentPath q" "reqHeader r' = sentHeader q" "reqBody r' = sentBody q"
    for q r' es' ring' m2 fs2
  proof -
    have "header_get (reqHeader r') HeaderForwarded = ''true''" using rel r'(3) by (simp add: relayed_def header_get_def)
    moreover have "admin_ServeHTTP es' j ring' r' m2 fs2 = admin_evict (es' 0) j ring' r' m2 fs2"
      using rel r'(1,2) by (intro evict_dispatch) (simp_all add: relayed_def)
    moreover have "jEvict j (reqBody r') = Some adapter" using rel r'(4) codec by (simp add: relayed_def)
    ultimately show ?thesis using req(4)
      by (cases "EvictAdapter (es' 0) m2 adapter fs2") (auto simp: admin_evict_def Let_def split: sum.split)
  qed
  have each: "sentTo q = Addr (fst t) \<and> relayed ''POST'' ''/admin/cache/evict'' (evict_body j adapter) [(HeaderForwarded, [''true''])] q"
    if "t \<in> set (aBroadcast (admin_ServeHTTP es j ring r m fs))" "q \<in> set (snd (send_evict f t))" for t q
    using that send_evict_sent [OF that(2)] by (auto simp: bc)
  show ?thesis
  proof (intro conjI ballI allI impI)
    show "map fst (aBroadcast (admin_ServeHTTP es j ring r m fs)) = filter (\<lambda>p. Addr p \<noteq> self ring) (Peers ring)"
      by (simp add: bc comp_def)
  qed (use each recv in blast)+
qed

definition example_codec :: json_codec where
  "example_codec = \<lparr>jEncode = (\<lambda>v. case v of JObj [(k, JStr s)] \<Rightarrow> s | _ \<Rightarrow> []), jEvict = Some, jWarmup = (\<lambda>b. None)\<rparr>"

lemma evict_reaches_every_peer_once_witness:
  "map (Addr \<circ> fst) (aBroadcast (admin_ServeHTTP (\<lambda>i. example_env) example_codec (example_ring [''p1'', ''p2''])
     \<lparr>reqMethod = ''POST'', reqPath = ''/admin/cache/evict'', reqQuery = [], reqHeader = [], reqBody = ''a'', reqBodyErr = None, reqGone = False\<rparr>
     example_manager empty_disk)) = [''p2'']"
proof -
  let ?r = "\<lparr>reqMethod = ''POST'', reqPath = ''/admin/cache/evict'', reqQuery = [], reqHeader = [], reqBody = ''a'',
    reqBodyErr = None, reqGone = False\<rparr>"
  have codec: "jEvict example_codec (evict_body example_codec ''a'') = Some ''a''"
    by (simp add: example_codec_def evict_body_def)
  have r: "reqMethod ?r = ''POST''" "reqPath ?r = ''/admin/cache/evict''" "jEvict example_codec (reqBody ?r) = Some ''a''" "''a'' \<noteq> []"
    "\<not> marked ?r"
    by (simp_all add: example_codec_def marked_def header_get_def header_values_def)
  obtain m' fs' where ok: "EvictAdapter example_env example_manager ''a'' empty_disk = (Inr (), m', fs')"
  proof -
    have "isl (fst (EvictAdapter example_env example_manager ''a'' empty_disk)) = False" by code_simp
    then show thesis using that by (cases "EvictAdapter example_env example_manager ''a'' empty_disk"; case_tac a) auto
  qed
  have peers: "filter (\<lambda>p. Addr p \<noteq> self (example_ring [''p1'', ''p2''])) (Peers (example_ring [''p1'', ''p2''])) = [\<lparr>Addr = ''p2'', Load = 0\<rparr>]"
    unfolding example_ring_value by (simp add: Peers_def)
  from evict_reaches_every_peer_once [of example_codec "''a''" ?r "\<lambda>i. example_env" example_manager empty_disk "()" m' fs', OF codec r ok]
  show ?thesis by (simp add: peers flip: map_map)
qed

end
