(* ===== verification/Health.thy ===== *)
theory Health
  imports Forwarder Metrics
begin

text \<open>
  \<open>internal/health/checker.go\<close>: the count of requests being served, the load computed from it, and
  the rounds in which a node asks vLLM and its peers how they are and stores the peers' loads in its
  ring.  The check of one peer is a goroutine: a round gives the list of checks, which may run in any
  order.  Decoding the answer of a peer is a parameter, and so is the encoding of this node's answer
  (\<open>Codecs\<close> has both).
\<close>

section \<open>State\<close>

record Checker =
  cSelfAddr :: string
  cVllmURL :: string
  cInterval :: int64
  cClient :: http_client
  vllmHealthy :: bool
  pendingCount :: int64

definition NewChecker :: "http_client \<Rightarrow> string \<Rightarrow> string \<Rightarrow> int64 \<Rightarrow> Checker" where
  "NewChecker c addr url interval =
     \<lparr>cSelfAddr = addr, cVllmURL = url, cInterval = interval, cClient = c, vllmHealthy = True, pendingCount = 0\<rparr>"

record HealthResponse =
  hStatus :: string
  hLoad :: float64
  hPending :: int64
  hVLLM :: bool

section \<open>Pending requests and load\<close>

definition IncrPending :: "Checker \<Rightarrow> Checker" where
  "IncrPending c = c\<lparr>pendingCount := pendingCount c + 1\<rparr>"

definition DecrPending :: "Checker \<Rightarrow> Checker" where
  "DecrPending c = c\<lparr>pendingCount := pendingCount c + (- 1)\<rparr>"

definition Pending :: "Checker \<Rightarrow> int64" where
  "Pending c = pendingCount c"

definition checker_load :: "int64 \<Rightarrow> Checker \<Rightarrow> float64" where
  "checker_load maxConcurrent c =
     (let mc = (if maxConcurrent <=s 0 then 200 else maxConcurrent);
          load = of_int (sint (pendingCount c)) / of_int (sint mc)
      in if 1 < load then 1 else load)"

text \<open>The body of the answer on \<open>/healthz\<close>.\<close>

definition health_response :: "Checker \<Rightarrow> HealthResponse" where
  "health_response c =
     \<lparr>hStatus = (if vllmHealthy c then ''ok'' else ''degraded''), hLoad = checker_load 200 c,
      hPending = pendingCount c, hVLLM = vllmHealthy c\<rparr>"

definition health_ServeHTTP :: "(HealthResponse \<Rightarrow> string) \<Rightarrow> Checker \<Rightarrow> reply" where
  "health_ServeHTTP enc c =
     \<lparr>replyStatus = 200, replyHeader = header_set ''Content-Type'' ''application/json'' [],
      replyBody = enc (health_response c) @ [CHR 0x0A]\<rparr>"

section \<open>Checks\<close>

definition checkVLLM :: "Checker \<Rightarrow> Checker \<times> metrics" where
  "checkVLLM c =
     (if cVllmURL c = [] then (c, [])
      else case newRequest (cClient c) ''GET'' (cVllmURL c @ ''/health'') of
        Some _ \<Rightarrow> (c, [])
      | None \<Rightarrow>
          let healthy = (case roundTrip (cClient c) ''GET'' (cVllmURL c @ ''/health'') [] [] of
                           Inl _ \<Rightarrow> False | Inr resp \<Rightarrow> respStatus resp = 200)
          in (c\<lparr>vllmHealthy := healthy\<rparr>, [GaugeSet ''loraplex_vllm_healthy'' [] (if healthy then 1 else 0)]))"

definition checkPeer :: "(string \<Rightarrow> HealthResponse option) \<Rightarrow> Checker \<Rightarrow> Peer \<Rightarrow> Ring \<Rightarrow> Ring" where
  "checkPeer dec c peer r =
     (let url = ''http://'' @ Addr peer @ ''/healthz''
      in case newRequest (cClient c) ''GET'' url of
           Some _ \<Rightarrow> r
         | None \<Rightarrow>
             (case roundTrip (cClient c) ''GET'' url [] [] of
                Inl _ \<Rightarrow> UpdatePeerLoad (Addr peer) 1 r
              | Inr resp \<Rightarrow>
                  (case dec (respBody resp) of
                     None \<Rightarrow> r
                   | Some status \<Rightarrow> UpdatePeerLoad (Addr peer) (hLoad status) r)))"

text \<open>A round: vLLM is asked at once; the checks of the other peers are started.\<close>

definition checkPeers :: "Checker \<Rightarrow> Ring \<Rightarrow> Checker \<times> metrics \<times> Peer list" where
  "checkPeers c r =
     (case checkVLLM c of (c', ms) \<Rightarrow> (c', ms, filter (\<lambda>p. Addr p \<noteq> cSelfAddr c) (Peers r)))"

section \<open>Loads\<close>

lemma sint_literal [simp]: "sint (200 :: int64) = 200"
  by simp

lemma checker_load_bounds:
  assumes "0 \<le> sint (pendingCount c)"
  shows "0 \<le> checker_load mc c \<and> checker_load mc c \<le> 1"
proof -
  have "(0 :: rat) \<le> of_int i / of_int j" if "0 \<le> i" "0 < j" for i j using that by simp
  moreover have "0 < sint (if mc <=s 0 then 200 else mc)" by (auto simp: sle_sint)
  ultimately have "(0 :: rat) \<le> of_int (sint (pendingCount c)) / of_int (sint (if mc <=s 0 then 200 else mc))"
    using assms by blast
  then show ?thesis by (auto simp: checker_load_def Let_def)
qed

lemma map_of_update_load [simp]:
  "map_of (peers (UpdatePeerLoad a l r)) b = (if b = a then map_option (\<lambda>p. p\<lparr>Load := l\<rparr>) (map_of (peers r) a) else map_of (peers r) b)"
  by (simp add: UpdatePeerLoad_def split: option.split)

lemma update_load_rest [simp]:
  "vnodes (UpdatePeerLoad a l r) = vnodes r" "vnodesPerPeer (UpdatePeerLoad a l r) = vnodesPerPeer r"
  "self (UpdatePeerLoad a l r) = self r"
  by (simp_all add: UpdatePeerLoad_def split: option.split)

lemma ring_inv_update_load [inv_intros]: "ring_inv r \<Longrightarrow> ring_inv (UpdatePeerLoad a l r)"
  by (auto simp: ring_inv_def)

text \<open>What a check finds out of a peer: its new load, from the old one.\<close>

definition measured :: "(string \<Rightarrow> HealthResponse option) \<Rightarrow> Checker \<Rightarrow> string \<Rightarrow> float64 \<Rightarrow> float64" where
  "measured dec c addr old =
     (let url = ''http://'' @ addr @ ''/healthz''
      in if newRequest (cClient c) ''GET'' url \<noteq> None then old
         else case roundTrip (cClient c) ''GET'' url [] [] of
           Inl _ \<Rightarrow> 1
         | Inr resp \<Rightarrow> (case dec (respBody resp) of None \<Rightarrow> old | Some status \<Rightarrow> hLoad status))"

lemma measured_idem [simp]: "measured dec c a (measured dec c a l) = measured dec c a l"
  by (simp add: measured_def Let_def split: sum.split option.split)

lemma checkPeer_peers:
  "map_of (peers (checkPeer dec c p r)) b =
     (if b = Addr p then map_option (\<lambda>q. q\<lparr>Load := measured dec c b (Load q)\<rparr>) (map_of (peers r) b) else map_of (peers r) b)"
  by (cases "map_of (peers r) b") (auto simp: checkPeer_def measured_def Let_def split: option.split sum.split)

lemma checkPeer_rest [simp]:
  "vnodes (checkPeer dec c p r) = vnodes r" "vnodesPerPeer (checkPeer dec c p r) = vnodesPerPeer r"
  "self (checkPeer dec c p r) = self r"
  by (simp_all add: checkPeer_def Let_def split: option.split sum.split)

lemma ring_inv_checkPeer [inv_intros]: "ring_inv r \<Longrightarrow> ring_inv (checkPeer dec c p r)"
  by (auto simp: checkPeer_def Let_def intro: inv_intros split: option.split sum.split)

lemma run_checks:
  "map_of (peers (foldl (\<lambda>r p. checkPeer dec c p r) r ps)) b =
     (if b \<in> Addr ` set ps then map_option (\<lambda>q. q\<lparr>Load := measured dec c b (Load q)\<rparr>) (map_of (peers r) b) else map_of (peers r) b)"
proof (induction ps arbitrary: r)
  case Nil
  then show ?case by simp
next
  case (Cons p ps)
  show ?case
    by (simp only: foldl.simps Cons.IH)
      (cases "map_of (peers r) b"; auto simp: checkPeer_peers)
qed

lemma run_checks_rest:
  "vnodes (foldl (\<lambda>r p. checkPeer dec c p r) r ps) = vnodes r" "self (foldl (\<lambda>r p. checkPeer dec c p r) r ps) = self r"
  "ring_inv r \<Longrightarrow> ring_inv (foldl (\<lambda>r p. checkPeer dec c p r) r ps)"
  by (induction ps arbitrary: r) (auto intro: inv_intros)

section \<open>Properties\<close>

text \<open>C22: A round of health checks, its checks run in any order, gives every other peer the load it measures for
  it (1 for a peer that cannot be reached, the reported load, or the old one when the answer cannot be
  used), and changes nothing else in the ring.\<close>

theorem health_round_loads:
  assumes inv: "ring_inv r" and round: "checkPeers c r = (c', ms, ps)" and order: "mset qs = mset ps"
    and peer: "map_of (peers r) a = Some p"
  shows "map_of (peers (foldl (\<lambda>r p. checkPeer dec c p r) r qs)) a
      = Some (if a = cSelfAddr c then p else p\<lparr>Load := measured dec c a (Load p)\<rparr>)
    \<and> vnodes (foldl (\<lambda>r p. checkPeer dec c p r) r qs) = vnodes r \<and> ring_inv (foldl (\<lambda>r p. checkPeer dec c p r) r qs)"
proof -
  have ps: "ps = filter (\<lambda>p. Addr p \<noteq> cSelfAddr c) (Peers r)"
    using round by (cases "checkVLLM c") (simp add: checkPeers_def)
  have qs: "set qs = {q \<in> set (Peers r). Addr q \<noteq> cSelfAddr c}"
    using mset_eq_setD [OF order] by (simp add: ps)
  have "Addr p = a" using inv peer by (simp add: ring_inv_def)
  moreover have "p \<in> set (Peers r)" using peer by (force simp: Peers_def dest: map_of_SomeD)
  ultimately have "a \<in> Addr ` set qs \<longleftrightarrow> a \<noteq> cSelfAddr c" unfolding qs by auto
  then show ?thesis using peer by (cases "a = cSelfAddr c") (simp_all add: run_checks run_checks_rest inv)
qed

text \<open>A client that reaches no one but \<open>p2\<close>, which reports a load.\<close>

definition example_checker :: Checker where
  "example_checker = NewChecker \<lparr>newRequest = (\<lambda>m u. None),
     roundTrip = (\<lambda>m u h b. if u = ''http://p2/healthz'' then Inr \<lparr>respStatus = 200, respHeader = [], respBody = ''B'', respErr = None\<rparr>
       else Inl (Errorf ''refused''))\<rparr> ''p1'' [] 10"

definition example_decode :: "string \<Rightarrow> HealthResponse option" where
  "example_decode b = (if b = ''B'' then Some \<lparr>hStatus = ''ok'', hLoad = 1 / 2, hPending = 100, hVLLM = True\<rparr> else None)"

lemma health_round_loads_witness:
  "map_of (peers (foldl (\<lambda>r p. checkPeer example_decode example_checker p r) (example_ring [''p1'', ''p2''])
     [\<lparr>Addr = ''p2'', Load = 0\<rparr>])) ''p2'' = Some \<lparr>Addr = ''p2'', Load = 1 / 2\<rparr>"
proof -
  let ?r = "example_ring [''p1'', ''p2'']" and ?p = "\<lparr>Addr = ''p2'', Load = 0 :: float64\<rparr>"
  have round: "checkPeers example_checker ?r = (example_checker, [], [?p])"
    unfolding example_ring_value
    by (simp add: checkPeers_def checkVLLM_def example_checker_def NewChecker_def Peers_def)
  have peer: "map_of (peers ?r) ''p2'' = Some ?p" unfolding example_ring_value by simp
  have m: "measured example_decode example_checker ''p2'' 0 = 1 / 2"
    by (simp add: measured_def example_checker_def NewChecker_def example_decode_def)
  have s: "cSelfAddr example_checker = ''p1''" by (simp add: example_checker_def NewChecker_def)
  from health_round_loads [OF example_ring_inv round refl peer, of example_decode]
  show ?thesis by (simp add: m s)
qed

text \<open>A peer that cannot be reached gets no request while its load stands: after the check that failed the
  router forwards nothing to it, whatever the configured threshold.\<close>

theorem unreachable_peer_avoided:
  assumes inv: "ring_inv r" and threshold: "threshold f \<le> 1"
    and req: "newRequest (cClient c) ''GET'' (''http://'' @ Addr p @ ''/healthz'') = None"
    and down: "roundTrip (cClient c) ''GET'' (''http://'' @ Addr p @ ''/healthz'') [] [] = Inl err"
    and fwd: "ForwardTo (Decide sha (checkPeer dec c p r) f key isForwarded) = Some q"
  shows "Addr q \<noteq> Addr p"
proof
  assume same: "Addr q = Addr p"
  let ?r = "checkPeer dec c p r"
  have inv': "ring_inv ?r" using inv by (rule ring_inv_checkPeer)
  have q: "Owner sha key ?r = Some q" "Load q < threshold f"
    using fwd by (auto simp: Decide_def split: if_splits option.splits)
  obtain v where "map_of (peers ?r) (vpeer v) = Some q"
    using q(1) by (auto simp: Owner_nearest [OF ring_inv_sorted [OF inv']] split: option.splits)
  moreover from this have "Addr q = vpeer v" using inv' by (simp add: ring_inv_def)
  ultimately have "map_of (peers ?r) (Addr p) = Some q" using same by simp
  moreover have "?r = UpdatePeerLoad (Addr p) 1 r" using req down by (simp add: checkPeer_def)
  ultimately have "Load q = 1" by auto
  then show False using q(2) threshold by simp
qed

lemma unreachable_peer_avoided_witness:
  "ForwardTo (Decide example_sha (example_ring [''p1'', ''p2'']) (NewForwarder answering 1) ''c'' False) = Some \<lparr>Addr = ''p2'', Load = 0\<rparr>
   \<and> ForwardTo (Decide example_sha (checkPeer example_decode (NewChecker unreachable ''p1'' [] 10) \<lparr>Addr = ''p2'', Load = 0\<rparr>
       (example_ring [''p1'', ''p2''])) (NewForwarder answering 1) ''c'' False) \<noteq> Some \<lparr>Addr = ''p2'', Load = 1\<rparr>"
proof -
  let ?r = "example_ring [''p1'', ''p2'']" and ?c = "NewChecker unreachable ''p1'' [] 10"
  let ?p = "\<lparr>Addr = ''p2'', Load = 0 :: float64\<rparr>"
  have c: "newRequest (cClient ?c) ''GET'' (''http://'' @ Addr ?p @ ''/healthz'') = None"
    "roundTrip (cClient ?c) ''GET'' (''http://'' @ Addr ?p @ ''/healthz'') [] [] = Inl (Errorf ''refused'')"
    by (simp_all add: NewChecker_def unreachable_def)
  have t: "threshold (NewForwarder answering 1) \<le> 1" by (simp add: NewForwarder_def)
  have self: "self ?r = ''p1''" by (simp add: example_ring_value)
  have "ForwardTo (Decide example_sha ?r (NewForwarder answering 1) ''c'' False) = Some ?p"
    by (simp add: Decide_def example_owner self IsSelf_def NewForwarder_def)
  then show ?thesis using unreachable_peer_avoided [OF example_ring_inv t c] by force
qed

end
