(* ===== verification/Server.thy ===== *)
theory Server
  imports Admin Health
begin

text \<open>
  \<open>internal/server/server.go\<close>: the HTTP server of a node and its routes, as \<open>http.ServeMux\<close> finds them
  (a path that is not clean is redirected to its clean form, and a subtree without its slash to the one
  with it).  Paths are unescaped.
\<close>

section \<open>The server\<close>

text \<open>
  The parts the handlers close over are those of the node.  \<open>srvClosing\<close> is the library's mark that
  \<open>Shutdown\<close> was called: from then on \<open>ListenAndServe\<close> returns \<open>ErrServerClosed\<close>, at once.
\<close>

record Server =
  srvAddr :: string
  srvReadTimeout :: int64
  srvWriteTimeout :: int64
  srvIdleTimeout :: int64
  srvClosing :: bool

definition NewServer :: "string \<Rightarrow> Server" where
  "NewServer listen =
     \<lparr>srvAddr = listen, srvReadTimeout = 30 * second, srvWriteTimeout = 300 * second, srvIdleTimeout = 120 * second,
      srvClosing = False\<rparr>"

definition ErrServerClosed :: goerr where
  "ErrServerClosed = Errorf ''http: Server closed''"

text \<open>
  What \<open>Start\<close> may return at a time when listening or accepting failed with \<open>fault\<close> or not: \<open>None\<close>
  while it goes on serving.
\<close>

definition server_start :: "goerr option \<Rightarrow> Server \<Rightarrow> goerr option" where
  "server_start fault s = (if srvClosing s then Some ErrServerClosed else fault)"

definition server_shutdown :: "Server \<Rightarrow> Server" where
  "server_shutdown s = s\<lparr>srvClosing := True\<rparr>"

section \<open>Routes\<close>

datatype route = ToHealth | ToMetrics | ToAdmin | ToProxy | RedirectTo string

text \<open>\<open>cleanPath\<close> of package \<open>net/http\<close>.\<close>

definition clean_url_path :: "string \<Rightarrow> string" where
  "clean_url_path p =
     (if p = [] then ''/''
      else
        let q = (if hd p = slash then p else slash # p);
            np = clean q
        in if last q = slash \<and> np \<noteq> ''/'' then np @ ''/'' else np)"

definition mux_route :: "string \<Rightarrow> string \<Rightarrow> route" where
  "mux_route method path =
     (let p = (if method = ''CONNECT'' then path else clean_url_path path)
      in if p = ''/admin'' then RedirectTo ''/admin/''
         else if p \<noteq> path then RedirectTo p
         else if p = ''/healthz'' then ToHealth
         else if p = ''/metrics'' then ToMetrics
         else if prefix ''/admin/'' p then ToAdmin
         else ToProxy)"

text \<open>The handler of \<open>/\<close>: a request is counted while the proxy serves it.\<close>

definition serve_counted ::
    "env \<Rightarrow> (string \<Rightarrow> string option) \<Rightarrow> (string \<Rightarrow> uint32) \<Rightarrow> Ring \<Rightarrow> Forwarder \<Rightarrow> Proxy \<Rightarrow> request \<Rightarrow>
     Manager \<Rightarrow> fs \<Rightarrow> Checker \<Rightarrow> served \<times> Checker" where
  "serve_counted e json sha ring f p r m fs c =
     (let c1 = IncrPending c;
          s = ServeHTTP e json sha ring f p r m fs
      in (s, DecrPending c1))"

lemma pending_balanced [simp]: "DecrPending (IncrPending c) = c"
  by (simp add: IncrPending_def DecrPending_def)

section \<open>The cache under the proxy\<close>

text \<open>A request is, for the cache, nothing or one call of \<open>EnsureAdapter\<close>.\<close>

lemma serve_steps:
  assumes "ServeHTTP e json sha ring f p r (mgr c) (disk c) = s"
  shows "\<exists>ms. cache_step\<^sup>*\<^sup>* c (after c (servedMgr s) (servedDisk s) (servedTasks s) ms)"
proof -
  have none: ?thesis if "servedMgr s = mgr c" "servedDisk s = disk c" "servedTasks s = []"
    using that by (intro exI [of _ "[]"]) simp
  have ens: "\<exists>ms. cache_step\<^sup>*\<^sup>* c (after c m' fs' ts ms)" if "EnsureAdapter e (mgr c) a (disk c) = (u, m', fs', ms, ts)" for a u m' fs' ms ts
    using cache_step.Ensure [OF that] by (auto simp: after_def)
  show ?thesis
  proof (cases rule: serve_cases [where e = e and json = json and sha = sha and ring = ring and f = f and p = p and r = r and m = "mgr c" and fs = "disk c"])
    case (bad err)
    then show ?thesis using assms none by simp
  next
    case (pass info)
    then show ?thesis using assms none by simp
  next
    case (relay info q resp sent)
    then show ?thesis using assms none by simp
  next
    case (local info sent ms)
    let ?s1 = "served_start (mgr c) (disk c)\<lparr>toPeers := sent, servedMetrics := ms\<rparr>"
    have s: "s = serve_locally e p r info (base_request p info) ?s1" using assms local(2) by simp
    show ?thesis
    proof (cases rule: locally_cases [where e = e and p = p and r = r and info = info and base = "base_request p info" and ?s1.0 = ?s1])
      case base
      then show ?thesis using s none by simp
    next
      case (present res m' fs' ms ts s2)
      then show ?thesis using s ens [of "infoModel info" "Inr res" m' fs' ms ts] by simp
    next
      case (absent err m' fs' ms ts s2)
      then show ?thesis using s ens [of "infoModel info" "Inl err" m' fs' ms ts] by simp
    qed
  qed
qed

end
