(* ===== verification/Config.thy ===== *)
theory Config
  imports Complex_Main GoParse FileSystem
begin

text \<open>
  \<open>internal/config/config.go\<close>: the configuration record, its defaults, its validation, and loading
  it from a file.  The YAML decoder is a parameter, the environment of the process too; the
  expansion of variables is that of \<open>os.ExpandEnv\<close>.  A threshold is a rational number.
  A slice of peers is an option, because the code distinguishes \<open>nil\<close> from the empty slice.
\<close>

section \<open>The configuration\<close>

record StorageConfig =
  Dir :: string
  MaxSize :: string

record OriginConfig =
  OType :: string
  Bucket :: string
  Region :: string
  OPrefix :: string
  Token :: string
  BaseURL :: string

record InvalidationConfig =
  TTL :: string

record K8sDiscovery =
  Service :: string
  Namespace :: string

record FileDiscovery =
  FileDir :: string
  HeartbeatInterval :: string
  StaleThreshold :: string

record StaticDiscovery =
  StaticPeers :: "string list option"

record DiscoveryConfig =
  Mode :: string
  K8sCfg :: K8sDiscovery
  FileCfg :: FileDiscovery
  StaticCfg :: StaticDiscovery

record RoutingConfig =
  HashOn :: string
  VnodesPerPeer :: int64
  ForwardTimeout :: string
  OverflowThreshold :: rat
  FallbackToBaseModel :: bool

record VLLMConfig =
  ModelName :: string
  MaxLoras :: int64
  MaxLoraRank :: int64
  HealthCheckInterval :: string

record Config =
  Listen :: string
  SelfAddr :: string
  VLLMUrl :: string
  Storage :: StorageConfig
  Origins :: "OriginConfig list"
  Invalidation :: InvalidationConfig
  Discovery :: DiscoveryConfig
  Routing :: RoutingConfig
  VLLM :: VLLMConfig

text \<open>The zero value of the record.\<close>

definition zero_config :: Config where
  "zero_config =
     \<lparr>Listen = [], SelfAddr = [], VLLMUrl = [], Storage = \<lparr>Dir = [], MaxSize = []\<rparr>, Origins = [],
      Invalidation = \<lparr>TTL = []\<rparr>,
      Discovery = \<lparr>Mode = [], K8sCfg = \<lparr>Service = [], Namespace = []\<rparr>,
        FileCfg = \<lparr>FileDir = [], HeartbeatInterval = [], StaleThreshold = []\<rparr>, StaticCfg = \<lparr>StaticPeers = None\<rparr>\<rparr>,
      Routing = \<lparr>HashOn = [], VnodesPerPeer = 0, ForwardTimeout = [], OverflowThreshold = 0, FallbackToBaseModel = False\<rparr>,
      VLLM = \<lparr>ModelName = [], MaxLoras = 0, MaxLoraRank = 0, HealthCheckInterval = []\<rparr>\<rparr>"

section \<open>Defaults\<close>

text \<open>A field that has its zero value gets a default.\<close>

definition or_default :: "'a \<Rightarrow> 'a \<Rightarrow> 'a \<Rightarrow> 'a" where
  "or_default zero d v = (if v = zero then d else v)"

definition applyDefaults :: "Config \<Rightarrow> Config" where
  "applyDefaults cfg = cfg
     \<lparr>Listen := or_default [] '':8080'' (Listen cfg),
      VLLMUrl := or_default [] ''http://localhost:8000'' (VLLMUrl cfg),
      Storage := (Storage cfg)
        \<lparr>Dir := or_default [] ''/mnt/nvme/loraplex'' (Dir (Storage cfg)),
         MaxSize := or_default [] ''100GB'' (MaxSize (Storage cfg))\<rparr>,
      Invalidation := (Invalidation cfg)\<lparr>TTL := or_default [] ''1h'' (TTL (Invalidation cfg))\<rparr>,
      Discovery := (Discovery cfg)
        \<lparr>Mode := or_default [] ''static'' (Mode (Discovery cfg)),
         StaticCfg := (StaticCfg (Discovery cfg))
           \<lparr>StaticPeers := or_default None (Some [''localhost:8080'']) (StaticPeers (StaticCfg (Discovery cfg)))\<rparr>,
         FileCfg := (FileCfg (Discovery cfg))
           \<lparr>HeartbeatInterval := or_default [] ''5s'' (HeartbeatInterval (FileCfg (Discovery cfg))),
            StaleThreshold := or_default [] ''15s'' (StaleThreshold (FileCfg (Discovery cfg)))\<rparr>\<rparr>,
      Routing := (Routing cfg)
        \<lparr>HashOn := or_default [] ''model'' (HashOn (Routing cfg)),
         VnodesPerPeer := or_default 0 150 (VnodesPerPeer (Routing cfg)),
         ForwardTimeout := or_default [] ''5s'' (ForwardTimeout (Routing cfg)),
         OverflowThreshold := or_default 0 (8 / 10) (OverflowThreshold (Routing cfg))\<rparr>,
      VLLM := (VLLM cfg)
        \<lparr>MaxLoras := or_default 0 200 (MaxLoras (VLLM cfg)),
         MaxLoraRank := or_default 0 64 (MaxLoraRank (VLLM cfg)),
         HealthCheckInterval := or_default [] ''10s'' (HealthCheckInterval (VLLM cfg))\<rparr>\<rparr>"

definition Default :: Config where
  "Default = applyDefaults zero_config"

section \<open>Sizes\<close>

text \<open>\<open>ParseSize\<close>: the product is taken in 64 bits and wraps.\<close>

definition ParseSize :: "string \<Rightarrow> int64 res" where
  "ParseSize s =
     (if length s < 2 then Inl (Errorf (''invalid size: '' @ s))
      else
        let unit = drop (length s - 2) s;
            numStr = take (length s - 2) s;
            multiplier = (if unit = ''TB'' then Some (push_bit 40 1)
                          else if unit = ''GB'' then Some (push_bit 30 1)
                          else if unit = ''MB'' then Some (push_bit 20 1)
                          else None)
        in case multiplier of
             None \<Rightarrow> Inl (Errorf (''unknown size unit in: '' @ s))
           | Some m \<Rightarrow>
               (case sscanf_int numStr of
                  None \<Rightarrow> Inl (Errorf (''invalid size number: '' @ s))
                | Some n \<Rightarrow> Inr (n * m)))"

section \<open>Validation\<close>

definition hash_on_error :: "string \<Rightarrow> goerr" where
  "hash_on_error h = Errorf (''invalid hash_on '' @ quote h @
     '' (valid: model, tenant, tenant/model, header:<name>, header:<name>/model)'')"

definition validateHashOn :: "string \<Rightarrow> goerr option" where
  "validateHashOn h =
     (if h = ''model'' \<or> h = ''tenant'' \<or> h = ''tenant/model'' then None
      else if prefix ''header:'' h then
        (let name = trim_suffix ''/model'' (trim_prefix ''header:'' h)
         in if name = [] then Some (Errorf ''hash_on header: name cannot be empty'') else None)
      else Some (hash_on_error h))"

definition validate :: "Config \<Rightarrow> goerr option" where
  "validate cfg =
     (case ParseSize (MaxSize (Storage cfg)) of Inl err \<Rightarrow> Some (Wrapf ''invalid storage max_size: '' err) | Inr _ \<Rightarrow>
      (case ParseDuration (TTL (Invalidation cfg)) of Inl err \<Rightarrow> Some (Wrapf ''invalid invalidation ttl: '' err) | Inr _ \<Rightarrow>
      (case ParseDuration (ForwardTimeout (Routing cfg)) of Inl err \<Rightarrow> Some (Wrapf ''invalid forward_timeout: '' err) | Inr _ \<Rightarrow>
       if Mode (Discovery cfg) \<notin> {''static'', ''file'', ''k8s''}
       then Some (Errorf (''unknown discovery mode: '' @ Mode (Discovery cfg)))
       else if OverflowThreshold (Routing cfg) < 0 \<or> 1 < OverflowThreshold (Routing cfg)
       then Some (Errorf ''overflow_threshold must be between 0.0 and 1.0'')
       else validateHashOn (HashOn (Routing cfg)))))"

definition Validate :: "Config \<Rightarrow> goerr option" where
  "Validate cfg = validate cfg"

section \<open>Loading\<close>

definition shell_special :: "char \<Rightarrow> bool" where
  "shell_special c \<longleftrightarrow> c \<in> set ''*#$@!?-'' \<or> is_digit c"

definition alpha_num :: "char \<Rightarrow> bool" where
  "alpha_num c \<longleftrightarrow> c = CHR ''_'' \<or> is_digit c \<or> is_lower c \<or> is_upper c"

text \<open>The name of the variable after a dollar sign and the number of characters it takes.\<close>

definition shell_name :: "string \<Rightarrow> string \<times> nat" where
  "shell_name s =
     (case s of [] \<Rightarrow> ([], 0)
      | c # cs \<Rightarrow>
          if c = CHR ''{'' then
            (if 2 < length s \<and> shell_special (s ! 1) \<and> s ! 2 = CHR ''}'' then ([s ! 1], 3)
             else let n = takeWhile (\<lambda>x. x \<noteq> CHR ''}'') cs
                  in if length n = length cs then ([], 1) else if n = [] then ([], 2) else (n, length n + 2))
          else if shell_special c then ([c], 1)
          else (takeWhile alpha_num s, length (takeWhile alpha_num s)))"

text \<open>\<open>os.Expand\<close>: a dollar sign that begins no name is kept, bad syntax is dropped.\<close>

function expand_env :: "(string \<Rightarrow> string) \<Rightarrow> string \<Rightarrow> string" where
  "expand_env getenv [] = []"
| "expand_env getenv (c # cs) =
     (if c = CHR ''$'' \<and> cs \<noteq> [] then
        (let (name, w) = shell_name cs
         in (if name \<noteq> [] then getenv name else if w = 0 then [c] else []) @ expand_env getenv (drop w cs))
      else c # expand_env getenv cs)"
  by pat_completeness auto
termination by (relation "measure (\<lambda>(getenv, s). length s)") auto

declare expand_env.simps [simp del]

definition Load ::
    "faults \<Rightarrow> (string \<Rightarrow> string) \<Rightarrow> (string \<Rightarrow> Config \<Rightarrow> Config res) \<Rightarrow> string \<Rightarrow> fs \<Rightarrow> Config res" where
  "Load flt getenv yaml path fs =
     (case read_file flt (path_of path) fs of
        Inl err \<Rightarrow> Inl (Wrapf ''read config: '' err)
      | Inr data \<Rightarrow>
          (case yaml (expand_env getenv data) zero_config of
             Inl err \<Rightarrow> Inl (Wrapf ''parse config: '' err)
           | Inr cfg0 \<Rightarrow>
               let cfg = applyDefaults cfg0
               in case validate cfg of
                    Some err \<Rightarrow> Inl (Wrapf ''validate config: '' err)
                  | None \<Rightarrow> Inr cfg))"

section \<open>Lemmas\<close>

lemma or_default_idem [simp]: "or_default z d (or_default z d v) = or_default z d v"
  by (simp add: or_default_def)

lemma or_default_neq: "d \<noteq> z \<Longrightarrow> or_default z d v \<noteq> z"
  by (simp add: or_default_def)

text \<open>What holds of a record with its defaults: no field the program parses is empty.\<close>

definition complete :: "Config \<Rightarrow> bool" where
  "complete cfg \<longleftrightarrow>
     Listen cfg \<noteq> [] \<and> VLLMUrl cfg \<noteq> [] \<and> Dir (Storage cfg) \<noteq> [] \<and> MaxSize (Storage cfg) \<noteq> []
     \<and> TTL (Invalidation cfg) \<noteq> [] \<and> Mode (Discovery cfg) \<noteq> []
     \<and> StaticPeers (StaticCfg (Discovery cfg)) \<noteq> None
     \<and> HeartbeatInterval (FileCfg (Discovery cfg)) \<noteq> [] \<and> StaleThreshold (FileCfg (Discovery cfg)) \<noteq> []
     \<and> HashOn (Routing cfg) \<noteq> [] \<and> VnodesPerPeer (Routing cfg) \<noteq> 0 \<and> ForwardTimeout (Routing cfg) \<noteq> []
     \<and> OverflowThreshold (Routing cfg) \<noteq> 0
     \<and> MaxLoras (VLLM cfg) \<noteq> 0 \<and> MaxLoraRank (VLLM cfg) \<noteq> 0 \<and> HealthCheckInterval (VLLM cfg) \<noteq> []"

lemma or_default_same: "v \<noteq> z \<Longrightarrow> or_default z d v = v"
  by (simp add: or_default_def)

lemma defaults_complete: "complete (applyDefaults cfg)"
  unfolding complete_def by (intro conjI) (simp_all add: applyDefaults_def or_default_neq)

lemma complete_defaults: "complete cfg \<Longrightarrow> applyDefaults cfg = cfg"
  unfolding complete_def applyDefaults_def by (simp add: or_default_same)

text \<open>What a valid configuration has been checked for.\<close>

lemma validate_None:
  "validate cfg = None \<longleftrightarrow>
     (\<exists>size. ParseSize (MaxSize (Storage cfg)) = Inr size) \<and> (\<exists>d. ParseDuration (TTL (Invalidation cfg)) = Inr d)
     \<and> (\<exists>d. ParseDuration (ForwardTimeout (Routing cfg)) = Inr d) \<and> Mode (Discovery cfg) \<in> {''static'', ''file'', ''k8s''}
     \<and> 0 \<le> OverflowThreshold (Routing cfg) \<and> OverflowThreshold (Routing cfg) \<le> 1 \<and> validateHashOn (HashOn (Routing cfg)) = None"
  unfolding validate_def by (simp add: not_less split: sum.split)

lemma Load_cases:
  assumes "Load flt getenv yaml path fs = Inr cfg"
  obtains data cfg0 where "read_file flt (path_of path) fs = Inr data" "yaml (expand_env getenv data) zero_config = Inr cfg0"
    "cfg = applyDefaults cfg0" "validate cfg = None"
  using assms by (auto simp: Load_def Let_def split: sum.splits option.splits)

text \<open>Sizes: a number and a unit.\<close>

definition size_unit :: "string \<Rightarrow> nat option" where
  "size_unit u = (if u = ''TB'' then Some (2 ^ 40) else if u = ''GB'' then Some (2 ^ 30) else if u = ''MB'' then Some (2 ^ 20) else None)"

lemma ParseSize_unit:
  assumes "size_unit u = Some m"
  shows "ParseSize (num @ u) = (case sscanf_int num of
    None \<Rightarrow> Inl (Errorf (''invalid size number: '' @ num @ u)) | Some n \<Rightarrow> Inr (n * of_nat m))"
proof -
  have "length u = 2" using assms by (auto simp: size_unit_def split: if_splits)
  then have parts: "drop (length (num @ u) - 2) (num @ u) = u" "take (length (num @ u) - 2) (num @ u) = num"
      "\<not> length (num @ u) < 2"
    by simp_all
  have mult: "(if u = ''TB'' then Some (push_bit 40 1) else if u = ''GB'' then Some (push_bit 30 1)
      else if u = ''MB'' then Some (push_bit 20 1) else None) = Some (of_nat m :: int64)"
    using assms by (auto simp: size_unit_def split: if_splits)
  show ?thesis unfolding ParseSize_def Let_def if_not_P [OF parts(3)] parts(1,2) mult by simp
qed

lemma ParseSize_number:
  assumes "size_unit u = Some m" and "rest = [] \<or> \<not> is_digit (hd rest)"
  shows "ParseSize (utoa n @ rest @ u) = (if n < 2 ^ 63 then Inr (of_nat n * of_nat m)
    else Inl (Errorf (''invalid size number: '' @ utoa n @ rest @ u)))"
  using ParseSize_unit [OF assms(1), of "utoa n @ rest"] by (simp add: sscanf_utoa [OF assms(2)])

lemma default_parses:
  "ParseSize ''100GB'' = Inr (100 * 2 ^ 30)" "ParseDuration ''1h'' = Inr (3600 * 10 ^ 9)"
  "ParseDuration ''5s'' = Inr (5 * 10 ^ 9)" "ParseDuration ''15s'' = Inr (15 * 10 ^ 9)"
  "ParseDuration ''10s'' = Inr (10 * 10 ^ 9)"
proof -
  have n: "utoa 100 = ''100''" "utoa (Suc 0) = ''1''" "utoa 5 = ''5''" "utoa 15 = ''15''" "utoa 10 = ''10''"
    by (simp_all add: utoa.simps char_of_def bit_0)
  have 1: "size_unit ''GB'' = Some (2 ^ 30)" by (simp add: size_unit_def)
  show "ParseSize ''100GB'' = Inr (100 * 2 ^ 30)"
    using ParseSize_number [OF 1, of "[]" 100] by (simp add: n)
  have s: "unit_ns ''s'' = Some (10 ^ 9)" "\<forall>c \<in> set ''s''. c \<noteq> CHR ''.'' \<and> \<not> is_digit c"
    and h: "unit_ns ''h'' = Some (3600 * 10 ^ 9)" "\<forall>c \<in> set ''h''. c \<noteq> CHR ''.'' \<and> \<not> is_digit c"
    by (simp_all add: unit_ns_def is_digit_def)
  show "ParseDuration ''1h'' = Inr (3600 * 10 ^ 9)"
    using ParseDuration_simple [OF h(1) _ _ h(2), of 1] by (simp add: n)
  show "ParseDuration ''5s'' = Inr (5 * 10 ^ 9)" "ParseDuration ''15s'' = Inr (15 * 10 ^ 9)" "ParseDuration ''10s'' = Inr (10 * 10 ^ 9)"
    using ParseDuration_simple [OF s(1) _ _ s(2), of 5] ParseDuration_simple [OF s(1) _ _ s(2), of 15]
      ParseDuration_simple [OF s(1) _ _ s(2), of 10]
    by (simp_all add: n)
qed

lemma default_valid: "validate Default = None"
  unfolding validate_None
  by (simp add: Default_def applyDefaults_def zero_config_def or_default_def default_parses validateHashOn_def)

section \<open>Properties\<close>



text \<open>C37: A decimal number and a unit parse to their product taken in 64 bits, numbers of 64 bits and more are
  refused, and so the size is the one written exactly when the product is below 2^63: a larger one is
  not refused but wraps.\<close>

theorem parse_size_exact:
  assumes "size_unit u = Some m"
  shows "(2 ^ 63 \<le> n \<longleftrightarrow> (\<exists>err. ParseSize (utoa n @ u) = Inl err))
    \<and> (n < 2 ^ 63 \<longleftrightarrow> ParseSize (utoa n @ u) = Inr (of_nat (n * m)))
    \<and> ((\<exists>w. ParseSize (utoa n @ u) = Inr w \<and> sint w = int (n * m)) \<longleftrightarrow> n * m < 2 ^ 63)"
proof -
  note run = ParseSize_number [OF assms, of "[]" n, simplified]
  have m: "0 < m" using assms by (auto simp: size_unit_def split: if_splits)
  have "sint (of_nat (n * m) :: int64) = int (n * m) \<longleftrightarrow> n * m < 2 ^ 63"
  proof
    assume "sint (of_nat (n * m) :: int64) = int (n * m)"
    moreover have "sint (of_nat (n * m) :: int64) < 2 ^ 63" using sint_lt [of "of_nat (n * m) :: int64"] by simp
    ultimately have "int (n * m) < int (2 ^ 63)" by (simp del: of_nat_mult)
    then show "n * m < 2 ^ 63" by (simp only: of_nat_less_iff)
  next
    assume "n * m < 2 ^ 63"
    then have "int (n * m) < int (2 ^ 63)" by (simp only: of_nat_less_iff)
    then have "- (2 ^ 63) \<le> int (n * m)" "int (n * m) < 2 ^ 63" by (simp_all del: of_nat_mult)
    from sint_of_int64 [OF this] show "sint (of_nat (n * m) :: int64) = int (n * m)"
      by (simp only: of_int_of_nat_eq)
  qed
  moreover have "n < 2 ^ 63" if "n * m < 2 ^ 63" using that m by (cases m) auto
  ultimately show ?thesis using run by auto
qed

lemma parse_size_exact_witness: "ParseSize ''8388608TB'' = Inr (of_nat (8388608 * 2 ^ 40)) \<and> \<not> (8388608 :: nat) * 2 ^ 40 < 2 ^ 63"
proof -
  have u: "size_unit ''TB'' = Some (2 ^ 40)" by (simp add: size_unit_def)
  have "utoa 8388608 = ''8388608''" by (simp add: utoa.simps char_of_def bit_0)
  then show ?thesis using parse_size_exact [OF u, of 8388608] by simp
qed

text \<open>What stands between the digits and the unit is ignored: 1.5TB is one terabyte.\<close>

theorem parse_size_drops_fraction:
  assumes "size_unit u = Some m" and "\<not> is_digit c"
  shows "ParseSize (utoa n @ c # garbage @ u) = (if n < 2 ^ 63 then ParseSize (utoa n @ u)
    else Inl (Errorf (''invalid size number: '' @ utoa n @ c # garbage @ u)))"
  using ParseSize_number [OF assms(1), of "c # garbage" n] ParseSize_number [OF assms(1), of "[]" n] assms(2) by simp

lemma parse_size_drops_fraction_witness: "ParseSize ''1.5TB'' = ParseSize ''1TB''"
proof -
  have u: "size_unit ''TB'' = Some (2 ^ 40)" and c: "\<not> is_digit CHR ''.''" by (simp_all add: size_unit_def is_digit_def)
  have "utoa 1 = ''1''" by code_simp
  then show ?thesis using parse_size_drops_fraction [OF u c, of 1 "''5''"] by simp
qed

end
