(* ===== verification/Discovery.thy ===== *)
theory Discovery
  imports Config Meta
begin

text \<open>
  \<open>internal/discovery\<close>: the three ways a node learns the addresses of its peers (a fixed list,
  heartbeat files in a shared directory, the endpoints of a Kubernetes service), and the list with
  its change callbacks that all of them embed.  A callback acts on a world \<open>'w\<close>, the part of the
  program outside this package.  The goroutines run \<open>file_tick\<close> and \<open>k8s_fetch\<close> once at the start and
  then at every tick.  The locale \<open>peer_source\<close> states what the three have in common, that a list
  only changes together with a call of every callback.
\<close>

section \<open>The peer list\<close>

record 'w Base =
  basePeers :: "string list"
  callbacks :: "(string list \<Rightarrow> 'w \<Rightarrow> 'w) list"

definition base_peers :: "'w Base \<Rightarrow> string list" where
  "base_peers b = basePeers b"

definition OnChange :: "(string list \<Rightarrow> 'w \<Rightarrow> 'w) \<Rightarrow> 'w Base \<Rightarrow> 'w Base" where
  "OnChange fn b = b\<lparr>callbacks := callbacks b @ [fn]\<rparr>"

definition SetPeers :: "string list \<Rightarrow> 'w Base \<Rightarrow> 'w \<Rightarrow> 'w Base \<times> 'w" where
  "SetPeers ps b w = (b\<lparr>basePeers := ps\<rparr>, foldl (\<lambda>w cb. cb ps w) w (callbacks b))"

section \<open>A fixed list\<close>

definition NewStatic :: "string list \<Rightarrow> 'w Base" where
  "NewStatic ps = \<lparr>basePeers = ps, callbacks = []\<rparr>"

definition static_start :: "'w Base \<Rightarrow> 'w \<Rightarrow> 'w Base \<times> 'w" where
  "static_start s w = SetPeers (basePeers s) s w"

section \<open>Heartbeat files\<close>

record 'w File =
  fBase :: "'w Base"
  fDir :: string
  fHeartbeat :: int64
  fStale :: int64
  fSelf :: string
  fStopped :: bool

text \<open>The host name is what \<open>os.Hostname\<close> returns, empty when it fails.\<close>

definition NewFile :: "string \<Rightarrow> FileDiscovery \<Rightarrow> string \<Rightarrow> 'w File res" where
  "NewFile hostname cfg selfAddr =
     (case ParseDuration (HeartbeatInterval cfg) of
        Inl err \<Rightarrow> Inl (Wrapf ''parse heartbeat_interval: '' err)
      | Inr hb \<Rightarrow>
          (case ParseDuration (StaleThreshold cfg) of
             Inl err \<Rightarrow> Inl (Wrapf ''parse stale_threshold: '' err)
           | Inr st \<Rightarrow>
               Inr \<lparr>fBase = \<lparr>basePeers = [], callbacks = []\<rparr>, fDir = FileDir cfg, fHeartbeat = hb, fStale = st,
                    fSelf = (if selfAddr = [] then hostname else selfAddr), fStopped = False\<rparr>))"

definition file_start :: "env \<Rightarrow> 'w File \<Rightarrow> fs \<Rightarrow> unit res \<times> fs" where
  "file_start e f fs = mkdir_all (faults e) (path_of (fDir f)) fs"

text \<open>\<open>os.Remove\<close>, whose result the code ignores: a file or an empty directory goes.\<close>

definition os_remove :: "faults \<Rightarrow> path \<Rightarrow> fs \<Rightarrow> fs" where
  "os_remove flt p fs =
     (if flt ''remove'' p \<noteq> None \<or> p = [] \<or> (\<exists>ent \<in> set fs. strict_prefix p (fst ent)) then fs
      else filter (\<lambda>ent. fst ent \<noteq> p) fs)"

definition file_stop :: "env \<Rightarrow> 'w File \<Rightarrow> fs \<Rightarrow> 'w File \<times> fs" where
  "file_stop e f fs =
     (if fStopped f then (f, fs)
      else (f\<lparr>fStopped := True\<rparr>, os_remove (faults e) (path_of (path_join [fDir f, fSelf f])) fs))"

definition writeHeartbeat :: "env \<Rightarrow> 'w File \<Rightarrow> fs \<Rightarrow> fs" where
  "writeHeartbeat e f fs =
     snd (write_file (faults e) (path_of (path_join [fDir f, fSelf f]))
       (fSelf f @ [CHR 0x0A] @ itoa (now e)) (now e) fs)"

text \<open>\<open>os.ReadDir\<close>: the entries of a directory by name.\<close>

definition dir_entries :: "fs \<Rightarrow> path \<Rightarrow> (string \<times> node) list" where
  "dir_entries fs p =
     sort_key fst (map (\<lambda>ent. (last (fst ent), snd ent)) (filter (\<lambda>ent. fst ent \<noteq> [] \<and> butlast (fst ent) = p) fs))"

definition read_dir :: "faults \<Rightarrow> path \<Rightarrow> fs \<Rightarrow> (string \<times> node) list res" where
  "read_dir flt p fs =
     (case flt ''readdir'' p of
        Some n \<Rightarrow> Inl (SysErr ''readdir'' p n)
      | None \<Rightarrow>
          (case fs_get fs p of
             None \<Rightarrow> Inl (SysErr ''open'' p ENOENT)
           | Some (FileNode _ _) \<Rightarrow> Inl (SysErr ''readdir'' p ENOTDIR)
           | Some DirNode \<Rightarrow> Inr (dir_entries fs p)))"

text \<open>One entry of the directory: the addresses found so far, and the disk.\<close>

definition scan_entry :: "env \<Rightarrow> 'w File \<Rightarrow> string list \<times> fs \<Rightarrow> string \<times> node \<Rightarrow> string list \<times> fs" where
  "scan_entry e f acc ent =
     (let (peers, fs) = acc;
          (name, n) = ent;
          p = path_of (path_join [fDir f, name])
      in if n = DirNode \<or> prefix ''.'' name then (peers, fs)
         else case stat (faults e) p fs of
           Inl _ \<Rightarrow> (peers, fs)
         | Inr info \<Rightarrow>
             let modtime = (case info of FileNode _ t \<Rightarrow> t | DirNode \<Rightarrow> now e)
             in if fStale f <s time_since (now e) modtime then (peers, os_remove (faults e) p fs)
                else case read_file (faults e) p fs of
                  Inl _ \<Rightarrow> (peers, fs)
                | Inr data \<Rightarrow>
                    let line = takeWhile (\<lambda>c. c \<noteq> CHR 0x0A) data
                    in (if line \<noteq> [] then peers @ [trim_space line] else peers, fs))"

definition file_scan :: "env \<Rightarrow> 'w File \<Rightarrow> fs \<Rightarrow> 'w \<Rightarrow> 'w File \<times> fs \<times> 'w" where
  "file_scan e f fs w =
     (case read_dir (faults e) (path_of (fDir f)) fs of
        Inl _ \<Rightarrow> (f, fs, w)
      | Inr entries \<Rightarrow>
          (case foldl (scan_entry e f) ([], fs) entries of
             (peers, fs') \<Rightarrow> (case SetPeers peers (fBase f) w of (b, w') \<Rightarrow> (f\<lparr>fBase := b\<rparr>, fs', w'))))"

text \<open>What the loop does at its start and at every tick.\<close>

definition file_tick :: "env \<Rightarrow> 'w File \<Rightarrow> fs \<Rightarrow> 'w \<Rightarrow> 'w File \<times> fs \<times> 'w" where
  "file_tick e f fs w = file_scan e f (writeHeartbeat e f fs) w"

section \<open>Kubernetes endpoints\<close>

record k8sPort =
  portName :: string
  portNumber :: int64

record k8sSubset =
  subsetAddresses :: "string list"
  subsetPorts :: "k8sPort list"

record 'w K8s =
  kBase :: "'w Base"
  kService :: string
  kNamespace :: string
  kClient :: http_client
  kStopped :: bool

definition account_dir :: string where
  "account_dir = ''/var/run/secrets/kubernetes.io/serviceaccount/''"

text \<open>The client depends on the certificate of the cluster, if there is one.\<close>

definition NewK8s :: "env \<Rightarrow> (string option \<Rightarrow> http_client) \<Rightarrow> K8sDiscovery \<Rightarrow> fs \<Rightarrow> 'w K8s" where
  "NewK8s e mkClient cfg fs =
     (let ns = (if Namespace cfg = [] then
                  (case read_file (faults e) (path_of (account_dir @ ''namespace'')) fs of
                     Inl _ \<Rightarrow> ''default'' | Inr data \<Rightarrow> data)
                else Namespace cfg);
          ca = (case read_file (faults e) (path_of (account_dir @ ''ca.crt'')) fs of Inl _ \<Rightarrow> None | Inr c \<Rightarrow> Some c)
      in \<lparr>kBase = \<lparr>basePeers = [], callbacks = []\<rparr>, kService = Service cfg, kNamespace = ns,
          kClient = mkClient ca, kStopped = False\<rparr>)"

definition k8s_stop :: "'w K8s \<Rightarrow> 'w K8s" where
  "k8s_stop k = k\<lparr>kStopped := True\<rparr>"

text \<open>The addresses of a subset, with the first port that has the right name.\<close>

definition subset_peers :: "k8sSubset \<Rightarrow> string list" where
  "subset_peers s =
     (let port = (case find (\<lambda>p. portName p = ''http'' \<or> portName p = ''loraplex'') (subsetPorts s) of
                    Some p \<Rightarrow> itoa (sint (portNumber p)) | None \<Rightarrow> ''8080'')
      in map (\<lambda>ip. ip @ '':'' @ port) (subsetAddresses s))"

definition k8s_url :: "'w K8s \<Rightarrow> string" where
  "k8s_url k = ''https://kubernetes.default.svc/api/v1/namespaces/'' @ kNamespace k @ ''/endpoints/'' @ kService k"

text \<open>\<open>fetch\<close>; decoding the answer is a parameter.\<close>

definition k8s_fetch :: "env \<Rightarrow> (string \<Rightarrow> k8sSubset list option) \<Rightarrow> 'w K8s \<Rightarrow> fs \<Rightarrow> 'w \<Rightarrow> 'w K8s \<times> 'w" where
  "k8s_fetch e decode k fs w =
     (case read_file (faults e) (path_of (account_dir @ ''token'')) fs of
        Inl _ \<Rightarrow> (k, w)
      | Inr token \<Rightarrow>
          (case newRequest (kClient k) ''GET'' (k8s_url k) of
             Some _ \<Rightarrow> (k, w)
           | None \<Rightarrow>
               (case roundTrip (kClient k) ''GET'' (k8s_url k) (header_set ''Authorization'' (''Bearer '' @ token) []) [] of
                  Inl _ \<Rightarrow> (k, w)
                | Inr resp \<Rightarrow>
                    if respStatus resp \<noteq> 200 then (k, w)
                    else case decode (respBody resp) of
                      None \<Rightarrow> (k, w)
                    | Some subsets \<Rightarrow>
                        (case SetPeers (concat (map subset_peers subsets)) (kBase k) w of
                           (b, w') \<Rightarrow> (k\<lparr>kBase := b\<rparr>, w')))))"

section \<open>The interface\<close>

datatype 'w Discovery =
    DStatic "'w Base"
  | DFile "'w File"
  | DK8s "'w K8s"

definition NewDiscovery ::
    "env \<Rightarrow> string \<Rightarrow> (string option \<Rightarrow> http_client) \<Rightarrow> DiscoveryConfig \<Rightarrow> string \<Rightarrow> fs \<Rightarrow> 'w Discovery res" where
  "NewDiscovery e hostname mkClient cfg selfAddr fs =
     (if Mode cfg = ''static'' then
        Inr (DStatic (NewStatic (case StaticPeers (StaticCfg cfg) of None \<Rightarrow> [] | Some ps \<Rightarrow> ps)))
      else if Mode cfg = ''file'' then
        (case NewFile hostname (FileCfg cfg) selfAddr of Inl err \<Rightarrow> Inl err | Inr f \<Rightarrow> Inr (DFile f))
      else if Mode cfg = ''k8s'' then Inr (DK8s (NewK8s e mkClient (K8sCfg cfg) fs))
      else Inl (Errorf (''unknown discovery mode: '' @ Mode cfg)))"

text \<open>The list of any of them, and a change to it.\<close>

primrec disc_base :: "'w Discovery \<Rightarrow> 'w Base" where
  "disc_base (DStatic b) = b"
| "disc_base (DFile f) = fBase f"
| "disc_base (DK8s k) = kBase k"

primrec disc_on_change :: "(string list \<Rightarrow> 'w \<Rightarrow> 'w) \<Rightarrow> 'w Discovery \<Rightarrow> 'w Discovery" where
  "disc_on_change fn (DStatic b) = DStatic (OnChange fn b)"
| "disc_on_change fn (DFile f) = DFile (f\<lparr>fBase := OnChange fn (fBase f)\<rparr>)"
| "disc_on_change fn (DK8s k) = DK8s (k\<lparr>kBase := OnChange fn (kBase k)\<rparr>)"

text \<open>\<open>Start\<close>: only the fixed list is announced at once, the others start their loops.\<close>

primrec disc_start :: "env \<Rightarrow> 'w Discovery \<Rightarrow> fs \<Rightarrow> 'w \<Rightarrow> unit res \<times> 'w Discovery \<times> fs \<times> 'w" where
  "disc_start e (DStatic b) fs w = (case static_start b w of (b', w') \<Rightarrow> (Inr (), DStatic b', fs, w'))"
| "disc_start e (DFile f) fs w = (case file_start e f fs of (res, fs') \<Rightarrow> (res, DFile f, fs', w))"
| "disc_start e (DK8s k) fs w = (Inr (), DK8s k, fs, w)"

text \<open>The ticker of the file loop panics for an interval that is not positive.\<close>

primrec disc_panics :: "'w Discovery \<Rightarrow> bool" where
  "disc_panics (DStatic b) = False"
| "disc_panics (DFile f) = (fHeartbeat f <=s 0)"
| "disc_panics (DK8s k) = False"

text \<open>A round of the loops.\<close>

primrec disc_tick :: "env \<Rightarrow> (string \<Rightarrow> k8sSubset list option) \<Rightarrow> 'w Discovery \<Rightarrow> fs \<Rightarrow> 'w \<Rightarrow> 'w Discovery \<times> fs \<times> 'w" where
  "disc_tick e decode (DStatic b) fs w = (DStatic b, fs, w)"
| "disc_tick e decode (DFile f) fs w = (case file_tick e f fs w of (f', fs', w') \<Rightarrow> (DFile f', fs', w'))"
| "disc_tick e decode (DK8s k) fs w = (case k8s_fetch e decode k fs w of (k', w') \<Rightarrow> (DK8s k', fs, w'))"

primrec disc_stop :: "env \<Rightarrow> 'w Discovery \<Rightarrow> fs \<Rightarrow> 'w Discovery \<times> fs" where
  "disc_stop e (DStatic b) fs = (DStatic b, fs)"
| "disc_stop e (DFile f) fs = (case file_stop e f fs of (f', fs') \<Rightarrow> (DFile f', fs'))"
| "disc_stop e (DK8s k) fs = (DK8s (k8s_stop k), fs)"

section \<open>A list that changes only together with its observers\<close>

text \<open>
  A source of peers: whatever a step of it does to the list and the world, it is nothing or one
  \<open>SetPeers\<close>.  Then what an observer makes true of the list it is told stays true of the list.
\<close>

locale peer_source =
  fixes step :: "'x \<Rightarrow> 'w Base \<Rightarrow> 'w \<Rightarrow> 'w Base \<times> 'w"
  assumes step_cases: "step x b w = (b, w) \<or> (\<exists>ps. step x b w = SetPeers ps b w)"
begin

lemma callbacks_kept: "step x b w = (b', w') \<Longrightarrow> callbacks b' = callbacks b"
  using step_cases [of x b w] by (auto simp: SetPeers_def)

lemma observer_in_sync:
  assumes "callbacks b = [cb]" and "\<And>qs ps w. R qs w \<Longrightarrow> R ps (cb ps w)"
    and "R (basePeers b) w" and "step x b w = (b', w')"
  shows "R (basePeers b') w'"
  using step_cases [of x b w] assms by (auto simp: SetPeers_def)

end

lemma SetPeers_simps [simp]:
  "basePeers (fst (SetPeers ps b w)) = ps" "callbacks (fst (SetPeers ps b w)) = callbacks b"
  by (simp_all add: SetPeers_def)

interpretation static_source: peer_source "\<lambda>_ :: unit. static_start"
  by unfold_locales (auto simp: static_start_def)

definition file_step :: "env \<times> 'w File \<times> fs \<Rightarrow> 'w Base \<Rightarrow> 'w \<Rightarrow> 'w Base \<times> 'w" where
  "file_step x b w = (case x of (e, f, fs) \<Rightarrow> (case file_tick e (f\<lparr>fBase := b\<rparr>) fs w of (f', fs', w') \<Rightarrow> (fBase f', w')))"

interpretation file_source: peer_source file_step
proof unfold_locales
  fix x and b :: "'w Base" and w
  show "file_step x b w = (b, w) \<or> (\<exists>ps. file_step x b w = SetPeers ps b w)"
    by (cases x) (auto simp: file_step_def file_tick_def file_scan_def split: sum.split prod.split dest: sym)
qed

definition k8s_step :: "env \<times> (string \<Rightarrow> k8sSubset list option) \<times> 'w K8s \<times> fs \<Rightarrow> 'w Base \<Rightarrow> 'w \<Rightarrow> 'w Base \<times> 'w" where
  "k8s_step x b w = (case x of (e, decode, k, fs) \<Rightarrow> (case k8s_fetch e decode (k\<lparr>kBase := b\<rparr>) fs w of (k', w') \<Rightarrow> (kBase k', w')))"

interpretation k8s_source: peer_source k8s_step
proof unfold_locales
  fix x and b :: "'w Base" and w
  show "k8s_step x b w = (b, w) \<or> (\<exists>ps. k8s_step x b w = SetPeers ps b w)"
    by (cases x) (auto simp: k8s_step_def k8s_fetch_def split: sum.split prod.split option.split dest: sym)
qed

text \<open>Every mode, every round.\<close>

definition disc_step ::
    "env \<times> (string \<Rightarrow> k8sSubset list option) \<times> 'w Discovery \<times> fs \<Rightarrow> 'w Base \<Rightarrow> 'w \<Rightarrow> 'w Base \<times> 'w" where
  "disc_step x b w =
     (case x of (e, decode, d, fs) \<Rightarrow>
        (case d of DStatic _ \<Rightarrow> (b, w) | DFile f \<Rightarrow> file_step (e, f, fs) b w | DK8s k \<Rightarrow> k8s_step (e, decode, k, fs) b w))"

interpretation disc_source: peer_source disc_step
proof unfold_locales
  fix x and b :: "'w Base" and w
  show "disc_step x b w = (b, w) \<or> (\<exists>ps. disc_step x b w = SetPeers ps b w)"
    using file_source.step_cases [of _ b w] k8s_source.step_cases [of _ b w]
    by (auto simp: disc_step_def split: prod.split Discovery.split)
qed

lemma disc_tick_step:
  "disc_tick e decode d fs w = (d', fs', w') \<Longrightarrow> disc_step (e, decode, d, fs) (disc_base d) w = (disc_base d', w')"
  by (cases d) (auto simp: disc_step_def file_step_def k8s_step_def split: prod.splits)

section \<open>What a scan finds\<close>

definition stale_at :: "int \<Rightarrow> 'w File \<Rightarrow> node \<Rightarrow> bool" where
  "stale_at t f n = (case n of FileNode _ m \<Rightarrow> fStale f <s time_since t m | DirNode \<Rightarrow> False)"

definition visible :: "string \<times> node \<Rightarrow> bool" where
  "visible ent \<longleftrightarrow> snd ent \<noteq> DirNode \<and> \<not> prefix ''.'' (fst ent)"

definition first_line :: "node \<Rightarrow> string" where
  "first_line n = (case n of FileNode d _ \<Rightarrow> takeWhile (\<lambda>c. c \<noteq> CHR 0x0A) d | DirNode \<Rightarrow> [])"

text \<open>The addresses in the fresh visible files of a directory.\<close>

definition addresses :: "int \<Rightarrow> 'w File \<Rightarrow> (string \<times> node) list \<Rightarrow> string list" where
  "addresses t f ents =
     map (trim_space \<circ> first_line \<circ> snd)
       (filter (\<lambda>ent. visible ent \<and> \<not> stale_at t f (snd ent) \<and> first_line (snd ent) \<noteq> []) ents)"

definition stale_names :: "int \<Rightarrow> 'w File \<Rightarrow> (string \<times> node) list \<Rightarrow> string set" where
  "stale_names t f ents = fst ` {ent \<in> set ents. visible ent \<and> stale_at t f (snd ent)}"

lemma fs_remove_file:
  assumes wf: "fs_wf fs" and p: "fs_get fs p = Some (FileNode d t)"
  shows "os_remove no_faults p fs = filter (\<lambda>x. fst x \<noteq> p) fs" and "fs_wf (filter (\<lambda>x. fst x \<noteq> p) fs)"
    and "fs_get (filter (\<lambda>x. fst x \<noteq> p) fs) q = (if q = p then None else fs_get fs q)"
proof -
  have ne: "p \<noteq> []" using p by auto
  show get: "fs_get (filter (\<lambda>x. fst x \<noteq> p) fs) q = (if q = p then None else fs_get fs q)" for q
    using ne by (simp add: fs_get_def map_of_filter_fst [of "\<lambda>x. x \<noteq> p"])
  have leaf: "butlast (fst ent) \<noteq> p" if "ent \<in> set fs" for ent
    using wf that p by (auto simp: fs_wf_def)
  then show "fs_wf (filter (\<lambda>x. fst x \<noteq> p) fs)"
    using wf unfolding fs_wf_def get by (auto simp: distinct_map_filter_fst)
  have "\<not> strict_prefix p (fst ent)" if ent: "ent \<in> set fs" for ent
  proof
    assume sp: "strict_prefix p (fst ent)"
    then have "prefix p (butlast (fst ent))"
      by (metis append_butlast_last_id prefix_snoc strict_prefix_def strict_prefix_simps(1) list.exhaust_sel)
    moreover have "fs_get fs (butlast (fst ent)) = Some DirNode" using wf ent by (auto simp: fs_wf_def)
    ultimately have "fs_get fs p = Some DirNode"
      using fs_ancestor [OF wf, of "butlast (fst ent)" p] by (cases "p = butlast (fst ent)") (auto simp: strict_prefix_def)
    then show False using p by simp
  qed
  then show "os_remove no_faults p fs = filter (\<lambda>x. fst x \<noteq> p) fs"
    using ne by (auto simp: os_remove_def no_faults_def)
qed


lemma dir_entries_in:
  assumes wf: "fs_wf fs"
  shows "(name, n) \<in> set (dir_entries fs p) \<longleftrightarrow> (p @ [name], n) \<in> set fs"
proof
  assume "(name, n) \<in> set (dir_entries fs p)"
  then obtain q where "(q, n) \<in> set fs" "q \<noteq> []" "butlast q = p" "last q = name"
    by (auto simp: dir_entries_def)
  then show "(p @ [name], n) \<in> set fs" by (metis append_butlast_last_id)
next
  assume "(p @ [name], n) \<in> set fs"
  then show "(name, n) \<in> set (dir_entries fs p)"
    by (force simp: dir_entries_def image_iff)
qed

lemma distinct_dir_entries:
  assumes wf: "fs_wf fs"
  shows "distinct (map fst (dir_entries fs p))"
proof -
  let ?es = "filter (\<lambda>ent. fst ent \<noteq> [] \<and> butlast (fst ent) = p) fs"
  have d1: "distinct (map fst ?es)" using wf by (simp add: fs_wf_def distinct_map_filter_fst)
  have "inj_on (\<lambda>ent. last (fst ent)) (set ?es)"
  proof (rule inj_onI)
    fix x y assume xy: "x \<in> set ?es" "y \<in> set ?es" and same: "last (fst x) = last (fst y)"
    have "fst x = p @ [last (fst x)]" using xy(1) append_butlast_last_id [of "fst x"] by auto
    moreover have "fst y = p @ [last (fst y)]" using xy(2) append_butlast_last_id [of "fst y"] by auto
    ultimately have "fst x = fst y" using same by simp
    moreover have "inj_on fst (set ?es)" using d1 by (simp only: distinct_map)
    ultimately show "x = y" using xy by (blast dest: inj_onD)
  qed
  then have d: "distinct (map (\<lambda>ent. last (fst ent)) ?es)"
    using d1 by (simp only: distinct_map) 
  have "mset (map fst (dir_entries fs p)) = mset (map (\<lambda>ent. last (fst ent)) ?es)"
    by (simp add: dir_entries_def image_mset.compositionality comp_def)
  then show ?thesis using mset_eq_imp_distinct_iff d by blast
qed

lemma scan_results_Cons:
  "addresses t f (ent # ents) =
     (if visible ent \<and> \<not> stale_at t f (snd ent) \<and> first_line (snd ent) \<noteq> [] then [trim_space (first_line (snd ent))] else [])
     @ addresses t f ents"
  "stale_names t f (ent # ents) =
     (if visible ent \<and> stale_at t f (snd ent) then insert (fst ent) (stale_names t f ents) else stale_names t f ents)"
  by (simp add: addresses_def) (auto simp: stale_names_def)

text \<open>The loop over the entries: the addresses are collected, the stale files go.\<close>

lemma scan_entries:
  assumes "faults e = no_faults" and "fs_wf fs" and "distinct (map fst ents)"
    and "\<forall>ent \<in> set ents. path_of (path_join [fDir f, fst ent]) = D @ [fst ent] \<and> fs_get fs (D @ [fst ent]) = Some (snd ent)"
  shows "foldl (scan_entry e f) (ps, fs) ents
      = (ps @ addresses (now e) f ents, filter (\<lambda>x. fst x \<notin> (\<lambda>name. D @ [name]) ` stale_names (now e) f ents) fs)"
  using assms
proof (induction ents arbitrary: ps fs)
  case Nil
  then show ?case by (simp add: addresses_def stale_names_def)
next
  case (Cons ent ents)
  obtain name n where ent: "ent = (name, n)" by fastforce
  let ?p = "D @ [name]"
  have p: "path_of (path_join [fDir f, name]) = ?p" "fs_get fs ?p = Some n" using Cons.prems(4) ent by simp_all
  have sp: "stat (faults e) ?p fs = Inr n" by (simp add: stat_def Cons.prems(1) no_faults_def p(2))
  show ?case
  proof (cases n)
    case DirNode
    then have "scan_entry e f (ps, fs) ent = (ps, fs)" by (simp add: scan_entry_def ent)
    with DirNode show ?thesis using Cons by (simp add: scan_results_Cons visible_def ent DirNode)
  next
    case (FileNode d t)
    note gone = fs_remove_file [OF Cons.prems(2) p(2) [unfolded FileNode]]
    have rd: "read_file (faults e) ?p fs = Inr d" by (simp add: read_file_def Cons.prems(1) no_faults_def p(2) FileNode)
    consider (hidden) "prefix ''.'' name" | (stale) "\<not> prefix ''.'' name" "stale_at (now e) f n"
      | (fresh) "\<not> prefix ''.'' name" "\<not> stale_at (now e) f n" by blast
    then show ?thesis
    proof cases
      case hidden
      then have "scan_entry e f (ps, fs) ent = (ps, fs)" by (simp add: scan_entry_def ent)
      then show ?thesis using Cons hidden by (simp add: scan_results_Cons visible_def ent)
    next
      case stale
      let ?fs = "filter (\<lambda>x. fst x \<noteq> ?p) fs"
      have step: "scan_entry e f (ps, fs) ent = (ps, ?fs)"
        using stale sp gone(1) by (simp add: scan_entry_def ent p FileNode stale_at_def Let_def Cons.prems(1))
      have rest: "\<forall>ent' \<in> set ents. path_of (path_join [fDir f, fst ent']) = D @ [fst ent'] \<and> fs_get ?fs (D @ [fst ent']) = Some (snd ent')"
        using Cons.prems(3,4) ent by (auto simp: gone(3))
      have sets: "addresses (now e) f (ent # ents) = addresses (now e) f ents"
          "stale_names (now e) f (ent # ents) = insert name (stale_names (now e) f ents)"
        using stale by (simp_all add: scan_results_Cons visible_def ent FileNode)
      have "foldl (scan_entry e f) (ps, fs) (ent # ents) = foldl (scan_entry e f) (ps, ?fs) ents" by (simp add: step)
      also have "\<dots> = (ps @ addresses (now e) f ents, filter (\<lambda>x. fst x \<notin> (\<lambda>name. D @ [name]) ` stale_names (now e) f ents) ?fs)"
        using Cons.IH [OF Cons.prems(1) gone(2) _ rest] Cons.prems(3) by simp
      finally show ?thesis unfolding sets by (auto simp: filter_id_conv intro!: filter_cong)
    next
      case fresh
      have step: "scan_entry e f (ps, fs) ent = (ps @ (if first_line n \<noteq> [] then [trim_space (first_line n)] else []), fs)"
        using fresh sp rd by (simp add: scan_entry_def ent p FileNode stale_at_def Let_def first_line_def)
      have sets: "addresses (now e) f (ent # ents)
            = (if first_line n \<noteq> [] then [trim_space (first_line n)] else []) @ addresses (now e) f ents"
          "stale_names (now e) f (ent # ents) = stale_names (now e) f ents"
        using fresh by (simp_all add: scan_results_Cons visible_def ent FileNode)
      show ?thesis using Cons by (simp add: step sets)
    qed
  qed
qed


lemma file_scan_result:
  assumes ok: "faults e = no_faults" "fs_wf fs" "fs_get fs D = Some DirNode" and D: "is_abs (fDir f)" "D = path_of (fDir f)"
    and names: "\<forall>ent \<in> set fs. \<forall>c \<in> set (fst ent). proper c"
  shows "file_scan e f fs w =
    (f\<lparr>fBase := (fBase f)\<lparr>basePeers := addresses (now e) f (dir_entries fs D)\<rparr>\<rparr>,
     filter (\<lambda>x. fst x \<notin> (\<lambda>name. D @ [name]) ` stale_names (now e) f (dir_entries fs D)) fs,
     foldl (\<lambda>w cb. cb (addresses (now e) f (dir_entries fs D)) w) w (callbacks (fBase f)))"
proof -
  let ?ents = "dir_entries fs D"
  have rd: "read_dir (faults e) D fs = Inr ?ents" by (simp add: read_dir_def ok(1,3) no_faults_def)
  have each: "\<forall>ent \<in> set ?ents. path_of (path_join [fDir f, fst ent]) = D @ [fst ent] \<and> fs_get fs (D @ [fst ent]) = Some (snd ent)"
  proof
    fix ent assume "ent \<in> set ?ents"
    then have "(D @ [fst ent], snd ent) \<in> set fs" using dir_entries_in [OF ok(2), of "fst ent" "snd ent" D] by simp
    moreover from this have "proper (fst ent)" using names by fastforce
    ultimately show "path_of (path_join [fDir f, fst ent]) = D @ [fst ent] \<and> fs_get fs (D @ [fst ent]) = Some (snd ent)"
      using path_of_path_join_entry [OF D(1)] fs_getI [OF ok(2)] D(2) by simp
  qed
  from scan_entries [OF ok(1,2) distinct_dir_entries [OF ok(2)] each, of "[]"]
  show ?thesis by (simp add: file_scan_def D(2) [symmetric] rd SetPeers_def)
qed

section \<open>Properties\<close>

text \<open>C33: A scan of the heartbeat directory sets the peers to the addresses in its fresh visible files, in the
  order of the file names, tells every observer that list, removes exactly the stale visible files, and
  leaves the rest of the disk alone.\<close>

theorem scan_peers_exact:
  assumes "faults e = no_faults" and "fs_wf fs" and "fs_get fs (path_of (fDir f)) = Some DirNode" and "is_abs (fDir f)"
    and "\<forall>ent \<in> set fs. \<forall>c \<in> set (fst ent). proper c"
    and "file_scan e f fs w = (f', fs', w')"
  shows "basePeers (fBase f') = addresses (now e) f (dir_entries fs (path_of (fDir f)))
    \<and> w' = foldl (\<lambda>w cb. cb (basePeers (fBase f')) w) w (callbacks (fBase f))
    \<and> (\<forall>q. fs_get fs' q =
        (if q \<noteq> [] \<and> butlast q = path_of (fDir f) \<and> last q \<in> stale_names (now e) f (dir_entries fs (path_of (fDir f))) then None
         else fs_get fs q))"
proof -
  let ?D = "path_of (fDir f)"
  let ?S = "stale_names (now e) f (dir_entries fs ?D)"
  note run = file_scan_result [OF assms(1-4) refl assms(5), of w, unfolded assms(6)]
  have gone: "q \<in> (\<lambda>name. ?D @ [name]) ` ?S \<longleftrightarrow> q \<noteq> [] \<and> butlast q = ?D \<and> last q \<in> ?S" for q
    by (cases q rule: rev_cases) auto
  have "fs_get fs' q = (if q \<in> (\<lambda>name. ?D @ [name]) ` ?S then None else fs_get fs q)" for q
    using run by (auto simp: fs_get_def map_of_filter_fst [of "\<lambda>r. r \<notin> (\<lambda>name. ?D @ [name]) ` ?S"])
  then show ?thesis using run by (simp add: gone)
qed


text \<open>A directory with a fresh, a stale and a hidden file, and an observer that keeps the list.\<close>

definition scan_env :: env where
  "scan_env = \<lparr>now = 100, faults = no_faults, encodeMeta = (\<lambda>m. Inr []), decodeMeta = (\<lambda>s. Inl (Errorf []))\<rparr>"

definition scan_node :: "string list File" where
  "scan_node = \<lparr>fBase = \<lparr>basePeers = [], callbacks = [\<lambda>ps w. ps]\<rparr>, fDir = ''/h'', fHeartbeat = 5, fStale = 15,
     fSelf = ''p1'', fStopped = False\<rparr>"

definition scan_disk :: fs where
  "scan_disk = [([''h''], DirNode), ([''h'', ''p3''], FileNode (''p3 '' @ [CHR 0x0A] @ ''9'') 90),
     ([''h'', ''p2''], FileNode ''p2'' 10), ([''h'', ''.x''], FileNode ''x'' 100)]"

lemma scan_example:
  "faults scan_env = no_faults" "fs_wf scan_disk" "fs_get scan_disk (path_of (fDir scan_node)) = Some DirNode"
  "is_abs (fDir scan_node)" "\<forall>ent \<in> set scan_disk. \<forall>c \<in> set (fst ent). proper c" "path_of (fDir scan_node) = [''h'']"
  "addresses (now scan_env) scan_node (dir_entries scan_disk [''h'']) = [''p3'']"
  "stale_names (now scan_env) scan_node (dir_entries scan_disk [''h'']) = {''p2''}"
proof -
  show 1: "path_of (fDir scan_node) = [''h'']" by code_simp
  show "faults scan_env = no_faults" by (simp add: scan_env_def)
  show "fs_wf scan_disk" by (simp add: fs_wf_def scan_disk_def fs_get_def)
  show "fs_get scan_disk (path_of (fDir scan_node)) = Some DirNode" by (simp add: 1) (simp add: scan_disk_def fs_get_def)
  show "is_abs (fDir scan_node)" by (simp add: is_abs_def scan_node_def)
  show "\<forall>ent \<in> set scan_disk. \<forall>c \<in> set (fst ent). proper c" by (simp add: scan_disk_def proper_def)
  show "addresses (now scan_env) scan_node (dir_entries scan_disk [''h'']) = [''p3'']" by code_simp
  show "stale_names (now scan_env) scan_node (dir_entries scan_disk [''h'']) = {''p2''}" by code_simp
qed

lemma scan_peers_exact_witness:
  "\<exists>f' fs' w'. file_scan scan_env scan_node scan_disk [] = (f', fs', w') \<and> w' = [''p3''] \<and> basePeers (fBase f') = [''p3'']
    \<and> fs_get fs' [''h'', ''p2''] = None \<and> fs_get fs' [''h'', ''.x''] = Some (FileNode ''x'' 100)"
proof -
  obtain f' fs' w' where run: "file_scan scan_env scan_node scan_disk [] = (f', fs', w')" by (metis prod_cases3)
  have cbs: "callbacks (fBase scan_node) = [\<lambda>ps w. ps]" by (simp add: scan_node_def)
  have x: "fs_get scan_disk [''h'', ''.x''] = Some (FileNode ''x'' 100)" by (simp add: scan_disk_def fs_get_def)
  from scan_peers_exact [OF scan_example(1-5) run] run x show ?thesis unfolding scan_example(6-8) cbs by simp
qed

lemma tick_sees_self:
  assumes ok: "faults e = no_faults" "fs_wf fs" "fs_get fs (path_of (fDir f)) = Some DirNode" "is_abs (fDir f)"
      "\<forall>ent \<in> set fs. \<forall>c \<in> set (fst ent). proper c"
    and self: "proper (fSelf f)" "\<not> prefix ''.'' (fSelf f)" "CHR 0x0A \<notin> set (fSelf f)"
      "fs_get fs (path_of (fDir f) @ [fSelf f]) \<noteq> Some DirNode"
    and stale: "0 <=s fStale f"
    and run: "file_tick e f fs w = (f', fs', w')"
  shows "trim_space (fSelf f) \<in> set (basePeers (fBase f'))
    \<and> fs_get fs' (path_of (fDir f) @ [fSelf f]) = Some (FileNode (fSelf f @ [CHR 0x0A] @ itoa (now e)) (now e))"
proof -
  let ?D = "path_of (fDir f)"
  let ?p = "?D @ [fSelf f]" and ?n = "FileNode (fSelf f @ [CHR 0x0A] @ itoa (now e)) (now e)"
  let ?fs = "(?p, ?n) # filter (\<lambda>x. fst x \<noteq> ?p) fs"
  have raw: "write_raw ?p (fSelf f @ [CHR 0x0A] @ itoa (now e)) (now e) fs = Inr ?fs"
    using ok(3) self(4) by (simp add: write_raw_def)
  have wr: "writeHeartbeat e f fs = ?fs"
    using raw path_of_path_join_entry [OF ok(4) self(1)]
    by (simp add: writeHeartbeat_def write_file_def syscall_def ok(1) no_faults_def)
  have wf: "fs_wf ?fs" using write_raw_wf [OF ok(2) raw] .
  have get: "fs_get ?fs q = (if q = ?p then Some ?n else fs_get fs q)" for q
    using map_of_filter_fst [of "\<lambda>r. r \<noteq> ?p" fs q] by (simp add: fs_get_def)
  have dir: "fs_get ?fs ?D = Some DirNode" using ok(3) by (simp only: get) simp
  have names: "\<forall>ent \<in> set ?fs. \<forall>c \<in> set (fst ent). proper c"
    using ok(5) self(1) path_of_proper [of "fDir f"] by auto
  note res = file_scan_result [OF ok(1) wf dir ok(4) refl names, of w, folded wr]
  have mem: "(fSelf f, ?n) \<in> set (dir_entries ?fs ?D)" using dir_entries_in [OF wf, of "fSelf f" ?n ?D] by simp
  have fresh: "\<not> stale_at (now e) f ?n"
    using stale by (simp add: stale_at_def time_since_def sless_sint sle_sint)
  have line: "first_line ?n = fSelf f" "fSelf f \<noteq> []"
  proof -
    have "takeWhile (\<lambda>c. c \<noteq> CHR 0x0A) (fSelf f @ [CHR 0x0A] @ itoa (now e)) = fSelf f"
      using self(3) by (subst takeWhile_append2) auto
    then show "first_line ?n = fSelf f" by (simp add: first_line_def)
    show "fSelf f \<noteq> []" using self(1) by (auto simp: proper_def)
  qed
  have "trim_space (fSelf f) \<in> set (addresses (now e) f (dir_entries ?fs ?D))"
    using mem fresh line self(2) by (force simp: addresses_def visible_def image_iff)
  moreover have "fSelf f \<notin> stale_names (now e) f (dir_entries ?fs ?D)"
  proof
    assume "fSelf f \<in> stale_names (now e) f (dir_entries ?fs ?D)"
    then obtain n where n: "(fSelf f, n) \<in> set (dir_entries ?fs ?D)" "stale_at (now e) f n"
      by (auto simp: stale_names_def)
    then have "n = ?n" using dir_entries_in [OF wf, of "fSelf f" n ?D] by auto
    then show False using n(2) fresh by simp
  qed
  ultimately show ?thesis
    using run res get [of ?p] unfolding file_tick_def
    by (auto simp: wr fs_get_def map_of_filter_fst [of "\<lambda>r. r \<notin> (\<lambda>name. ?D @ [name]) ` stale_names (now e) f (dir_entries ?fs ?D)"])
qed

text \<open>A node that beats finds itself: after a heartbeat and a scan the node's own file is fresh and its own
  address is among the peers.\<close>

theorem heartbeat_sees_self:
  assumes ok: "faults e = no_faults" "fs_wf fs" "fs_get fs (path_of (fDir f)) = Some DirNode" "is_abs (fDir f)"
      "\<forall>ent \<in> set fs. \<forall>c \<in> set (fst ent). proper c"
    and self: "proper (fSelf f)" "\<not> prefix ''.'' (fSelf f)" "CHR 0x0A \<notin> set (fSelf f)"
      "fs_get fs (path_of (fDir f) @ [fSelf f]) \<noteq> Some DirNode"
    and stale: "0 <=s fStale f"
    and run: "file_tick e f fs w = (f', fs', w')"
  shows "trim_space (fSelf f) \<in> set (basePeers (fBase f'))
    \<and> fs_get fs' (path_of (fDir f) @ [fSelf f]) = Some (FileNode (fSelf f @ [CHR 0x0A] @ itoa (now e)) (now e))"
  by (rule tick_sees_self [OF assms])

lemma heartbeat_sees_self_witness:
  "\<exists>f' fs' w'. file_tick scan_env scan_node scan_disk [] = (f', fs', w') \<and> ''p1'' \<in> set (basePeers (fBase f'))"
proof -
  obtain f' fs' w' where run: "file_tick scan_env scan_node scan_disk [] = (f', fs', w')" by (metis prod_cases3)
  have self: "fSelf scan_node = ''p1''" "fStale scan_node = 15" by (simp_all add: scan_node_def)
  have p: "proper (fSelf scan_node)" "\<not> prefix ''.'' (fSelf scan_node)" "CHR 0x0A \<notin> set (fSelf scan_node)"
      "fs_get scan_disk (path_of (fDir scan_node) @ [fSelf scan_node]) \<noteq> Some DirNode" "0 <=s fStale scan_node"
      "trim_space (fSelf scan_node) = ''p1''"
    unfolding self scan_example(6) by (simp_all add: proper_def scan_disk_def fs_get_def trim_space_def is_space_def sle_sint)
  from heartbeat_sees_self [OF scan_example(1-5) p(1-5) run] run p(6) show ?thesis by auto
qed

end
