(* ===== verification/Node.thy ===== *)
theory Node
  imports Server Discovery
begin

text \<open>
  A node at work: its parts, which share the ring and the cache, the callback that rebuilds the ring
  (\<open>cmd/loraplex/main.go\<close>), the server's handler on it, and everything that can happen to it as a
  relation labelled with events.  The lemmas show
  that every step keeps the invariant that ties the parts together, and that every metric call is
  declared.  What is outside of the repository (clients, the object store, the host name, SHA-256, the
  sorting functions) is gathered in the record \<open>outside\<close>; a process that panics is \<open>None\<close>.
\<close>

section \<open>What is outside\<close>

record outside =
  oHostname :: string
  oCluster :: "string option \<Rightarrow> http_client"
  oS3 :: "string \<Rightarrow> s3_client res"
  oClient :: http_client
  oRepoInfo :: "string \<Rightarrow> string res"
  oPeer :: "int64 \<Rightarrow> http_client"
  oHealth :: http_client
  oVllm :: http_client
  oSha :: "string \<Rightarrow> uint32"
  oSortInfos :: "adapterInfo list \<Rightarrow> adapterInfo list"
  oSortVnodes :: "vnode list \<Rightarrow> vnode list"

section \<open>A node\<close>

type_synonym world = "(Ring \<times> metrics) option"

record Node =
  nMgr :: Manager
  nDisk :: fs
  nTasks :: "task list"
  nRing :: Ring
  nFwd :: Forwarder
  nProxy :: Proxy
  nChecker :: Checker
  nDisc :: "world Discovery"
  nOuter :: fs
  nInflight :: "request list"
  nChecks :: "Peer list"
  nOutbox :: "(Peer \<times> string) list"
  nLog :: metrics

text \<open>The callback that rebuilds the ring.\<close>

definition ring_changed :: "outside \<Rightarrow> string list \<Rightarrow> world \<Rightarrow> world" where
  "ring_changed out ps w =
     (case w of None \<Rightarrow> None
      | Some (r, ms) \<Rightarrow>
          (case ring_update (oSortVnodes out) (oSha out) ps r of
             None \<Rightarrow> None
           | Some r' \<Rightarrow> Some (r', ms @ [GaugeSet ''loraplex_peers_active'' [] (int (length ps)),
                                       CounterAdd ''loraplex_ring_rebuilds_total'' [] 1])))"

text \<open>What \<open>updateMetricsLoop\<close> does at every tick.\<close>

definition gauges_tick :: "Manager \<Rightarrow> metrics" where
  "gauges_tick m = UpdateCacheGauges ''local'' (lru_size (lru (store m))) (lru_len (lru (store m)))"

section \<open>The node at work\<close>

text \<open>The decoders of what the node receives.\<close>

record decoders =
  dBody :: "string \<Rightarrow> string option"
  dAdmin :: json_codec
  dHealthz :: "string \<Rightarrow> HealthResponse option"
  dEndpoints :: "string \<Rightarrow> k8sSubset list option"

text \<open>
  What can happen to a node: a request arrives for the proxy and is counted, or is served and the count
  goes down; an administration request; an eviction sent to a peer; a background revalidation; a round of
  health checks and the checks it started; a round of discovery; an update of the cache gauges.  Every
  event has its own clock and faults.
\<close>

datatype event = EArrive | EServe | EAdmin | ESend | ERevalidate | EHealthRound | ECheck | EDiscover | EGauges

inductive node_event :: "outside \<Rightarrow> decoders \<Rightarrow> event \<Rightarrow> Node \<Rightarrow> Node \<Rightarrow> bool" for out d where
  Arrive: "mux_route (reqMethod r) (reqPath r) = ToProxy \<Longrightarrow>
    node_event out d EArrive n (n\<lparr>nChecker := IncrPending (nChecker n), nInflight := nInflight n @ [r]\<rparr>)"
| Serve: "nInflight n = rs1 @ r # rs2 \<Longrightarrow>
    ServeHTTP e (dBody d) (oSha out) (nRing n) (nFwd n) (nProxy n) r (nMgr n) (nDisk n) = s \<Longrightarrow>
    node_event out d EServe n (n\<lparr>nMgr := servedMgr s, nDisk := servedDisk s, nTasks := nTasks n @ servedTasks s,
      nLog := nLog n @ servedMetrics s, nChecker := DecrPending (nChecker n), nInflight := rs1 @ rs2\<rparr>)"
| Administer: "mux_route (reqMethod r) (reqPath r) = ToAdmin \<Longrightarrow>
    admin_ServeHTTP es (dAdmin d) (nRing n) r (nMgr n) (nDisk n) = a \<Longrightarrow>
    node_event out d EAdmin n (n\<lparr>nMgr := aMgr a, nDisk := aDisk a, nTasks := nTasks n @ aTasks a,
      nLog := nLog n @ aMetrics a, nOutbox := nOutbox n @ aBroadcast a\<rparr>)"
| SendEvict: "nOutbox n = bs1 @ b # bs2 \<Longrightarrow> node_event out d ESend n (n\<lparr>nOutbox := bs1 @ bs2\<rparr>)"
| Revalidation: "nTasks n = ts1 @ t # ts2 \<Longrightarrow> run_task e (nMgr n) t (nDisk n) = (m', dsk', ms) \<Longrightarrow>
    node_event out d ERevalidate n (n\<lparr>nMgr := m', nDisk := dsk', nTasks := ts1 @ ts2, nLog := nLog n @ ms\<rparr>)"
| HealthRound: "checkPeers (nChecker n) (nRing n) = (c', ms, ps) \<Longrightarrow>
    node_event out d EHealthRound n (n\<lparr>nChecker := c', nLog := nLog n @ ms, nChecks := nChecks n @ ps\<rparr>)"
| Check: "nChecks n = ps1 @ p # ps2 \<Longrightarrow>
    node_event out d ECheck n (n\<lparr>nRing := checkPeer (dHealthz d) (nChecker n) p (nRing n), nChecks := ps1 @ ps2\<rparr>)"
| Discover: "disc_tick e (dEndpoints d) (nDisc n) (nOuter n) (Some (nRing n, [])) = (disc', outer', Some (ring', ms)) \<Longrightarrow>
    node_event out d EDiscover n (n\<lparr>nDisc := disc', nOuter := outer', nRing := ring', nLog := nLog n @ ms\<rparr>)"
| Gauges: "node_event out d EGauges n (n\<lparr>nLog := nLog n
    @ gauges_tick (nMgr n)\<rparr>)"

text \<open>A step is any of the events.\<close>

definition node_step :: "outside \<Rightarrow> decoders \<Rightarrow> Node \<Rightarrow> Node \<Rightarrow> bool" where
  "node_step out d n n' \<longleftrightarrow> (\<exists>ev. node_event out d ev n n')"

lemma node_stepI: "node_event out d ev n n' \<Longrightarrow> node_step out d n n'"
  by (auto simp: node_step_def)

section \<open>One request at a time\<close>

text \<open>
  The handler of the server: the mux finds the part of the node that answers.  What \<open>/metrics\<close> shows of
  the calls made so far is the library's; a redirect keeps the query (escaping in its location is left
  out).
\<close>

definition redirect_reply :: "request \<Rightarrow> string \<Rightarrow> reply" where
  "redirect_reply r p =
     (let loc = p @ (if reqQuery r \<noteq> [] then ''?'' @ reqQuery r else [])
      in \<lparr>replyStatus = 301,
          replyHeader = (''Location'', [loc]) #
            (if reqMethod r = ''GET'' \<or> reqMethod r = ''HEAD'' then [(''Content-Type'', [''text/html; charset=utf-8''])] else []),
          replyBody = (if reqMethod r = ''GET''
            then ''<a href='' @ [CHR 0x22] @ loc @ [CHR 0x22] @ ''>Moved Permanently</a>.'' @ [CHR 0x0A, CHR 0x0A] else [])\<rparr>)"

definition server_handle ::
    "outside \<Rightarrow> decoders \<Rightarrow> (HealthResponse \<Rightarrow> string) \<Rightarrow> (metrics \<Rightarrow> reply) \<Rightarrow> (nat \<Rightarrow> env) \<Rightarrow> Node \<Rightarrow> request \<Rightarrow>
     reply option \<times> Node" where
  "server_handle out d enc scrape es n r =
     (case mux_route (reqMethod r) (reqPath r) of
        ToHealth \<Rightarrow> (Some (health_ServeHTTP enc (nChecker n)), n)
      | ToMetrics \<Rightarrow> (Some (scrape (nLog n)), n)
      | ToAdmin \<Rightarrow>
          (let a = admin_ServeHTTP es (dAdmin d) (nRing n) r (nMgr n) (nDisk n)
           in (Some (aReply a), n\<lparr>nMgr := aMgr a, nDisk := aDisk a, nTasks := nTasks n @ aTasks a,
                 nLog := nLog n @ aMetrics a, nOutbox := nOutbox n @ aBroadcast a\<rparr>))
      | ToProxy \<Rightarrow>
          (case serve_counted (es 0) (dBody d) (oSha out) (nRing n) (nFwd n) (nProxy n) r (nMgr n) (nDisk n) (nChecker n) of
             (s, c) \<Rightarrow> (servedReply s, n\<lparr>nMgr := servedMgr s, nDisk := servedDisk s, nTasks := nTasks n @ servedTasks s,
               nLog := nLog n @ servedMetrics s, nChecker := c\<rparr>))
      | RedirectTo p \<Rightarrow> (Some (redirect_reply r p), n))"


section \<open>A ring in step with the list of peers\<close>

definition synced :: "outside \<Rightarrow> string \<Rightarrow> int64 \<Rightarrow> string list \<Rightarrow> world \<Rightarrow> bool" where
  "synced out addr k ps w \<longleftrightarrow>
     (case w of None \<Rightarrow> True
      | Some (r, ms) \<Rightarrow> ring_inv r \<and> self r = addr \<and> vnodesPerPeer r = k
          \<and> set (vnodes r) = vnodes_of (oSha out) k (set ps) \<and> (\<forall>a. map_of (peers r) a \<noteq> None \<longleftrightarrow> a \<in> set ps))"

definition located :: "string \<Rightarrow> int64 \<Rightarrow> world \<Rightarrow> bool" where
  "located addr k w \<longleftrightarrow> (case w of None \<Rightarrow> True | Some (r, ms) \<Rightarrow> self r = addr \<and> vnodesPerPeer r = k)"

lemma synced_located: "synced out addr k ps w \<Longrightarrow> located addr k w"
  by (auto simp: synced_def located_def split: option.splits)

lemma ring_changed_syncs:
  assumes srt: "slice_sorter vhash (oSortVnodes out)" and "located addr k w"
  shows "synced out addr k ps (ring_changed out ps w)"
proof (cases w)
  case None
  then show ?thesis by (simp add: synced_def ring_changed_def)
next
  case (Some rm)
  obtain r ms where rm: "rm = (r, ms)" by fastforce
  show ?thesis
  proof (cases "ring_update (oSortVnodes out) (oSha out) ps r")
    case None
    then show ?thesis using Some rm by (simp add: synced_def ring_changed_def)
  next
    case up: (Some r')
    note props = ring_update_props [OF srt up]
    show ?thesis using assms(2) Some rm up props by (simp add: synced_def ring_changed_def located_def)
  qed
qed

lemma new_ring_synced: "synced out addr k [] (Some (NewRing k addr, ms))"
  by (simp add: synced_def NewRing_def ring_inv_def vnodes_of_def)

section \<open>The node's invariant\<close>

definition cache_of :: "Node \<Rightarrow> cache_system" where
  "cache_of n = \<lparr>mgr = nMgr n, disk = nDisk n, pending = nTasks n, logged = []\<rparr>"

text \<open>
  The cache is as it should be, the ring is the one of the peers discovery reports, and the count of
  pending requests is the number of requests being served.
\<close>

definition node_inv :: "outside \<Rightarrow> string \<Rightarrow> int64 \<Rightarrow> string \<Rightarrow> OriginFetcher list \<Rightarrow> fs \<Rightarrow> Node \<Rightarrow> bool" where
  "node_inv out addr k base os dsk0 n \<longleftrightarrow>
     cache_inv base os dsk0 (cache_of n)
     \<and> synced out addr k (basePeers (disc_base (nDisc n))) (Some (nRing n, []))
     \<and> callbacks (disc_base (nDisc n)) = [ring_changed out]
     \<and> pendingCount (nChecker n) = of_nat (length (nInflight n))"

lemma cache_steps_inv:
  assumes "path_of base \<noteq> []" and "origins_ok os" and "cache_inv base os dsk0 c" and "cache_step\<^sup>*\<^sup>* c c'"
  shows "cache_inv base os dsk0 c'"
  using assms(4,3) by (induction rule: rtranclp_induct) (auto intro: cache_step_inv [OF assms(1,2)])

lemma cache_inv_logged: "cache_inv base os dsk0 (c\<lparr>logged := ms\<rparr>) = cache_inv base os dsk0 c"
  by (simp add: cache_inv_def)

lemma node_cache_after:
  assumes "path_of base \<noteq> []" and "origins_ok os" and "cache_inv base os dsk0 (cache_of n)"
    and "cache_step\<^sup>*\<^sup>* (cache_of n) (after (cache_of n) m fs ts ms)"
  shows "cache_inv base os dsk0 \<lparr>mgr = m, disk = fs, pending = nTasks n @ ts, logged = []\<rparr>"
  using cache_steps_inv [OF assms] cache_inv_logged [where c = "after (cache_of n) m fs ts ms" and ms = "[]"]
  by (simp add: after_def cache_of_def)

lemma synced_update:
  "synced out addr k ps (Some (r, [])) \<Longrightarrow> synced out addr k ps (Some (checkPeer dec c p r, []))"
  by (auto simp: synced_def checkPeer_peers intro: inv_intros)

lemma discover_synced:
  assumes srt: "slice_sorter vhash (oSortVnodes out)" and cbs: "callbacks (disc_base disc) = [ring_changed out]"
    and sync: "synced out addr k (basePeers (disc_base disc)) (Some (r, []))"
    and run: "disc_tick e dec disc outer (Some (r, [])) = (disc', outer', Some (r', ms))"
  shows "synced out addr k (basePeers (disc_base disc')) (Some (r', [])) \<and> callbacks (disc_base disc') = [ring_changed out]"
proof -
  note st = disc_tick_step [OF run]
  have "synced out addr k (basePeers (disc_base disc')) (Some (r', ms))"
    by (rule disc_source.observer_in_sync [where R = "synced out addr k", OF cbs _ sync st])
      (rule ring_changed_syncs [OF srt synced_located])
  then show ?thesis using disc_source.callbacks_kept [OF st] cbs by (simp add: synced_def)
qed

lemma node_step_inv:
  assumes srt: "slice_sorter vhash (oSortVnodes out)" and ne: "path_of base \<noteq> []" and os: "origins_ok os"
    and inv: "node_inv out addr k base os dsk0 n" and step: "node_step out d n n'"
  shows "node_inv out addr k base os dsk0 n'"
proof -
  have cache: "cache_inv base os dsk0 (cache_of n)"
    and sync: "synced out addr k (basePeers (disc_base (nDisc n))) (Some (nRing n, []))"
    and cbs: "callbacks (disc_base (nDisc n)) = [ring_changed out]"
    and pend: "pendingCount (nChecker n) = of_nat (length (nInflight n))"
    using inv by (simp_all add: node_inv_def)
  note keep = node_inv_def cache_of_def
  from step obtain ev where "node_event out d ev n n'" by (auto simp: node_step_def)
  then show ?thesis
  proof (cases rule: node_event.cases)
    case (Arrive r)
    then show ?thesis using cache sync cbs pend by (simp add: keep IncrPending_def)
  next
    case (Serve rs1 r rs2 e s)
    obtain ms where "cache_step\<^sup>*\<^sup>* (cache_of n) (after (cache_of n) (servedMgr s) (servedDisk s) (servedTasks s) ms)"
      using serve_steps [of e "dBody d" "oSha out" "nRing n" "nFwd n" "nProxy n" r "cache_of n" s] Serve(4)
      by (auto simp: cache_of_def)
    from node_cache_after [OF ne os cache this] show ?thesis
      using Serve sync cbs pend by (simp add: keep DecrPending_def)
  next
    case (Administer r es a)
    have "cache_step\<^sup>*\<^sup>* (cache_of n) (after (cache_of n) (aMgr a) (aDisk a) (aTasks a) (aMetrics a))"
      using admin_steps [of es "dAdmin d" "nRing n" r "cache_of n" a] Administer(4) by (simp add: cache_of_def)
    from node_cache_after [OF ne os cache this] show ?thesis
      using Administer sync cbs pend by (simp add: keep)
  next
    case (SendEvict bs1 b bs2)
    then show ?thesis using cache sync cbs pend by (simp add: keep)
  next
    case (Revalidation ts1 t ts2 e m' dsk' ms)
    have "cache_step (cache_of n) \<lparr>mgr = m', disk = dsk', pending = ts1 @ ts2, logged = logged (cache_of n) @ ms\<rparr>"
      by (rule cache_step.Revalidate) (use Revalidation in \<open>simp_all add: cache_of_def\<close>)
    from cache_step_inv [OF ne os cache this]
    have "cache_inv base os dsk0 \<lparr>mgr = m', disk = dsk', pending = ts1 @ ts2, logged = []\<rparr>" by (simp add: cache_inv_def)
    then show ?thesis using Revalidation sync cbs pend by (simp add: keep)
  next
    case (HealthRound c' ms ps)
    have "pendingCount c' = pendingCount (nChecker n)"
      using HealthRound(3) by (auto simp: checkPeers_def checkVLLM_def Let_def split: if_splits option.splits)
    then show ?thesis using HealthRound cache sync cbs pend by (simp add: keep)
  next
    case (Check ps1 p ps2)
    then show ?thesis using cache synced_update [OF sync] cbs pend by (simp add: keep)
  next
    case (Discover e disc' outer' ring' ms)
    then show ?thesis using discover_synced [OF srt cbs sync Discover(3)] cache pend by (simp add: keep)
  next
    case Gauges
    then show ?thesis using cache sync cbs pend by (simp add: keep)
  qed
qed

section \<open>Every metric is declared\<close>


lemma fetch_declared: "fetchFromOrigin e m aid fs = (r, s, fs', ms) \<Longrightarrow> list_all declared ms"
proof -
  assume run: "fetchFromOrigin e m aid fs = (r, s, fs', ms)"
  have inst: "list_all declared ms" if "install e t aid tmp fr s fs = (r, s', fs', ms)" for e t aid tmp fr s fs r s' fs' ms
    using that by (auto simp: install_def split: prod.splits sum.splits if_splits)
  show "list_all declared ms"
    using run by (auto simp: fetchFromOrigin_def Let_def split: prod.splits sum.splits option.splits dest: inst)
qed

lemma ensure_declared: "EnsureAdapter e m aid fs = (r, m', fs', ms, ts) \<Longrightarrow> list_all declared ms"
  by (auto simp: EnsureAdapter_def ensureInternal_def split: prod.splits sum.splits if_splits dest: fetch_declared)

lemma task_declared: "run_task e m t fs = (m', fs', ms) \<Longrightarrow> list_all declared ms"
  by (auto simp: run_task_def revalidateAdapter_def Let_def split: prod.splits option.splits if_splits dest: fetch_declared)

lemma via_declared [simp]:
  "list_all declared (servedMetrics (via_vllm p r info tier s)) = list_all declared (servedMetrics s)"
  by (simp add: via_vllm_def split: prod.split)

lemma serve_declared: "list_all declared (servedMetrics (ServeHTTP e json sha ring f p r m fs))"
proof (cases rule: serve_cases [where e = e and json = json and sha = sha and ring = ring and f = f and p = p and r = r and m = m and fs = fs])
  case (local info sent ms)
  let ?s1 = "served_start m fs\<lparr>toPeers := sent, servedMetrics := ms\<rparr>"
  have ms: "list_all declared (servedMetrics ?s1)" using local(3) by auto
  show ?thesis unfolding local(2)
  proof (cases rule: locally_cases [where e = e and p = p and r = r and info = info and base = "base_request p info" and ?s1.0 = ?s1])
    case base
    then show "list_all declared (servedMetrics (serve_locally e p r info (base_request p info) ?s1))" using ms by simp
  next
    case (present res m' fs' ms' ts s2)
    then show "list_all declared (servedMetrics (serve_locally e p r info (base_request p info) ?s1))"
      using ms ensure_declared [OF present(2)] by simp
  next
    case (absent err m' fs' ms' ts s2)
    then show "list_all declared (servedMetrics (serve_locally e p r info (base_request p info) ?s1))"
      using ms ensure_declared [OF absent(2)] by simp
  qed
qed (simp_all add: served_start_def)

lemma warmup_declared: "warmup_loop es i aids m fs = (rs, m', fs', ms, ts) \<Longrightarrow> list_all declared ms"
  by (induction aids arbitrary: i m fs rs m' fs' ms ts) (auto simp: Let_def split: prod.splits dest: ensure_declared)

lemma admin_declared: "list_all declared (aMetrics (admin_ServeHTTP es j ring r m fs))"
  using warmup_declared [of es 0]
  by (auto simp: admin_ServeHTTP_def admin_evict_def admin_warmup_def Let_def split: option.split sum.split prod.split)

definition world_declared :: "world \<Rightarrow> bool" where
  "world_declared w \<longleftrightarrow> (case w of None \<Rightarrow> True | Some (r, ms) \<Rightarrow> list_all declared ms)"

lemma ring_changed_declared: "world_declared w \<Longrightarrow> world_declared (ring_changed out ps w)"
  by (auto simp: world_declared_def ring_changed_def split: option.split)

lemma node_step_declared:
  assumes "node_step out d n n'" and "list_all declared (nLog n)" and cbs: "callbacks (disc_base (nDisc n)) = [ring_changed out]"
  shows "list_all declared (nLog n') \<and> callbacks (disc_base (nDisc n')) = [ring_changed out]"
proof -
  from assms(1) obtain ev where "node_event out d ev n n'" by (auto simp: node_step_def)
  then show ?thesis
  proof (cases rule: node_event.cases)
    case (Serve rs1 r rs2 e s)
    then show ?thesis using assms(2) cbs serve_declared by auto
  next
    case (Administer r es a)
    then show ?thesis using assms(2) cbs admin_declared by auto
  next
    case (Revalidation ts1 t ts2 e m' dsk' ms)
    then show ?thesis using assms(2) cbs task_declared [OF Revalidation(4)] by simp
  next
    case (HealthRound c' ms ps)
    have "list_all declared ms"
      using HealthRound(3) by (auto simp: checkPeers_def checkVLLM_def Let_def split: if_splits option.splits)
    then show ?thesis using HealthRound assms(2) cbs by simp
  next
    case (Discover e disc' outer' ring' ms)
    note st = disc_tick_step [OF Discover(3)]
    have "world_declared (Some (ring', ms))"
      by (rule disc_source.observer_in_sync [where R = "\<lambda>ps. world_declared", OF cbs ring_changed_declared _ st])
        (simp_all add: world_declared_def)
    then show ?thesis using Discover assms(2) disc_source.callbacks_kept [OF st] cbs by (simp add: world_declared_def)
  qed (use assms(2) cbs in \<open>simp_all add: gauges_tick_def\<close>)
qed

end
