(* ===== verification/Loraplex.thy ===== *)
theory Loraplex
  imports Node
begin

text \<open>
  \<open>cmd/loraplex/main.go\<close> and \<open>internal/origin/origin.go\<close>: from the command line and the configuration
  to a running node, and what holds of a node from its start on.
\<close>

section \<open>Command line\<close>

definition loadConfig ::
    "faults \<Rightarrow> (string \<Rightarrow> string) \<Rightarrow> (string \<Rightarrow> Config \<Rightarrow> Config res) \<Rightarrow> string \<Rightarrow> fs \<Rightarrow> Config res" where
  "loadConfig flt getenv yaml path fs = (if path \<noteq> [] then Load flt getenv yaml path fs else Inr Default)"

text \<open>The loop of \<open>splitPeers\<close>: the peers found and where the current one starts.\<close>

definition split_step :: "string \<Rightarrow> string list \<times> nat \<Rightarrow> nat \<Rightarrow> string list \<times> nat" where
  "split_step s acc i =
     (case acc of (result, start) \<Rightarrow>
        if s ! i = CHR '','' then
          (let p = take (i - start) (drop start s) in (if p \<noteq> [] then result @ [p] else result, i + 1))
        else (result, start))"

definition splitPeers :: "string \<Rightarrow> string list" where
  "splitPeers s =
     (case foldl (split_step s) ([], 0) [0..<length s] of
        (result, start) \<Rightarrow> if start < length s then result @ [drop start s] else result)"

text \<open>A flag that is not empty overrides the configuration.\<close>

definition override :: "string \<Rightarrow> string \<Rightarrow> string" where
  "override flag v = (if flag \<noteq> [] then flag else v)"

definition applyOverrides :: "string \<Rightarrow> string \<Rightarrow> string \<Rightarrow> string \<Rightarrow> string \<Rightarrow> string \<Rightarrow> Config \<Rightarrow> Config" where
  "applyOverrides listen selfAddr vllm dir disc peerList cfg =
     (let lis = or_default [] '':8080'' (override listen (Listen cfg));
          ps = (if peerList = [] then StaticPeers (StaticCfg (Discovery cfg))
                else if splitPeers peerList = [] then None else Some (splitPeers peerList))
      in cfg
        \<lparr>SelfAddr := override selfAddr (SelfAddr cfg),
         Listen := lis,
         VLLMUrl := or_default [] ''http://localhost:8000'' (override vllm (VLLMUrl cfg)),
         Storage := (Storage cfg)
           \<lparr>Dir := or_default [] ''/mnt/nvme/loraplex'' (override dir (Dir (Storage cfg))),
            MaxSize := or_default [] ''100GB'' (MaxSize (Storage cfg))\<rparr>,
         Discovery := (Discovery cfg)
           \<lparr>Mode := or_default [] ''static'' (override disc (Mode (Discovery cfg))),
            StaticCfg := (StaticCfg (Discovery cfg))\<lparr>StaticPeers := or_default None (Some [lis]) ps\<rparr>,
            FileCfg := (FileCfg (Discovery cfg))
              \<lparr>HeartbeatInterval := or_default [] ''5s'' (HeartbeatInterval (FileCfg (Discovery cfg))),
               StaleThreshold := or_default [] ''15s'' (StaleThreshold (FileCfg (Discovery cfg)))\<rparr>\<rparr>,
         Routing := (Routing cfg)
           \<lparr>HashOn := or_default [] ''model'' (HashOn (Routing cfg)),
            VnodesPerPeer := or_default 0 150 (VnodesPerPeer (Routing cfg)),
            ForwardTimeout := or_default [] ''5s'' (ForwardTimeout (Routing cfg)),
            OverflowThreshold := or_default 0 (8 / 10) (OverflowThreshold (Routing cfg))\<rparr>,
         Invalidation := (Invalidation cfg)\<lparr>TTL := or_default [] ''1h'' (TTL (Invalidation cfg))\<rparr>,
         VLLM := (VLLM cfg)\<lparr>HealthCheckInterval := or_default [] ''10s'' (HealthCheckInterval (VLLM cfg))\<rparr>\<rparr>)"

section \<open>Splitting the list of peers\<close>

lemma split_on_snoc:
  "split_on c (t @ [x]) = (if x = c then split_on c t @ [[]] else butlast (split_on c t) @ [last (split_on c t) @ [x]])"
proof (induction t)
  case Nil
  then show ?case by simp
next
  case (Cons y t)
  obtain p ps where p: "split_on c t = p # ps" using split_on_ne [of c t] by (cases "split_on c t") auto
  show ?case
  proof (cases "y = c")
    case True
    then show ?thesis using Cons p by simp
  next
    case False
    then show ?thesis using Cons p by (cases "x = c"; cases ps) auto
  qed
qed

lemma split_on_last: "drop (length t - length (last (split_on c t))) t = last (split_on c t) \<and> length (last (split_on c t)) \<le> length t"
proof (induction t rule: rev_induct)
  case Nil
  then show ?case by simp
next
  case (snoc x t)
  then show ?case by (cases "x = c") (simp_all add: split_on_snoc Suc_diff_le)
qed

lemma filter_last: "xs \<noteq> [] \<Longrightarrow> filter P xs = filter P (butlast xs) @ (if P (last xs) then [last xs] else [])"
  by (cases xs rule: rev_cases) auto

lemma split_loop:
  "i \<le> length s \<Longrightarrow> foldl (split_step s) ([], 0) [0..<i]
    = (filter (\<lambda>p. p \<noteq> []) (butlast (split_on CHR '','' (take i s))), i - length (last (split_on CHR '','' (take i s))))"
proof (induction i)
  case 0
  then show ?case by simp
next
  case (Suc i)
  let ?t = "take i s" and ?c = "CHR '','' :: char"
  let ?l = "last (split_on ?c ?t)"
  have t: "take (Suc i) s = ?t @ [s ! i]" using Suc.prems by (simp add: take_Suc_conv_app_nth)
  have len: "length ?t = i" using Suc.prems by simp
  have last: "drop (i - length ?l) ?t = ?l" "length ?l \<le> i" using split_on_last [of ?t ?c] len by simp_all
  have piece: "take (i - (i - length ?l)) (drop (i - length ?l) s) = ?l"
    using last by (metis drop_take)
  show ?case
  proof (cases "s ! i = ?c")
    case True
    have "split_on ?c (take (Suc i) s) = split_on ?c ?t @ [[]]" by (simp add: t split_on_snoc True)
    moreover have "filter (\<lambda>p. p \<noteq> []) (split_on ?c ?t) = filter (\<lambda>p. p \<noteq> []) (butlast (split_on ?c ?t)) @ (if ?l \<noteq> [] then [?l] else [])"
      by (rule filter_last) simp
    ultimately show ?thesis using Suc True piece by (simp add: split_step_def Let_def)
  next
    case False
    have "split_on ?c (take (Suc i) s) = butlast (split_on ?c ?t) @ [?l @ [s ! i]]" by (simp add: t split_on_snoc False)
    then show ?thesis using Suc False by (simp add: split_step_def)
  qed
qed

text \<open>The index loop of \<open>splitPeers\<close> returns the non-empty pieces between the commas, in order.\<close>

theorem split_peers_pieces: "splitPeers s = filter (\<lambda>p. p \<noteq> []) (split_on CHR '','' s)"
proof -
  let ?c = "CHR '','' :: char"
  let ?l = "last (split_on ?c s)"
  have l: "drop (length s - length ?l) s = ?l" "length ?l \<le> length s" using split_on_last [of s ?c] by simp_all
  have "filter (\<lambda>p. p \<noteq> []) (split_on ?c s) = filter (\<lambda>p. p \<noteq> []) (butlast (split_on ?c s)) @ (if ?l \<noteq> [] then [?l] else [])"
    by (rule filter_last) simp
  moreover have "(length s - length ?l < length s) = (?l \<noteq> [])" using l(2) by (cases ?l) auto
  ultimately show ?thesis using l(1) split_loop [of "length s" s] by (simp add: splitPeers_def)
qed

section \<open>Overrides\<close>

lemma no_flags: "complete cfg \<Longrightarrow> applyOverrides [] [] [] [] [] [] cfg = cfg"
  unfolding complete_def applyOverrides_def by (simp add: override_def or_default_same Let_def)

section \<open>Origins\<close>

fun FromConfig :: "outside \<Rightarrow> OriginConfig list \<Rightarrow> OriginFetcher list \<Rightarrow> OriginFetcher list res" where
  "FromConfig out [] os = Inr os"
| "FromConfig out (cfg # cfgs) os =
     (if OType cfg = ''s3'' then
        (case NewS3 (oS3 out (Region cfg)) (Bucket cfg) (OPrefix cfg) of
           Inl err \<Rightarrow> Inl (Wrapf ''init s3 origin: '' err)
         | Inr o1 \<Rightarrow> FromConfig out cfgs (os @ [s3_origin o1]))
      else if OType cfg = ''huggingface'' then
        FromConfig out cfgs (os @ [hf_origin (NewHuggingFace (Token cfg) (oClient out) (oRepoInfo out))])
      else if OType cfg = ''http'' then FromConfig out cfgs (os @ [http_origin (NewHTTP (BaseURL cfg) (oClient out))])
      else Inl (Errorf (''unknown origin type: '' @ OType cfg)))"

section \<open>Starting a node\<close>

text \<open>
  \<open>run\<close>, up to serving.  The disk of the storage directory and the file systems discovery reads are
  separate.  The tickers of the goroutines it starts panic for an interval that is not positive.
\<close>

definition startup :: "outside \<Rightarrow> env \<Rightarrow> Config \<Rightarrow> fs \<Rightarrow> fs \<Rightarrow> Node res option" where
  "startup out e cfg dsk outer =
     (case ParseSize (MaxSize (Storage cfg)) of
        Inl err \<Rightarrow> Some (Inl (Wrapf ''parse storage max_size: '' err))
      | Inr maxSz \<Rightarrow>
      (case FromConfig out (Origins cfg) [] of
        Inl err \<Rightarrow> Some (Inl err)
      | Inr os \<Rightarrow>
      (case ParseDuration (TTL (Invalidation cfg)) of
        Inl err \<Rightarrow> Some (Inl (Wrapf ''parse invalidation ttl: '' err))
      | Inr cacheTtl \<Rightarrow>
      (case manager_rebuild (oSortInfos out) e (NewManager (NewStore (Dir (Storage cfg)) maxSz) os cacheTtl) dsk of
        (_, m, dsk1) \<Rightarrow>
      let ringAddr = (if SelfAddr cfg \<noteq> [] then SelfAddr cfg else Listen cfg);
          ring = NewRing (VnodesPerPeer (Routing cfg)) ringAddr
      in (case NewDiscovery e (oHostname out) (oCluster out) (Discovery cfg) ringAddr outer of
        Inl err \<Rightarrow> Some (Inl err)
      | Inr disc \<Rightarrow>
      (case disc_start e (disc_on_change (ring_changed out) disc) outer (Some (ring, [])) of
        (_, _, _, None) \<Rightarrow> None
      | (Inl err, _, _, Some _) \<Rightarrow> Some (Inl err)
      | (Inr _, disc1, outer1, Some (ring1, ms)) \<Rightarrow>
      if disc_panics disc1 then None else
      (case ParseDuration (ForwardTimeout (Routing cfg)) of
        Inl err \<Rightarrow> Some (Inl (Wrapf ''parse forward_timeout: '' err))
      | Inr forwardTimeout \<Rightarrow>
      (case ParseDuration (HealthCheckInterval (VLLM cfg)) of
        Inl err \<Rightarrow> Some (Inl (Wrapf ''parse health_check_interval: '' err))
      | Inr healthInterval \<Rightarrow>
      if healthInterval <=s 0 then None
      else Some (Inr
        \<lparr>nMgr = m, nDisk = dsk1, nTasks = [], nRing = ring1,
         nFwd = NewForwarder (oPeer out forwardTimeout) (OverflowThreshold (Routing cfg)),
         nProxy = NewProxy (VLLMUrl cfg) (ModelName (VLLM cfg)) (HashOn (Routing cfg)) (FallbackToBaseModel (Routing cfg)) (oVllm out),
         nChecker = NewChecker (oHealth out) ringAddr (VLLMUrl cfg) healthInterval,
         nDisc = disc1, nOuter = outer1, nInflight = [], nChecks = [], nOutbox = [], nLog = ms\<rparr>)))))))))"

text \<open>\<open>main\<close>, without the flag that prints the version.  The files are read from the disk discovery uses.\<close>

record flags =
  flConfig :: string
  flListen :: string
  flSelf :: string
  flVllm :: string
  flDir :: string
  flDiscovery :: string
  flPeers :: string

definition no_flags_given :: flags where
  "no_flags_given = \<lparr>flConfig = [], flListen = [], flSelf = [], flVllm = [], flDir = [], flDiscovery = [], flPeers = []\<rparr>"

definition main_start ::
    "outside \<Rightarrow> (string \<Rightarrow> string) \<Rightarrow> (string \<Rightarrow> Config \<Rightarrow> Config res) \<Rightarrow> env \<Rightarrow> flags \<Rightarrow> fs \<Rightarrow> fs \<Rightarrow> Node res option" where
  "main_start out getenv yaml e fl dsk outer =
     (case loadConfig (faults e) getenv yaml (flConfig fl) outer of
        Inl err \<Rightarrow> Some (Inl (Wrapf ''load config: '' err))
      | Inr cfg0 \<Rightarrow>
          let cfg = applyOverrides (flListen fl) (flSelf fl) (flVllm fl) (flDir fl) (flDiscovery fl) (flPeers fl) cfg0
          in case Validate cfg of
               Some err \<Rightarrow> Some (Inl (Wrapf ''invalid config: '' err))
             | None \<Rightarrow> startup out e cfg dsk outer)"

lemma main_start_default:
  "main_start out getenv yaml e no_flags_given dsk outer = startup out e Default dsk outer"
proof -
  have "applyOverrides [] [] [] [] [] [] Default = Default"
    by (rule no_flags) (simp add: Default_def defaults_complete)
  then show ?thesis
    by (simp add: main_start_def no_flags_given_def loadConfig_def Validate_def default_valid)
qed

section \<open>What a start gives\<close>

lemma startup_ok:
  assumes run: "startup out e cfg dsk outer = Some (Inr n)"
  obtains maxSz os cacheTtl res m dsk1 disc disc1 outer1 ring1 ms ft hi addr where
    "ParseSize (MaxSize (Storage cfg)) = Inr maxSz" "FromConfig out (Origins cfg) [] = Inr os"
    "ParseDuration (TTL (Invalidation cfg)) = Inr cacheTtl"
    "addr = (if SelfAddr cfg \<noteq> [] then SelfAddr cfg else Listen cfg)"
    "manager_rebuild (oSortInfos out) e (NewManager (NewStore (Dir (Storage cfg)) maxSz) os cacheTtl) dsk = (res, m, dsk1)"
    "NewDiscovery e (oHostname out) (oCluster out) (Discovery cfg) addr outer = Inr disc"
    "disc_start e (disc_on_change (ring_changed out) disc) outer (Some (NewRing (VnodesPerPeer (Routing cfg)) addr, []))
      = (Inr (), disc1, outer1, Some (ring1, ms))"
    "n = \<lparr>nMgr = m, nDisk = dsk1, nTasks = [], nRing = ring1,
         nFwd = NewForwarder (oPeer out ft) (OverflowThreshold (Routing cfg)),
         nProxy = NewProxy (VLLMUrl cfg) (ModelName (VLLM cfg)) (HashOn (Routing cfg)) (FallbackToBaseModel (Routing cfg)) (oVllm out),
         nChecker = NewChecker (oHealth out) addr (VLLMUrl cfg) hi,
         nDisc = disc1, nOuter = outer1, nInflight = [], nChecks = [], nOutbox = [], nLog = ms\<rparr>"
proof -
  define addr where "addr = (if SelfAddr cfg \<noteq> [] then SelfAddr cfg else Listen cfg)"
  obtain maxSz where 1: "ParseSize (MaxSize (Storage cfg)) = Inr maxSz"
    using run by (cases "ParseSize (MaxSize (Storage cfg))") (simp_all add: startup_def)
  obtain os where 2: "FromConfig out (Origins cfg) [] = Inr os"
    using run by (cases "FromConfig out (Origins cfg) []") (simp_all add: startup_def 1)
  obtain cacheTtl where 3: "ParseDuration (TTL (Invalidation cfg)) = Inr cacheTtl"
    using run by (cases "ParseDuration (TTL (Invalidation cfg))") (simp_all add: startup_def 1 2)
  obtain res m dsk1 where 4: "manager_rebuild (oSortInfos out) e (NewManager (NewStore (Dir (Storage cfg)) maxSz) os cacheTtl) dsk = (res, m, dsk1)"
    by (metis prod_cases3)
  let ?new = "NewDiscovery e (oHostname out) (oCluster out) (Discovery cfg) addr outer :: world Discovery res"
  obtain disc where 5: "?new = Inr disc"
    using run by (cases ?new) (simp_all add: startup_def 1 2 3 4 Let_def addr_def [symmetric])
  obtain r disc1 outer1 w where 6: "disc_start e (disc_on_change (ring_changed out) disc) outer
      (Some (NewRing (VnodesPerPeer (Routing cfg)) addr, [])) = (r, disc1, outer1, w)"
    by (metis prod_cases4)
  note sofar = startup_def 1 2 3 4 5 6 Let_def addr_def [symmetric]
  have "w \<noteq> None" using run by (cases w; cases r) (simp_all add: sofar)
  then obtain ring1 ms where w: "w = Some (ring1, ms)" by auto
  have r: "r = Inr ()" using run by (cases r) (simp_all add: sofar w)
  have np: "\<not> disc_panics disc1" using run by (cases "disc_panics disc1") (simp_all add: sofar w r)
  obtain ft where 7: "ParseDuration (ForwardTimeout (Routing cfg)) = Inr ft"
    using run by (cases "ParseDuration (ForwardTimeout (Routing cfg))") (simp_all add: sofar w r np)
  obtain hi where 8: "ParseDuration (HealthCheckInterval (VLLM cfg)) = Inr hi"
    using run by (cases "ParseDuration (HealthCheckInterval (VLLM cfg))") (simp_all add: sofar w r np 7)
  have pos: "\<not> hi <=s 0" using run by (cases "hi <=s 0") (simp_all add: sofar w r np 7 8)
  show thesis
    by (rule that [OF 1 2 3 addr_def 4 5 6 [unfolded w r], of ft hi])
      (use run in \<open>auto simp: sofar w r np 7 8 pos\<close>)
qed

lemma manager_rebuild_inv:
  assumes srt: "slice_sorter infoMod srt" and wf: "fs_wf fs" and names: "names_ok fs" and base: "is_abs base" "path_of base \<noteq> []"
    and run: "manager_rebuild srt e (NewManager (NewStore base mx) os t) fs = (res, m, fs')"
  shows "cache_inv base os fs' \<lparr>mgr = m, disk = fs', pending = [], logged = []\<rparr>"
proof -
  obtain r s fs1 where st: "store_rebuild srt e (NewStore base mx) fs = (r, s, fs1)" by (metis prod_cases3)
  have "m = (NewManager (NewStore base mx) os t)\<lparr>store := s\<rparr>" "fs' = fs1"
    using run st by (auto simp: manager_rebuild_def NewManager_def split: sum.splits)
  then show ?thesis using store_rebuild_inv [OF srt wf names base st] by (simp add: cache_inv_def NewManager_def)
qed

lemma from_config_ok:
  "FromConfig out cfgs os = Inr os' \<Longrightarrow> origins_ok os \<Longrightarrow> \<forall>c \<in> set cfgs. OType c \<noteq> ''s3'' \<Longrightarrow> origins_ok os'"
proof (induction out cfgs os rule: FromConfig.induct)
  case (1 out os)
  then show ?case by simp
next
  case (2 out cfg cfgs os)
  have "origins_ok (os @ [hf_origin h])" "origins_ok (os @ [http_origin g])" for h g
    using 2(5) hf_fetch.origin_contract_axioms http_fetch.origin_contract_axioms
    by (auto simp: origins_ok_def hf_origin_def http_origin_def)
  then show ?case using 2 by (auto split: if_splits)
qed

lemma start_synced:
  assumes srt: "slice_sorter vhash (oSortVnodes out)"
    and new: "NewDiscovery e host cl dcfg addr outer = Inr disc"
    and run: "disc_start e (disc_on_change (ring_changed out) disc) outer (Some (NewRing k addr, [])) = (Inr (), disc1, outer1, Some (ring1, ms))"
  shows "synced out addr k (basePeers (disc_base disc1)) (Some (ring1, ms)) \<and> callbacks (disc_base disc1) = [ring_changed out]"
proof (cases disc)
  case (DStatic b)
  have cb: "callbacks b = []" using new DStatic
    by (auto simp: NewDiscovery_def NewStatic_def split: if_splits sum.splits option.splits)
  have "located addr k (Some (NewRing k addr, []))" by (simp add: located_def NewRing_def)
  note sy = ring_changed_syncs [OF srt this]
  show ?thesis using run sy [of "basePeers b"] cb
    by (auto simp: DStatic static_start_def SetPeers_def OnChange_def)
next
  case (DFile f)
  have "basePeers (fBase f) = []" "callbacks (fBase f) = []" using new DFile
    by (auto simp: NewDiscovery_def NewFile_def split: if_splits sum.splits option.splits)
  then show ?thesis using run new_ring_synced by (auto simp: DFile OnChange_def split: prod.splits)
next
  case (DK8s q)
  have "basePeers (kBase q) = []" "callbacks (kBase q) = []" using new DK8s
    by (auto simp: NewDiscovery_def NewK8s_def Let_def split: if_splits sum.splits option.splits)
  then show ?thesis using run new_ring_synced by (auto simp: DK8s OnChange_def split: prod.splits)
qed

lemma startup_inv:
  assumes srt: "slice_sorter vhash (oSortVnodes out)" "slice_sorter infoMod (oSortInfos out)"
    and dsk: "fs_wf dsk" "names_ok dsk" and dir: "is_abs (Dir (Storage cfg))" "path_of (Dir (Storage cfg)) \<noteq> []"
    and s3: "\<forall>c \<in> set (Origins cfg). OType c \<noteq> ''s3''"
    and run: "startup out e cfg dsk outer = Some (Inr n)"
  shows "\<exists>os. origins_ok os \<and> node_inv out (self (nRing n)) (VnodesPerPeer (Routing cfg)) (Dir (Storage cfg)) os (nDisk n) n"
  using run
proof (cases rule: startup_ok)
  case (1 maxSz os cacheTtl res m dsk1 disc disc1 outer1 ring1 ms ft hi addr)
  have ok: "origins_ok os" by (rule from_config_ok [OF 1(2) _ s3]) (simp add: origins_ok_def)
  note cache = manager_rebuild_inv [OF srt(2) dsk dir 1(5)]
  note sync = start_synced [OF srt(1) 1(6,7)]
  have "self ring1 = addr" using sync by (simp add: synced_def)
  then have "node_inv out (self (nRing n)) (VnodesPerPeer (Routing cfg)) (Dir (Storage cfg)) os (nDisk n) n"
    using cache sync by (simp add: node_inv_def cache_of_def 1(8) NewChecker_def synced_def)
  then show ?thesis using ok by blast
qed

section \<open>Properties\<close>


text \<open>A node with two peers in a fixed list.\<close>

definition example_outside :: outside where
  "example_outside = \<lparr>oHostname = ''h'', oCluster = (\<lambda>ca. unreachable), oS3 = (\<lambda>r. Inl (Errorf [])), oClient = unreachable,
     oRepoInfo = (\<lambda>b. Inl (Errorf [])), oPeer = (\<lambda>t. answering), oHealth = unreachable, oVllm = answering,
     oSha = example_sha, oSortInfos = sort_key infoMod, oSortVnodes = sort_key vhash\<rparr>"

definition example_config :: Config where
  "example_config = Default\<lparr>Listen := ''p1'', Storage := \<lparr>Dir = ''/d'', MaxSize = ''100GB''\<rparr>,
     Discovery := (Discovery Default)\<lparr>StaticCfg := \<lparr>StaticPeers = Some [''p1'', ''p2'']\<rparr>\<rparr>,
     Routing := (Routing Default)\<lparr>VnodesPerPeer := 2\<rparr>\<rparr>"

lemma example_config_fields:
  "MaxSize (Storage example_config) = ''100GB''" "Dir (Storage example_config) = ''/d''" "Origins example_config = []"
  "TTL (Invalidation example_config) = ''1h''" "SelfAddr example_config = []" "Listen example_config = ''p1''"
  "Mode (Discovery example_config) = ''static''" "StaticPeers (StaticCfg (Discovery example_config)) = Some [''p1'', ''p2'']"
  "ForwardTimeout (Routing example_config) = ''5s''" "HealthCheckInterval (VLLM example_config) = ''10s''"
  "VnodesPerPeer (Routing example_config) = 2"
  by (simp_all add: example_config_def Default_def applyDefaults_def zero_config_def or_default_def)

lemma empty_rebuild:
  "manager_rebuild (sort_key infoMod) example_env (NewManager (NewStore ''/d'' mx) os t) empty_disk
    = (Inr (), NewManager (NewStore ''/d'' mx) os t, empty_disk)"
proof -
  have mk: "mkdir_all (faults example_env) (path_of ''/d'') empty_disk = (Inr (), empty_disk)" by code_simp
  have scan: "rebuild_scan example_env (path_of ''/d'') empty_disk = []" by code_simp
  show ?thesis by (simp add: manager_rebuild_def store_rebuild_def NewManager_def NewStore_def mk scan)
qed

lemma example_start:
  "\<exists>n. startup example_outside example_env example_config empty_disk [] = Some (Inr n)
    \<and> nRing n = example_ring [''p1'', ''p2''] \<and> nDisk n = empty_disk \<and> nInflight n = [] \<and> pendingCount (nChecker n) = 0"
proof -
  note f = example_config_fields
  have up: "ring_update (oSortVnodes example_outside) (oSha example_outside) [''p1'', ''p2''] (NewRing 2 ''p1'') = Some (example_ring [''p1'', ''p2''])"
    using example_ring_run [of "[''p1'', ''p2'']"] by (simp add: example_outside_def)
  have pos: "\<not> (10 * 10 ^ 9 :: int64) <=s 0" by (simp add: sle_sint)
  have rb: "manager_rebuild (oSortInfos example_outside) example_env (NewManager (NewStore ''/d'' mx) os t) empty_disk
      = (Inr (), NewManager (NewStore ''/d'' mx) os t, empty_disk)" for mx os t
    using empty_rebuild by (simp add: example_outside_def)
  show ?thesis
    using pos by (simp add: startup_def f default_parses rb NewDiscovery_def NewStatic_def OnChange_def static_start_def SetPeers_def
        ring_changed_def up NewChecker_def Let_def)
qed

definition example_decoders :: decoders where
  "example_decoders = \<lparr>dBody = example_json, dAdmin = example_codec, dHealthz = example_decode, dEndpoints = (\<lambda>b. None)\<rparr>"


text \<open>The program started without a configuration file and without flags is not among its own peers: its ring
  address is \<open>:8080\<close>, its only peer \<open>localhost:8080\<close>, and it forwards every request it routes, that is,
  to itself.  The fallback of \<open>applyOverrides\<close> for missing peers, which would make them agree, is never
  reached without a \<open>-peers\<close> flag.\<close>

theorem default_node_forwards_to_itself:
  assumes srt: "slice_sorter vhash (oSortVnodes out)"
    and run: "main_start out getenv yaml e no_flags_given dsk outer = Some (Inr n)"
  shows "self (nRing n) = '':8080'' \<and> Listen Default = '':8080''
    \<and> ForwardTo (Decide (oSha out) (nRing n) (nFwd n) key False) = Some \<lparr>Addr = ''localhost:8080'', Load = 0\<rparr>"
proof -
  have f: "SelfAddr Default = []" "Listen Default = '':8080''" "Mode (Discovery Default) = ''static''"
    "StaticPeers (StaticCfg (Discovery Default)) = Some [''localhost:8080'']" "VnodesPerPeer (Routing Default) = 150"
    "OverflowThreshold (Routing Default) = 8 / 10"
    by (simp_all add: Default_def applyDefaults_def zero_config_def or_default_def)
  let ?a = "''localhost:8080''"
  from run [unfolded main_start_default] show ?thesis
  proof (cases rule: startup_ok)
    case (1 maxSz os cacheTtl res m dsk1 disc disc1 outer1 ring1 ms ft hi addr)
    have addr: "addr = '':8080''" using 1(4) by (simp add: f)
    have "disc = DStatic (NewStatic [?a])" using 1(6) by (simp add: NewDiscovery_def f)
    then have chg: "ring_changed out [?a] (Some (NewRing 150 '':8080'', [])) = Some (ring1, ms)"
      using 1(7) by (simp add: f addr static_start_def SetPeers_def OnChange_def NewStatic_def)
    then have up: "ring_update (oSortVnodes out) (oSha out) [?a] (NewRing 150 '':8080'') = Some ring1"
      by (auto simp: ring_changed_def split: option.splits)
    note props = ring_update_props [OF srt up]
    have n: "nRing n = ring1" "threshold (nFwd n) = 8 / 10" using 1(8) by (simp_all add: NewForwarder_def f)
    have self: "self ring1 = '':8080''" using props(5) by (simp add: NewRing_def)
    have "VNode (hashKey (oSha out) ?a 0) ?a \<in> set (vnodes ring1)"
      unfolding props(2) by (auto simp: vnodes_of_def NewRing_def image_iff intro!: bexI [of _ 0])
    then obtain v where v: "nearest (hashString (oSha out) key) (\<lambda>v. True) (vnodes ring1) = Some v"
      using nearest_None [of "hashString (oSha out) key" "\<lambda>v. True" "vnodes ring1"]
      by (cases "nearest (hashString (oSha out) key) (\<lambda>v. True) (vnodes ring1)") auto
    have sorted: "sorted (map vhash (vnodes ring1))" by (rule ring_inv_sorted [OF props(1)])
    have "vpeer v = ?a" using vpeer_vnodes_of [OF nearest_Some(1) [OF sorted v, unfolded props(2)]] by simp
    then have "Owner (oSha out) key ring1 = Some \<lparr>Addr = ?a, Load = 0\<rparr>"
      by (simp add: Owner_nearest [OF sorted] v props(3))
    then show ?thesis by (simp add: n self f Decide_def IsSelf_def)
  qed
qed

lemma default_node_forwards_to_itself_witness:
  "\<exists>n. main_start example_outside (\<lambda>v. []) (\<lambda>s c. Inr c) example_env no_flags_given empty_disk [] = Some (Inr n)
    \<and> ForwardTo (Decide (oSha example_outside) (nRing n) (nFwd n) ''a'' False) = Some \<lparr>Addr = ''localhost:8080'', Load = 0\<rparr>"
proof -
  have f: "SelfAddr Default = []" "Mode (Discovery Default) = ''static''" "Origins Default = []"
    "StaticPeers (StaticCfg (Discovery Default)) = Some [''localhost:8080'']" "VnodesPerPeer (Routing Default) = 150"
    "MaxSize (Storage Default) = ''100GB''" "TTL (Invalidation Default) = ''1h''" "ForwardTimeout (Routing Default) = ''5s''"
    "HealthCheckInterval (VLLM Default) = ''10s''"
    by (simp_all add: Default_def applyDefaults_def zero_config_def or_default_def)
  have up: "\<exists>r'. ring_update srt sha [a] (NewRing 150 addr) = Some r'" for srt sha a addr
    by (simp add: ring_update_def NewRing_def sless_sint)
  have pos: "\<not> (10 * 10 ^ 9 :: int64) <=s 0" by (simp add: sle_sint)
  obtain n where run: "main_start example_outside (\<lambda>v. []) (\<lambda>s c. Inr c) example_env no_flags_given empty_disk [] = Some (Inr n)"
  proof -
    have "\<exists>n. startup example_outside example_env Default empty_disk [] = Some (Inr n)"
      using pos up [of "oSortVnodes example_outside" "oSha example_outside" "''localhost:8080''" "Listen Default"]
      by (auto simp: startup_def f default_parses NewDiscovery_def NewStatic_def OnChange_def static_start_def SetPeers_def
          ring_changed_def Let_def split: prod.split)
    then show thesis using that unfolding main_start_default by blast
  qed
  have "slice_sorter vhash (oSortVnodes example_outside)"
    using stable_sorter.slice_sorter_axioms by (simp add: example_outside_def)
  from default_node_forwards_to_itself [OF this run, of "''a''"] run show ?thesis by blast
qed





end
