(* ===== verification/Cluster.thy ===== *)
theory Cluster
  imports Loraplex
begin

text \<open>
  Several nodes that are each other's peers: the client of a node's forwarder is the server of another
  node, so serving a request may be serving it twice.  The first lemmas show that the recursion this
  ties between the handlers ends after two nodes; then the nodes of a cluster whose rings agree serve an
  adapter at one node only, and keep it on the disk of that node only.  While a request is served the
  other nodes are as they were when it arrived.
\<close>

section \<open>Nodes as each other's peers\<close>

type_synonym cluster = "string \<Rightarrow> Node option"

text \<open>
  What is the same at every node, and the environment of each: the decoding of request bodies, the hash,
  clock and faults.
\<close>

record setting =
  sEnv :: "string \<Rightarrow> env"
  sBody :: "string \<Rightarrow> string option"
  sSha :: "string \<Rightarrow> uint32"

text \<open>A URL \<open>http://host/path?query\<close> and the request its server receives.\<close>

definition url_host :: "string \<Rightarrow> string" where
  "url_host u = takeWhile (\<lambda>c. c \<noteq> slash) (drop 7 u)"

definition url_target :: "string \<Rightarrow> string" where
  "url_target u = dropWhile (\<lambda>c. c \<noteq> slash) (drop 7 u)"

definition received :: "string \<Rightarrow> string \<Rightarrow> header \<Rightarrow> string \<Rightarrow> request" where
  "received m target h b =
     \<lparr>reqMethod = m, reqPath = takeWhile (\<lambda>c. c \<noteq> CHR ''?'') target, reqQuery = tl (dropWhile (\<lambda>c. c \<noteq> CHR ''?'') target),
      reqHeader = h, reqBody = b, reqBodyErr = None, reqGone = False\<rparr>"

definition as_response :: "reply \<Rightarrow> response" where
  "as_response rep = \<lparr>respStatus = replyStatus rep, respHeader = replyHeader rep, respBody = replyBody rep, respErr = None\<rparr>"

text \<open>The client over nodes that serve with \<open>srv\<close>: a node that is not there refuses the connection.\<close>

definition cluster_client :: "(string \<Rightarrow> request \<Rightarrow> served option) \<Rightarrow> http_client" where
  "cluster_client srv =
     \<lparr>newRequest = (\<lambda>m u. None),
      roundTrip = (\<lambda>m u h b.
        case srv (url_host u) (received m (url_target u) h b) of
          None \<Rightarrow> Inl (Errorf ''connection refused'')
        | Some s \<Rightarrow> (case servedReply s of None \<Rightarrow> Inl (Errorf ''EOF'') | Some rep \<Rightarrow> Inr (as_response rep)))\<rparr>"

definition serve_with :: "setting \<Rightarrow> cluster \<Rightarrow> http_client \<Rightarrow> string \<Rightarrow> request \<Rightarrow> served option" where
  "serve_with g cl c a r =
     (case cl a of None \<Rightarrow> None
      | Some n \<Rightarrow> Some (ServeHTTP (sEnv g a) (sBody g) (sSha g) (nRing n) ((nFwd n)\<lparr>fwdClient := c\<rparr>) (nProxy n) r (nMgr n) (nDisk n)))"

text \<open>Serving through at most \<open>k\<close> nodes, one after the other.\<close>

primrec serve_within :: "setting \<Rightarrow> cluster \<Rightarrow> nat \<Rightarrow> string \<Rightarrow> request \<Rightarrow> served option" where
  "serve_within g cl 0 = (\<lambda>a r. None)"
| "serve_within g cl (Suc k) = serve_with g cl (cluster_client (serve_within g cl k))"

definition cluster_serve :: "setting \<Rightarrow> cluster \<Rightarrow> string \<Rightarrow> request \<Rightarrow> served option" where
  "cluster_serve g cl = serve_within g cl 2"

section \<open>Two nodes are enough\<close>

text \<open>A request with the forwarding mark is served without the client, and the client only sends such requests.\<close>

lemma decide_client [simp]: "Decide sha r (f\<lparr>fwdClient := c\<rparr>) key fw = Decide sha r f key fw"
  by (simp add: Decide_def split: option.split)

lemma serve_marked_client:
  assumes "marked r"
  shows "ServeHTTP e json sha ring (f\<lparr>fwdClient := c\<rparr>) p r m fs = ServeHTTP e json sha ring f p r m fs"
  using assms by (simp add: ServeHTTP_def marked_def Decide_def Let_def split: sum.split)

definition same_for_marked :: "http_client \<Rightarrow> http_client \<Rightarrow> bool" where
  "same_for_marked c c' \<longleftrightarrow> newRequest c = newRequest c'
     \<and> (\<forall>m u h b. header_get h HeaderForwarded = ''true'' \<longrightarrow> roundTrip c m u h b = roundTrip c' m u h b)"

lemma forward_same:
  "same_for_marked c c' \<Longrightarrow> Forward (f\<lparr>fwdClient := c\<rparr>) peer m path b h = Forward (f\<lparr>fwdClient := c'\<rparr>) peer m path b h"
  by (auto simp: same_for_marked_def Forward_def Let_def split: option.split)

lemma fallback_same:
  assumes "same_for_marked c c'"
  shows "ForwardWithFallback sha r (f\<lparr>fwdClient := c\<rparr>) key m path b h = ForwardWithFallback sha r (f\<lparr>fwdClient := c'\<rparr>) key m path b h"
  unfolding ForwardWithFallback_def forward_same [OF assms, of f] ..

lemma serve_same:
  assumes "same_for_marked c c'"
  shows "ServeHTTP e json sha ring (f\<lparr>fwdClient := c\<rparr>) p r m fs = ServeHTTP e json sha ring (f\<lparr>fwdClient := c'\<rparr>) p r m fs"
  unfolding ServeHTTP_def fallback_same [OF assms, of sha ring f] decide_client ..

lemma serve_with_same: "same_for_marked c c' \<Longrightarrow> serve_with g cl c = serve_with g cl c'"
  by (intro ext) (auto simp: serve_with_def serve_same [of c c'] split: option.split)

lemma cluster_client_same:
  assumes "\<And>a r. marked r \<Longrightarrow> s a r = s' a r"
  shows "same_for_marked (cluster_client s) (cluster_client s')"
proof -
  have "marked (received m t h b)" if "header_get h HeaderForwarded = ''true''" for m t h b
    using that by (simp add: marked_def received_def)
  then show ?thesis using assms by (simp add: same_for_marked_def cluster_client_def)
qed

lemma serve_with_marked: "marked r \<Longrightarrow> serve_with g cl c a r = serve_with g cl c' a r"
  by (auto simp: serve_with_def serve_marked_client split: option.split)

lemma two_nodes:
  shows cluster_serve_enough: "serve_within g cl (k + 2) = cluster_serve g cl"
    and cluster_serve_eq: "cluster_serve g cl = serve_with g cl (cluster_client (cluster_serve g cl))"
proof -
  have step: "serve_within g cl (Suc (Suc j)) = serve_within g cl (Suc (Suc i))" for i j
  proof -
    have "serve_within g cl (Suc j) a r = serve_within g cl (Suc i) a r" if "marked r" for a r
      unfolding serve_within.simps by (rule serve_with_marked [OF that])
    from serve_with_same [OF cluster_client_same [OF this]] show ?thesis by (simp only: serve_within.simps)
  qed
  have two: "serve_within g cl (Suc (Suc j)) = cluster_serve g cl" for j
    using step [of j 0] by (simp add: cluster_serve_def numeral_2_eq_2)
  have "serve_with g cl (cluster_client (cluster_serve g cl)) = serve_within g cl (Suc (Suc (Suc 0)))"
    unfolding two [of 0, symmetric] serve_within.simps ..
  then show "cluster_serve g cl = serve_with g cl (cluster_client (cluster_serve g cl))" using two [of "Suc 0"] by simp
  show "serve_within g cl (k + 2) = cluster_serve g cl" using two [of k] by simp
qed

lemma cluster_serve_at:
  "cl a = Some n \<Longrightarrow> cluster_serve g cl a r
    = Some (ServeHTTP (sEnv g a) (sBody g) (sSha g) (nRing n) ((nFwd n)\<lparr>fwdClient := cluster_client (cluster_serve g cl)\<rparr>)
        (nProxy n) r (nMgr n) (nDisk n))"
  "cl a = None \<Longrightarrow> cluster_serve g cl a r = None"
  by (simp_all add: fun_cong [OF fun_cong [OF cluster_serve_eq [of g cl]], of a r] serve_with_def)

text \<open>C7: Serving a request in a cluster ends: whatever the rings, loads and configurations of the nodes, two nodes
  one after the other are enough, a longer chain of forwarding never occurs, and so the handlers of the
  nodes, each with the others as its peers, have a common answer.\<close>

theorem cluster_serving_terminates:
  "serve_within g cl (k + 2) = cluster_serve g cl \<and> cluster_serve g cl = serve_with g cl (cluster_client (cluster_serve g cl))"
  by (intro conjI two_nodes)

section \<open>A cluster at rest\<close>

text \<open>
  All members are up, know each other and nobody else, none is overloaded, and they hash by model.
\<close>

definition calm_node :: "(string \<Rightarrow> uint32) \<Rightarrow> string set \<Rightarrow> int64 \<Rightarrow> string \<Rightarrow> Node \<Rightarrow> bool" where
  "calm_node sha P k a n \<longleftrightarrow>
     ring_inv (nRing n) \<and> self (nRing n) = a \<and> set (vnodes (nRing n)) = vnodes_of sha k P
     \<and> (\<forall>b. map_of (peers (nRing n)) b \<noteq> None \<longleftrightarrow> b \<in> P)
     \<and> (\<forall>p \<in> set (Peers (nRing n)). Addr p \<noteq> a \<longrightarrow> Peer.Load p < threshold (nFwd n))
     \<and> hashOn (nProxy n) = ''model''"

definition calm :: "(string \<Rightarrow> uint32) \<Rightarrow> string set \<Rightarrow> int64 \<Rightarrow> cluster \<Rightarrow> bool" where
  "calm sha P k cl \<longleftrightarrow> collision_free sha k P \<and> 0 <s k
     \<and> (\<forall>a \<in> P. slash \<notin> set a \<and> (\<exists>n. cl a = Some n \<and> calm_node sha P k a n))"

definition home :: "(string \<Rightarrow> uint32) \<Rightarrow> string \<Rightarrow> Node \<Rightarrow> string option" where
  "home sha x n = map_option Addr (Owner sha x (nRing n))"

lemma calm_member:
  assumes "calm sha P k cl" and "a \<in> P"
  obtains n where "cl a = Some n" "calm_node sha P k a n" "slash \<notin> set a"
  using assms by (auto simp: calm_def)

lemma calm_owner:
  assumes calm: "calm sha P k cl" and a: "a \<in> P" and n: "calm_node sha P k a n"
  obtains p where "Owner sha x (nRing n) = Some p" "Addr p \<in> P" "Addr p \<noteq> a \<longrightarrow> Peer.Load p < threshold (nFwd n)"
proof -
  have inv: "ring_inv (nRing n)" using n by (simp add: calm_node_def)
  have "VNode (hashKey sha a 0) a \<in> vnodes_of sha k P"
    using a calm by (auto simp: vnodes_of_def calm_def sless_sint intro!: bexI [of _ a] image_eqI [of _ _ 0])
  then have ne: "nearest (hashString sha x) (\<lambda>v. True) (vnodes (nRing n)) \<noteq> None"
    using n by (auto simp: calm_node_def nearest_None)
  then obtain v where v: "nearest (hashString sha x) (\<lambda>v. True) (vnodes (nRing n)) = Some v" by auto
  then have "v \<in> vnodes_of sha k P" using nearest_Some(1) [OF ring_inv_sorted [OF inv] v] n by (simp add: calm_node_def)
  then have P: "vpeer v \<in> P" by (rule vpeer_vnodes_of)
  then obtain p where p: "map_of (peers (nRing n)) (vpeer v) = Some p" using n unfolding calm_node_def by blast
  then have "Owner sha x (nRing n) = Some p" by (simp add: Owner_nearest [OF ring_inv_sorted [OF inv]] v)
  moreover have "Addr p = vpeer v" using inv p by (simp add: ring_inv_def)
  moreover have "p \<in> set (Peers (nRing n))" using p by (force simp: Peers_def dest: map_of_SomeD)
  ultimately show thesis using that P n by (simp add: calm_node_def)
qed

lemma calm_agree:
  assumes calm: "calm sha P k cl" and n: "calm_node sha P k a n" and m: "calm_node sha P k b m"
  shows "home sha x n = home sha x m"
proof -
  have inv: "ring_inv (nRing n)" "ring_inv (nRing m)" using n m by (simp_all add: calm_node_def)
  have free: "\<forall>v \<in> set (vnodes (nRing m)). \<forall>w \<in> set (vnodes (nRing m)). vhash v = vhash w \<longrightarrow> v = w"
    using calm m by (simp add: calm_def calm_node_def collision_free_def)
  have "nearest h P' (vnodes (nRing n)) = nearest h P' (vnodes (nRing m))" for h P'
    by (rule nearest_cong [OF ring_inv_sorted [OF inv(1)] ring_inv_sorted [OF inv(2)] _ free])
      (use n m in \<open>simp add: calm_node_def\<close>)
  then show ?thesis by (simp add: home_def Owner_addr inv)
qed

section \<open>Where a request goes\<close>

text \<open>A node that decides to serve a request itself, and one whose owner answers.\<close>

lemma serve_decided_locally:
  assumes "ExtractRequestInfo json r (hashOn p) = Inr info" and "\<not> base_request p info"
    and "HandleLocally (Decide sha ring f (infoHashKey info) (marked r))"
  shows "\<exists>ms. ServeHTTP e json sha ring f p r m fs = serve_locally e p r info False (served_start m fs\<lparr>servedMetrics := ms\<rparr>)"
  using assms by (auto simp: ServeHTTP_def served_start_def base_request_def marked_def Let_def)

lemma serve_relayed:
  assumes "ExtractRequestInfo json r (hashOn p) = Inr info" and "\<not> base_request p info"
    and "\<not> HandleLocally (Decide sha ring f (infoHashKey info) (marked r))"
    and "ForwardWithFallback sha ring f (infoHashKey info) (reqMethod r) (reqPath r) (infoBody info) (reqHeader r) = (Inr resp, sent)"
  shows "\<exists>ms. ServeHTTP e json sha ring f p r m fs
      = served_start m fs\<lparr>servedReply := Some (CopyResponse resp), toPeers := sent, servedMetrics := ms\<rparr>"
  using assms by (auto simp: ServeHTTP_def served_start_def base_request_def marked_def Let_def)

lemma reply_unless_gone: "fst (proxyToVLLM p r body) = None \<Longrightarrow> reqGone r"
  by (auto simp: proxyToVLLM_def Let_def split: option.splits sum.splits if_splits)

lemma locally_reply: "servedReply (serve_locally e p r info base s1) = None \<Longrightarrow> reqGone r"
  using reply_unless_gone
  by (cases rule: locally_cases [where e = e and p = p and r = r and info = info and base = base and ?s1.0 = s1])
    (auto split: if_splits)

lemma serve_replies: "servedReply (ServeHTTP e json sha ring f p r m fs) = None \<Longrightarrow> reqGone r"
  using reply_unless_gone locally_reply
  by (cases rule: serve_cases [where e = e and json = json and sha = sha and ring = ring and f = f and p = p and r = r and m = m and fs = fs])
    auto

lemma received_fields [simp]:
  "reqMethod (received m t h b) = m" "reqHeader (received m t h b) = h" "reqBody (received m t h b) = b"
  "reqBodyErr (received m t h b) = None" "reqGone (received m t h b) = False"
  by (simp_all add: received_def)

text \<open>The request another node receives.\<close>

definition wire_request :: "sent_request \<Rightarrow> request" where
  "wire_request q = received (sentMethod q) (sentPath q) (sentHeader q) (sentBody q)"

lemma url_parts:
  assumes "slash \<notin> set a" and "prefix ''/'' path"
  shows "url_host (''http://'' @ a @ path) = a" and "url_target (''http://'' @ a @ path) = path"
proof -
  obtain t where t: "path = slash # t" using assms(2) by (cases path) auto
  have d: "drop 7 (''http://'' @ a @ path) = a @ path" by simp
  have ne: "\<forall>c \<in> set a. c \<noteq> slash" using assms(1) by metis
  show "url_host (''http://'' @ a @ path) = a"
    unfolding url_host_def d using ne by (simp add: t takeWhile_append2)
  show "url_target (''http://'' @ a @ path) = path"
    unfolding url_target_def d using ne by (simp add: t dropWhile_append2)
qed

text \<open>The answer of the client of a cluster, when the node at the other end answers.\<close>

lemma cluster_answers:
  assumes a: "slash \<notin> set b" and path: "prefix ''/'' path"
    and so: "cluster_serve g cl b (received m path h body) = Some so"
  shows "\<exists>rep. servedReply so = Some rep
    \<and> roundTrip (cluster_client (cluster_serve g cl)) m (''http://'' @ b @ path) h body = Inr (as_response rep)"
proof -
  obtain n where n: "cl b = Some n"
    "so = ServeHTTP (sEnv g b) (sBody g) (sSha g) (nRing n) ((nFwd n)\<lparr>fwdClient := cluster_client (cluster_serve g cl)\<rparr>)
        (nProxy n) (received m path h body) (nMgr n) (nDisk n)"
    using so cluster_serve_at(1) [of cl b _ g "received m path h body"] cluster_serve_at(2) [of cl b g "received m path h body"]
    by (cases "cl b") auto
  have "servedReply so \<noteq> None" unfolding n(2) using serve_replies by fastforce
  then show ?thesis using so url_parts [OF a path] by (auto simp: cluster_client_def)
qed

definition relays :: "setting \<Rightarrow> cluster \<Rightarrow> string \<Rightarrow> request \<Rightarrow> Node \<Rightarrow> served \<Rightarrow> bool" where
  "relays g cl b r n s \<longleftrightarrow> servedMgr s = nMgr n \<and> servedDisk s = nDisk n \<and> servedTasks s = [] \<and> toVLLM s = []
     \<and> (\<exists>q so rep. toPeers s = [q] \<and> sentTo q = b \<and> marked (wire_request q) \<and> reqBody (wire_request q) = reqBody r
         \<and> cluster_serve g cl b (wire_request q) = Some so \<and> toPeers so = []
         \<and> servedReply so = Some rep \<and> servedReply s = Some (CopyResponse (as_response rep)))"

lemma calm_relays:
  assumes calm: "calm (sSha g) P k cl" and a: "a \<in> P" "cl a = Some n" "calm_node (sSha g) P k a n"
    and r: "\<not> marked r" "prefix ''/'' (reqPath r)"
    and info: "ExtractRequestInfo (sBody g) r ''model'' = Inr info" "\<not> base_request (nProxy n) info"
    and home: "home (sSha g) (infoHashKey info) n = Some b" "b \<noteq> a"
  shows "\<exists>s. cluster_serve g cl a r = Some s \<and> relays g cl b r n s"
proof -
  let ?c = "cluster_client (cluster_serve g cl)" and ?key = "infoHashKey info"
  let ?f = "(nFwd n)\<lparr>fwdClient := ?c\<rparr>"
  obtain p where p: "Owner (sSha g) ?key (nRing n) = Some p" "Addr p \<in> P" "Addr p \<noteq> a \<longrightarrow> Peer.Load p < threshold (nFwd n)"
    by (rule calm_owner [OF calm a(1,3)])
  have b: "Addr p = b" using home(1) p(1) by (simp add: home_def)
  obtain nb where nb: "cl b = Some nb" "slash \<notin> set b" using calm_member [OF calm p(2)] b by metis
  let ?hdr = "header_set HeaderForwarded ''true'' (header_add_all (reqHeader r) [])"
  let ?q = "\<lparr>sentTo = b, sentMethod = reqMethod r, sentPath = reqPath r, sentHeader = ?hdr, sentBody = infoBody info\<rparr>"
  have mk: "marked (wire_request ?q)" by (simp add: wire_request_def marked_def)
  obtain so where so: "cluster_serve g cl b (wire_request ?q) = Some so"
    using cluster_serve_at(1) [of cl b nb g, OF nb(1)] by blast
  have quiet: "toPeers so = []"
  proof -
    have "so = ServeHTTP (sEnv g b) (sBody g) (sSha g) (nRing nb) ((nFwd nb)\<lparr>fwdClient := ?c\<rparr>) (nProxy nb) (wire_request ?q) (nMgr nb) (nDisk nb)"
      using so cluster_serve_at(1) [of cl b nb g "wire_request ?q", OF nb(1)] by simp
    then show ?thesis using mk
      by (cases rule: serve_cases [where e = "sEnv g b" and json = "sBody g" and sha = "sSha g" and ring = "nRing nb"
          and f = "(nFwd nb)\<lparr>fwdClient := ?c\<rparr>" and p = "nProxy nb" and r = "wire_request ?q" and m = "nMgr nb" and fs = "nDisk nb"])
        (auto simp: locally_peers)
  qed
  obtain rep where rep: "servedReply so = Some rep"
    "roundTrip ?c (reqMethod r) (''http://'' @ b @ reqPath r) ?hdr (infoBody info) = Inr (as_response rep)"
    using cluster_answers [OF nb(2) r(2) so [unfolded wire_request_def, simplified]] by auto
  have nr: "newRequest ?c = (\<lambda>m u. None)" by (simp add: cluster_client_def)
  have fw: "ForwardWithFallback (sSha g) (nRing n) ?f ?key (reqMethod r) (reqPath r) (infoBody info) (reqHeader r)
      = (Inr (as_response rep), [?q])"
    using rep(2) by (simp add: ForwardWithFallback_def p(1) Forward_def nr b)
  have self: "self (nRing n) = a" using a(3) by (simp add: calm_node_def)
  have away: "\<not> HandleLocally (Decide (sSha g) (nRing n) ?f ?key (marked r))"
    using p home(2) b r(1) self by (simp add: Decide_def IsSelf_def)
  have ho: "hashOn (nProxy n) = ''model''" using a(3) by (simp add: calm_node_def)
  obtain ms where s: "ServeHTTP (sEnv g a) (sBody g) (sSha g) (nRing n) ?f (nProxy n) r (nMgr n) (nDisk n)
      = served_start (nMgr n) (nDisk n)\<lparr>servedReply := Some (CopyResponse (as_response rep)), toPeers := [?q], servedMetrics := ms\<rparr>"
    using serve_relayed [where p = "nProxy n", unfolded ho, OF info away fw] by blast
  have body: "infoBody info = reqBody r" using extract_body [OF info(1)] by simp
  have "cluster_serve g cl a r = Some (ServeHTTP (sEnv g a) (sBody g) (sSha g) (nRing n) ?f (nProxy n) r (nMgr n) (nDisk n))"
    by (rule cluster_serve_at(1)) (rule a(2))
  moreover have "reqBody (wire_request ?q) = reqBody r" by (simp add: wire_request_def body)
  ultimately show ?thesis using s mk so quiet rep(1) unfolding relays_def by fastforce
qed

lemma calm_local:
  assumes calm: "calm (sSha g) P k cl" and a: "a \<in> P" "cl a = Some n" "calm_node (sSha g) P k a n"
    and r: "\<not> marked r" and info: "ExtractRequestInfo (sBody g) r ''model'' = Inr info" "\<not> base_request (nProxy n) info"
    and home: "home (sSha g) (infoHashKey info) n = Some a"
  shows "\<exists>s. cluster_serve g cl a r = Some s \<and> toPeers s = []"
proof -
  let ?f = "(nFwd n)\<lparr>fwdClient := cluster_client (cluster_serve g cl)\<rparr>"
  have here: "HandleLocally (Decide (sSha g) (nRing n) ?f (infoHashKey info) (marked r))"
    using home a(3) by (auto simp: Decide_def home_def calm_node_def IsSelf_def split: option.split)
  have ho: "hashOn (nProxy n) = ''model''" using a(3) by (simp add: calm_node_def)
  obtain ms where "ServeHTTP (sEnv g a) (sBody g) (sSha g) (nRing n) ?f (nProxy n) r (nMgr n) (nDisk n)
      = serve_locally (sEnv g a) (nProxy n) r info False (served_start (nMgr n) (nDisk n)\<lparr>servedMetrics := ms\<rparr>)"
    using serve_decided_locally [where p = "nProxy n", unfolded ho, OF info here] by blast
  then show ?thesis using cluster_serve_at(1) [of cl a n g r, OF a(2)] by (simp add: locally_peers)
qed

lemma key_is_model: "ExtractRequestInfo json r ''model'' = Inr info \<Longrightarrow> infoHashKey info = infoModel info"
  by (auto simp: ExtractRequestInfo_def buildHashKey_def Let_def split: sum.splits if_splits)


section \<open>The caches of a cluster\<close>

text \<open>A node and a cluster after a request: the node that got it, and the nodes it was passed on to.\<close>

definition absorb :: "served \<Rightarrow> Node \<Rightarrow> Node" where
  "absorb s n = n\<lparr>nMgr := servedMgr s, nDisk := servedDisk s, nTasks := nTasks n @ servedTasks s, nLog := nLog n @ servedMetrics s\<rparr>"

definition deliver :: "setting \<Rightarrow> cluster \<Rightarrow> cluster \<Rightarrow> sent_request \<Rightarrow> cluster" where
  "deliver g cl0 cl q =
     (case cluster_serve g cl0 (sentTo q) (wire_request q) of
        None \<Rightarrow> cl | Some s \<Rightarrow> cl(sentTo q := map_option (absorb s) (cl (sentTo q))))"

definition cluster_request :: "setting \<Rightarrow> cluster \<Rightarrow> string \<times> request \<Rightarrow> cluster" where
  "cluster_request g cl ar =
     (case ar of (a, r) \<Rightarrow>
        (case cluster_serve g cl a r of
           None \<Rightarrow> cl
         | Some s \<Rightarrow> foldl (deliver g cl) (cl(a := map_option (absorb s) (cl a))) (toPeers s)))"

text \<open>Every adapter is indexed at its home only.\<close>

definition placed :: "(string \<Rightarrow> uint32) \<Rightarrow> string set \<Rightarrow> cluster \<Rightarrow> bool" where
  "placed sha P cl \<longleftrightarrow>
     (\<forall>a \<in> P. \<forall>n. cl a = Some n \<longrightarrow> store_inv (store (nMgr n)) \<and> (\<forall>x \<in> tracked (store (nMgr n)). home sha x n = Some a))"

lemma ensure_tracked:
  assumes inv: "store_inv (store m)" and run: "EnsureAdapter e m aid fs = (r, m', fs', ms, ts)"
  shows "store_inv (store m') \<and> tracked (store m') \<subseteq> insert aid (tracked (store m))"
proof -
  have touch: "tracked s' \<subseteq> insert aid (tracked s)" if "store_touch e fs aid s = (r, s')" "store_inv s" for e fs s r s'
    using that by (auto simp: store_touch_def store_inv_def store_tracked_touch split: sum.splits)
  have move: "tracked s' \<subseteq> insert aid (tracked s)" if "move_into_place e aid tmp s fs = (r, s', fs')" "store_inv s" for e tmp s fs r s' fs'
    using that(1) touch [OF _ that(2)] by (force simp: move_into_place_def Let_def split: prod.splits sum.splits)
  have inst: "tracked s' \<subseteq> insert aid (tracked s)" if "install e t aid tmp fr s fs = (r, s', fs', ms)" "store_inv s" for e t tmp fr s fs r s' fs' ms
    using that(1)
  proof (cases rule: install_cases)
    case (room err ev)
    then show ?thesis using make_room_result [OF room(2) that(2)] by blast
  next
    case (move ev s2 fs2)
    note s2 = make_room_result [OF move(1) that(2)]
    then show ?thesis using \<open>\<And>e tmp s fs r s' fs'. move_into_place e aid tmp s fs = (r, s', fs') \<Longrightarrow> store_inv s \<Longrightarrow> tracked s' \<subseteq> insert aid (tracked s)\<close> [OF move(2)] by blast
  qed auto
  have fetch: "tracked s' \<subseteq> insert aid (tracked (store m))" if "fetchFromOrigin e m aid fs = (r, s', fs', ms)" for r s' fs' ms
    using that by (cases rule: fetch_cases) (use inst [OF _ inv] in auto)
  from run show ?thesis
  proof (cases rule: ensure_cases)
    case (cached s')
    then show ?thesis
      using touch [OF cached(3) inv] store_touch_result [OF cached(3) inv cached(1)] maybeRevalidate_store [OF cached(4)] by simp
  next
    case (failed err s')
    then show ?thesis using fetch [OF failed(3)] fetch_store [OF inv failed(1,3)] by simp
  next
    case (fetched s' ms')
    then show ?thesis using fetch [OF fetched(3)] fetch_store [OF inv fetched(1,3)] by simp
  qed (use inv in auto)
qed

lemma serve_tracked:
  assumes inv: "store_inv (store m)" and s: "s = ServeHTTP e json sha ring f p r m fs"
  shows "store_inv (store (servedMgr s)) \<and> (\<forall>x \<in> tracked (store (servedMgr s)). x \<in> tracked (store m)
    \<or> (\<exists>info. ExtractRequestInfo json r (hashOn p) = Inr info \<and> \<not> base_request p info \<and> x = infoModel info))"
proof (cases rule: serve_cases [where e = e and json = json and sha = sha and ring = ring and f = f and p = p and r = r and m = m and fs = fs])
  case (local info sent ms)
  let ?s1 = "served_start m fs\<lparr>toPeers := sent, servedMetrics := ms\<rparr>"
  show ?thesis
  proof (cases rule: locally_cases [where e = e and p = p and r = r and info = info and base = "base_request p info" and ?s1.0 = ?s1])
    case base
    then show ?thesis using inv s local(2) by simp
  next
    case (present res m' fs' ms' ts s2)
    then show ?thesis using ensure_tracked [OF inv, of e "infoModel info" fs "Inr res"] s local(1,2) by auto
  next
    case (absent err m' fs' ms' ts s2)
    then show ?thesis using ensure_tracked [OF inv, of e "infoModel info" fs "Inl err"] s local(1,2) by auto
  qed
qed (use inv s in simp_all)

lemma extract_same_model:
  assumes "ExtractRequestInfo json r ho = Inr i" and "ExtractRequestInfo json r' ho' = Inr i'" and "reqBody r = reqBody r'"
  shows "infoModel i = infoModel i'"
proof -
  have "infoModel j = (if reqBody q = [] then [] else case json (reqBody q) of Some m \<Rightarrow> m | None \<Rightarrow> [])"
    if "ExtractRequestInfo json q h = Inr j" for q h j
    using that extract_body [OF that] by (auto simp: ExtractRequestInfo_def read_body_def Let_def split: sum.splits if_splits)
  then show ?thesis using assms by metis
qed

lemma calm_node_absorb [simp]: "calm_node sha P k a (absorb s n) = calm_node sha P k a n" "home sha x (absorb s n) = home sha x n"
  by (simp_all add: calm_node_def absorb_def home_def)

text \<open>What can become of a request at a member: it stays and brings at most its own adapter, or it is relayed.\<close>

lemma calm_serve_cases:
  assumes calm: "calm (sSha g) P k cl" and a: "a \<in> P" "cl a = Some n" "calm_node (sSha g) P k a n"
    and r: "\<not> marked r" "prefix ''/'' (reqPath r)" and inv: "store_inv (store (nMgr n))"
  obtains (stays) s where "cluster_serve g cl a r = Some s" "toPeers s = []" "store_inv (store (servedMgr s))"
      "\<forall>x \<in> tracked (store (servedMgr s)). x \<in> tracked (store (nMgr n)) \<or> home (sSha g) x n = Some a"
  | (goes) s b info where "cluster_serve g cl a r = Some s" "relays g cl b r n s" "b \<in> P"
      "ExtractRequestInfo (sBody g) r ''model'' = Inr info" "home (sSha g) (infoModel info) n = Some b" "b \<noteq> a"
proof -
  let ?s = "ServeHTTP (sEnv g a) (sBody g) (sSha g) (nRing n) ((nFwd n)\<lparr>fwdClient := cluster_client (cluster_serve g cl)\<rparr>) (nProxy n) r (nMgr n) (nDisk n)"
  have s: "cluster_serve g cl a r = Some ?s" using cluster_serve_at(1) [of cl a n g r, OF a(2)] .
  have ho: "hashOn (nProxy n) = ''model''" using a(3) by (simp add: calm_node_def)
  note tr = serve_tracked [OF inv refl, of "sEnv g a" "sBody g" "sSha g" "nRing n" "(nFwd n)\<lparr>fwdClient := cluster_client (cluster_serve g cl)\<rparr>" "nProxy n" r "nDisk n", unfolded ho]
  show thesis
  proof (cases "\<exists>info. ExtractRequestInfo (sBody g) r ''model'' = Inr info \<and> \<not> base_request (nProxy n) info")
    case True
    then obtain info where info: "ExtractRequestInfo (sBody g) r ''model'' = Inr info" "\<not> base_request (nProxy n) info" by blast
    obtain p where p: "Owner (sSha g) (infoHashKey info) (nRing n) = Some p" "Addr p \<in> P" by (rule calm_owner [OF calm a(1,3)])
    then have home: "home (sSha g) (infoHashKey info) n = Some (Addr p)" by (simp add: home_def)
    note key = key_is_model [OF info(1)]
    show thesis
    proof (cases "Addr p = a")
      case True
      obtain s' where "cluster_serve g cl a r = Some s'" "toPeers s' = []"
        using calm_local [OF calm a r(1) info] home True by blast
      then have "toPeers ?s = []" using s by simp
      moreover have "\<forall>x \<in> tracked (store (servedMgr ?s)). x \<in> tracked (store (nMgr n)) \<or> home (sSha g) x n = Some a"
        using tr info(1) home True key by auto
      ultimately show thesis using stays [OF s] tr by blast
    next
      case False
      obtain s' where "cluster_serve g cl a r = Some s'" "relays g cl (Addr p) r n s'"
        using calm_relays [OF calm a r info home False] by blast
      then show thesis using goes [OF _ _ p(2) info(1)] home False key by simp
    qed
  next
    case False
    have "toPeers ?s = []"
      using False ho by (auto simp: ServeHTTP_def base_request_def Let_def split: sum.split)
    then show thesis using stays [OF s] tr False by blast
  qed
qed

lemma placed_step:
  assumes calm: "calm (sSha g) P k cl" and placed: "placed (sSha g) P cl"
    and a: "a \<in> P" and r: "\<not> marked r" "prefix ''/'' (reqPath r)"
  shows "calm (sSha g) P k (cluster_request g cl (a, r)) \<and> placed (sSha g) P (cluster_request g cl (a, r))"
proof -
  obtain n where n: "cl a = Some n" "calm_node (sSha g) P k a n" using calm_member [OF calm a] by metis
  have inv: "store_inv (store (nMgr n))" and old: "\<forall>x \<in> tracked (store (nMgr n)). home (sSha g) x n = Some a"
    using placed a n(1) by (auto simp: placed_def)
  have upd: "calm (sSha g) P k (cl'(b := Some (absorb s m))) \<and> placed (sSha g) P (cl'(b := Some (absorb s m)))"
    if "calm (sSha g) P k cl'" "placed (sSha g) P cl'" "cl' b = Some m" "store_inv (store (servedMgr s))"
      "\<forall>x \<in> tracked (store (servedMgr s)). home (sSha g) x m = Some b" for cl' b s m
    using that by (auto simp: calm_def placed_def) (simp_all add: absorb_def)
  show ?thesis
  proof (rule calm_serve_cases [OF calm a n r inv])
    fix s
    assume s: "cluster_serve g cl a r = Some s" "toPeers s = []" "store_inv (store (servedMgr s))"
      and new: "\<forall>x \<in> tracked (store (servedMgr s)). x \<in> tracked (store (nMgr n)) \<or> home (sSha g) x n = Some a"
    have "cluster_request g cl (a, r) = cl(a := Some (absorb s n))" by (simp add: cluster_request_def s n(1))
    then show ?thesis using upd [OF calm placed n(1) s(3)] new old by auto
  next
    fix s b info
    assume s: "cluster_serve g cl a r = Some s" and rel: "relays g cl b r n s" and b: "b \<in> P"
      and info: "ExtractRequestInfo (sBody g) r ''model'' = Inr info" and home: "home (sSha g) (infoModel info) n = Some b" and ne: "b \<noteq> a"
    obtain q so where q: "toPeers s = [q]" "sentTo q = b" "reqBody (wire_request q) = reqBody r" "cluster_serve g cl b (wire_request q) = Some so"
      and same: "servedMgr s = nMgr n" using rel by (auto simp: relays_def)
    obtain m where m: "cl b = Some m" "calm_node (sSha g) P k b m" using calm_member [OF calm b] by metis
    let ?cl1 = "cl(a := Some (absorb s n))"
    have one: "calm (sSha g) P k ?cl1 \<and> placed (sSha g) P ?cl1" using upd [OF calm placed n(1)] same inv old by simp
    have "cluster_request g cl (a, r) = ?cl1(b := Some (absorb so m))"
      using ne by (simp add: cluster_request_def s n(1) q deliver_def m(1))
    moreover have "store_inv (store (servedMgr so)) \<and> (\<forall>x \<in> tracked (store (servedMgr so)). home (sSha g) x m = Some b)"
    proof -
      have inv_m: "store_inv (store (nMgr m))" and old_m: "\<forall>x \<in> tracked (store (nMgr m)). home (sSha g) x m = Some b"
        using placed b m(1) by (auto simp: placed_def)
      have ho: "hashOn (nProxy m) = ''model''" using m(2) by (simp add: calm_node_def)
      have "home (sSha g) (infoModel info') m = Some b"
        if "ExtractRequestInfo (sBody g) (wire_request q) ''model'' = Inr info'" for info'
        using extract_same_model [OF that info q(3)] calm_agree [OF calm n(2) m(2)] home by simp
      moreover have so: "so = ServeHTTP (sEnv g b) (sBody g) (sSha g) (nRing m) ((nFwd m)\<lparr>fwdClient := cluster_client (cluster_serve g cl)\<rparr>)
          (nProxy m) (wire_request q) (nMgr m) (nDisk m)"
        using cluster_serve_at(1) [of cl b m g "wire_request q", OF m(1)] q(4) by simp
      ultimately show ?thesis using serve_tracked [OF inv_m so, unfolded ho] old_m by blast
    qed
    ultimately show ?thesis using upd [of ?cl1 b m so] one m(1) ne by simp
  qed
qed


section \<open>Witnesses\<close>

text \<open>Two nodes that know each other, with empty caches and an origin that serves every file.\<close>

definition example_node :: "string \<Rightarrow> Node" where
  "example_node a =
     \<lparr>nMgr = example_manager, nDisk = empty_disk, nTasks = [], nRing = (example_ring [''p1'', ''p2''])\<lparr>self := a\<rparr>,
      nFwd = NewForwarder answering 1, nProxy = example_proxy, nChecker = example_checker, nDisc = DStatic (NewStatic []),
      nOuter = [], nInflight = [], nChecks = [], nOutbox = [], nLog = []\<rparr>"

definition example_cluster :: cluster where
  "example_cluster = [''p1'' \<mapsto> example_node ''p1'', ''p2'' \<mapsto> example_node ''p2'']"

definition example_setting :: setting where
  "example_setting = \<lparr>sEnv = (\<lambda>a. example_env), sBody = example_json, sSha = example_sha\<rparr>"

lemma example_calm: "calm (sSha example_setting) {''p1'', ''p2''} 2 example_cluster"
proof -
  have "ring_update (sort_key vhash) example_sha [''p1'', ''p2''] (NewRing 2 ''p1'') = Some (example_ring [''p1'', ''p2''])"
    by (rule example_ring_run) simp
  note props = ring_update_props [OF stable_sorter.slice_sorter_axioms this]
  let ?r = "example_ring [''p1'', ''p2'']"
  have node: "calm_node example_sha {''p1'', ''p2''} 2 a (example_node a)" for a
  proof -
    have "ring_inv (?r\<lparr>self := a\<rparr>)" using props(1) by (simp add: ring_inv_def)
    moreover have "set (vnodes ?r) = vnodes_of example_sha 2 {''p1'', ''p2''}" using props(2) by (simp add: NewRing_def)
    moreover have "map_of (peers ?r) b \<noteq> None \<longleftrightarrow> b \<in> {''p1'', ''p2''}" for b using props(3) [of b] by simp
    moreover have "\<forall>p \<in> set (Peers (?r\<lparr>self := a\<rparr>)). Peer.Load p < 1" by (simp add: example_ring_value Peers_def)
    moreover have "hashOn example_proxy = ''model''" by (simp add: example_proxy_def)
    ultimately show ?thesis unfolding calm_node_def example_node_def by (simp add: NewForwarder_def)
  qed
  then show ?thesis using example_collision_free by (simp add: calm_def example_setting_def example_cluster_def sless_sint)
qed

lemma example_cluster_request:
  "\<not> marked (example_request [])" "prefix ''/'' (reqPath (example_request []))"
  "ExtractRequestInfo (sBody example_setting) (example_request []) ''model''
     = Inr \<lparr>infoModel = ''a'', infoTenant = header_get [] ''X-Tenant-ID'', infoHashKey = ''a'', infoBody = ''A''\<rparr>"
proof -
  have "hashOn example_proxy = ''model''" by (simp add: example_proxy_def)
  then show "ExtractRequestInfo (sBody example_setting) (example_request []) ''model''
     = Inr \<lparr>infoModel = ''a'', infoTenant = header_get [] ''X-Tenant-ID'', infoHashKey = ''a'', infoBody = ''A''\<rparr>"
    using example_info [of "[]"] by (simp add: example_setting_def)
qed (simp_all add: example_request_def marked_def header_get_def header_values_def)



end
