(* ===== verification/Lifecycle.thy ===== *)
theory Lifecycle
  imports Loraplex
begin

text \<open>
  The process around a node, from the end of its start to its exit: the main goroutine in \<open>run\<close> and
  \<open>main\<close> of \<open>cmd/loraplex/main.go\<close>, the goroutine that waits for a signal, and the loops of discovery
  (\<open>file.go\<close>, \<open>k8s.go\<close>), of the health checker (\<open>checker.go\<close>) and of the gauges.  Goroutines are program
  counters, and the process is the relation of their interleaved steps, each labelled with who takes it.
\<close>

section \<open>Goroutines\<close>

text \<open>
  The main goroutine: in \<open>srv.Start\<close>; after it returned, before the deferred \<open>disc.Stop\<close>; before the
  deferred \<open>cancel\<close>; back in \<open>main\<close>; and after the exit of the process with a code.
\<close>

datatype main_pc = Serving | Stopping goerr | Cancelling goerr | InMain goerr | Exited int

text \<open>The signal goroutine: waiting, in \<open>srv.Shutdown\<close>, before \<open>cancel\<close>, and finished.\<close>

datatype signal_pc = AwaitSignal | Draining | SigCancel | SigDone

datatype loop = DiscLoop | HealthLoop | GaugeLoop

record process =
  pNode :: Node
  pServer :: Server
  pMain :: main_pc
  pSignal :: signal_pc
  pCtxDone :: bool
  pLoops :: "loop list"

definition the_loops :: "Node \<Rightarrow> loop list" where
  "the_loops n = (case nDisc n of DStatic _ \<Rightarrow> [] | DFile _ \<Rightarrow> [DiscLoop] | DK8s _ \<Rightarrow> [DiscLoop]) @ [HealthLoop, GaugeLoop]"

definition launch :: "Config \<Rightarrow> Node \<Rightarrow> process" where
  "launch cfg n =
     \<lparr>pNode = n, pServer = NewServer (Listen cfg), pMain = Serving, pSignal = AwaitSignal, pCtxDone = False,
      pLoops = the_loops n\<rparr>"

text \<open>Whether the stop channel of discovery is closed; no one closes the channel of the health checker.\<close>

primrec disc_stopped :: "'w Discovery \<Rightarrow> bool" where
  "disc_stopped (DStatic b) = False"
| "disc_stopped (DFile f) = fStopped f"
| "disc_stopped (DK8s k) = kStopped k"

text \<open>
  The cases of the loops' \<open>select\<close>: a loop may return when the context is done or its stop channel
  closed.  The ticker may fire at any time; when it has fired as well, either case may be chosen.
\<close>

definition file_loop_ends :: "bool \<Rightarrow> 'w File \<Rightarrow> bool" where
  "file_loop_ends ctx f \<longleftrightarrow> ctx \<or> fStopped f"

definition k8s_poll_ends :: "bool \<Rightarrow> 'w K8s \<Rightarrow> bool" where
  "k8s_poll_ends ctx k \<longleftrightarrow> ctx \<or> kStopped k"

definition checker_loop_ends :: "bool \<Rightarrow> bool" where
  "checker_loop_ends ctx = ctx"

definition gauges_loop_ends :: "bool \<Rightarrow> bool" where
  "gauges_loop_ends ctx = ctx"

definition loop_may_end :: "process \<Rightarrow> loop \<Rightarrow> bool" where
  "loop_may_end p l =
     (case l of
        DiscLoop \<Rightarrow>
          (case nDisc (pNode p) of
             DStatic b \<Rightarrow> False | DFile f \<Rightarrow> file_loop_ends (pCtxDone p) f | DK8s k \<Rightarrow> k8s_poll_ends (pCtxDone p) k)
      | HealthLoop \<Rightarrow> checker_loop_ends (pCtxDone p)
      | GaugeLoop \<Rightarrow> gauges_loop_ends (pCtxDone p))"

fun loop_of :: "event \<Rightarrow> loop option" where
  "loop_of EDiscover = Some DiscLoop"
| "loop_of EHealthRound = Some HealthLoop"
| "loop_of EGauges = Some GaugeLoop"
| "loop_of _ = None"

definition may_happen :: "process \<Rightarrow> event \<Rightarrow> bool" where
  "may_happen p ev \<longleftrightarrow> (case loop_of ev of None \<Rightarrow> True | Some l \<Rightarrow> l \<in> set (pLoops p))"

definition exit_code :: "goerr \<Rightarrow> int" where
  "exit_code err = (if err \<noteq> ErrServerClosed then 1 else 0)"

text \<open>\<open>disc.Stop\<close> on the node.\<close>

definition stop_discovery :: "env \<Rightarrow> Node \<Rightarrow> Node" where
  "stop_discovery e n = (case disc_stop e (nDisc n) (nOuter n) of (disc', outer') \<Rightarrow> n\<lparr>nDisc := disc', nOuter := outer'\<rparr>)"

section \<open>The process\<close>

datatype who = Main | Signal | Part event | LoopEnd loop

fun ended :: "main_pc \<Rightarrow> bool" where
  "ended (Exited c) = True"
| "ended _ = False"

text \<open>
  Nothing happens after the exit.  A callback that panics ends the process with code 2.  \<open>Shutdown\<close>
  returns when no request is in flight, or when its 15 seconds are over, which may be at any time.
\<close>

inductive proc_step :: "outside \<Rightarrow> decoders \<Rightarrow> who \<Rightarrow> process \<Rightarrow> process \<Rightarrow> bool" for out d where
  Returns: "pMain p = Serving \<Longrightarrow> fault \<noteq> Some ErrServerClosed \<Longrightarrow> server_start fault (pServer p) = Some err \<Longrightarrow>
    proc_step out d Main p (p\<lparr>pMain := Stopping err\<rparr>)"
| StopDiscovery: "pMain p = Stopping err \<Longrightarrow>
    proc_step out d Main p (p\<lparr>pNode := stop_discovery e (pNode p), pMain := Cancelling err\<rparr>)"
| Cancel: "pMain p = Cancelling err \<Longrightarrow> proc_step out d Main p (p\<lparr>pCtxDone := True, pMain := InMain err\<rparr>)"
| Exit: "pMain p = InMain err \<Longrightarrow> proc_step out d Main p (p\<lparr>pMain := Exited (exit_code err)\<rparr>)"
| Caught: "\<not> ended (pMain p) \<Longrightarrow> pSignal p = AwaitSignal \<Longrightarrow>
    proc_step out d Signal p (p\<lparr>pServer := server_shutdown (pServer p), pSignal := Draining\<rparr>)"
| Drained: "\<not> ended (pMain p) \<Longrightarrow> pSignal p = Draining \<Longrightarrow> nInflight (pNode p) = [] \<Longrightarrow>
    proc_step out d Signal p (p\<lparr>pSignal := SigCancel\<rparr>)"
| TimedOut: "\<not> ended (pMain p) \<Longrightarrow> pSignal p = Draining \<Longrightarrow> proc_step out d Signal p (p\<lparr>pSignal := SigCancel\<rparr>)"
| CancelAfter: "\<not> ended (pMain p) \<Longrightarrow> pSignal p = SigCancel \<Longrightarrow>
    proc_step out d Signal p (p\<lparr>pCtxDone := True, pSignal := SigDone\<rparr>)"
| Happens: "\<not> ended (pMain p) \<Longrightarrow> may_happen p ev \<Longrightarrow> node_event out d ev (pNode p) n' \<Longrightarrow>
    proc_step out d (Part ev) p (p\<lparr>pNode := n'\<rparr>)"
| Panics: "\<not> ended (pMain p) \<Longrightarrow> DiscLoop \<in> set (pLoops p) \<Longrightarrow>
    disc_tick e (dEndpoints d) (nDisc (pNode p)) (nOuter (pNode p)) (Some (nRing (pNode p), [])) = (disc', outer', None) \<Longrightarrow>
    proc_step out d (Part EDiscover) p (p\<lparr>pMain := Exited 2\<rparr>)"
| LoopReturns: "\<not> ended (pMain p) \<Longrightarrow> l \<in> set (pLoops p) \<Longrightarrow> loop_may_end p l \<Longrightarrow>
    proc_step out d (LoopEnd l) p (p\<lparr>pLoops := removeAll l (pLoops p)\<rparr>)"

inductive_cases main_stepE: "proc_step out d Main p q"
inductive_cases signal_stepE: "proc_step out d Signal p q"

text \<open>A run, with the labels of its steps.\<close>

inductive proc_run :: "outside \<Rightarrow> decoders \<Rightarrow> process \<Rightarrow> who list \<Rightarrow> process \<Rightarrow> bool" for out d where
  Done: "proc_run out d p [] p"
| Step: "proc_step out d w p q \<Longrightarrow> proc_run out d q ws r \<Longrightarrow> proc_run out d p (w # ws) r"

section \<open>Steps to the exit\<close>

fun main_left :: "main_pc \<Rightarrow> nat" where
  "main_left Serving = 4"
| "main_left (Stopping err) = 3"
| "main_left (Cancelling err) = 2"
| "main_left (InMain err) = 1"
| "main_left (Exited c) = 0"

lemma ended_iff: "ended m \<longleftrightarrow> main_left m = 0"
  by (cases m) simp_all

lemma ended_no_step: "ended (pMain p) \<Longrightarrow> \<not> proc_step out d w p q"
  by (auto elim!: proc_step.cases)

lemma main_step_left: "proc_step out d Main p q \<Longrightarrow> main_left (pMain p) = Suc (main_left (pMain q))"
  by (auto elim!: main_stepE)

lemma other_step_left:
  assumes "proc_step out d w p q" and "w \<noteq> Main"
  shows "pMain q = pMain p \<or> ended (pMain q)"
  using assms by (auto elim!: proc_step.cases)

lemma closing_stays: "proc_step out d w p q \<Longrightarrow> srvClosing (pServer p) \<Longrightarrow> srvClosing (pServer q)"
  by (auto simp: server_shutdown_def elim!: proc_step.cases)

lemma main_enabled:
  assumes "srvClosing (pServer p)" and "\<not> ended (pMain p)"
  shows "\<exists>q. proc_step out d Main p q"
proof (cases "pMain p")
  case Serving
  have "server_start None (pServer p) = Some ErrServerClosed" using assms(1) by (simp add: server_start_def)
  with Serving show ?thesis by (blast intro: proc_step.Returns)
qed (use assms(2) in \<open>auto intro: proc_step.intros\<close>)


section \<open>How a process ends\<close>

definition proc_inv :: "process \<Rightarrow> bool" where
  "proc_inv p \<longleftrightarrow> (srvClosing (pServer p) \<longleftrightarrow> pSignal p \<noteq> AwaitSignal)
     \<and> (\<forall>err. pMain p \<in> {Stopping err, Cancelling err, InMain err} \<longrightarrow> err = ErrServerClosed \<longrightarrow> srvClosing (pServer p))
     \<and> (\<forall>err. pMain p \<in> {Cancelling err, InMain err} \<longrightarrow> disc_stopped (nDisc (pNode p)) \<or> (\<exists>b. nDisc (pNode p) = DStatic b))
     \<and> (\<forall>err. pMain p = InMain err \<longrightarrow> pCtxDone p)
     \<and> (\<forall>c. pMain p = Exited c \<longrightarrow> c \<in> {0, 1, 2} \<and> (c = 0 \<longrightarrow> srvClosing (pServer p))
          \<and> (c = 2 \<or> pCtxDone p \<and> (disc_stopped (nDisc (pNode p)) \<or> (\<exists>b. nDisc (pNode p) = DStatic b))))"

text \<open>Once stopped, discovery stays stopped.\<close>

lemma disc_tick_stopped:
  "disc_tick e dec disc fs w = (disc', fs', w') \<Longrightarrow> disc_stopped disc' = disc_stopped disc
    \<and> ((\<exists>b. disc' = DStatic b) \<longleftrightarrow> (\<exists>b. disc = DStatic b))"
  by (cases disc) (auto simp: file_tick_def file_scan_def k8s_fetch_def split: prod.splits sum.splits option.splits if_splits)

lemma event_stopped:
  "node_event out d ev n n' \<Longrightarrow> disc_stopped (nDisc n') = disc_stopped (nDisc n)
    \<and> ((\<exists>b. nDisc n' = DStatic b) \<longleftrightarrow> (\<exists>b. nDisc n = DStatic b))"
  by (cases rule: node_event.cases) (auto dest: disc_tick_stopped)

lemma stop_stops: "disc_stopped (nDisc (stop_discovery e n)) \<or> (\<exists>b. nDisc (stop_discovery e n) = DStatic b)"
  by (cases "nDisc n") (auto simp: stop_discovery_def file_stop_def k8s_stop_def split: prod.split)

lemma launch_inv: "proc_inv (launch cfg n)"
  by (simp add: proc_inv_def launch_def NewServer_def)

lemma proc_step_inv:
  assumes inv: "proc_inv p" and step: "proc_step out d w p q"
  shows "proc_inv q"
  using step
proof (cases rule: proc_step.cases)
  case (Returns fault err)
  then show ?thesis using inv by (auto simp: proc_inv_def server_start_def split: if_splits)
next
  case (StopDiscovery err e)
  then show ?thesis using inv stop_stops [of e "pNode p"] by (auto simp: proc_inv_def)
next
  case (Cancel err)
  then show ?thesis using inv by (auto simp: proc_inv_def)
next
  case (Exit err)
  then show ?thesis using inv by (auto simp: proc_inv_def exit_code_def)
next
  case Caught
  then show ?thesis using inv by (auto simp: proc_inv_def server_shutdown_def)
next
  case (Happens ev n')
  then show ?thesis using inv event_stopped [OF Happens(5)] by (auto simp: proc_inv_def)
qed (use inv in \<open>auto simp: proc_inv_def\<close>)

lemma proc_run_induct_from:
  assumes "proc_run out d p ws q" and "P p"
    and "\<And>w p q. proc_step out d w p q \<Longrightarrow> P p \<Longrightarrow> P q"
  shows "P q"
  using assms(1,2) by (induction rule: proc_run.induct) (auto intro: assms(3))

lemma signal_in_run:
  "proc_run out d p ws q \<Longrightarrow> pSignal p = AwaitSignal \<Longrightarrow> pSignal q \<noteq> AwaitSignal \<Longrightarrow> Signal \<in> set ws"
proof (induction rule: proc_run.induct)
  case (Done p)
  then show ?case by simp
next
  case (Step w p q ws r)
  then show ?case by (cases "pSignal q = AwaitSignal") (auto elim!: proc_step.cases)
qed


text \<open>What a node keeps invariant at work it keeps to the exit.\<close>

lemma stop_discovery_inv: "node_inv out addr k base os dsk0 (stop_discovery e n) = node_inv out addr k base os dsk0 n"
proof -
  have "disc_base (nDisc (stop_discovery e n)) = disc_base (nDisc n)"
    by (cases "nDisc n") (auto simp: stop_discovery_def file_stop_def k8s_stop_def split: prod.split)
  then show ?thesis by (simp add: node_inv_def cache_of_def) (simp add: stop_discovery_def split: prod.split)
qed

lemma process_keeps_node_inv:
  assumes srt: "slice_sorter vhash (oSortVnodes out)" and ne: "path_of base \<noteq> []" and os: "origins_ok os"
    and inv: "node_inv out addr k base os dsk0 n" and run: "proc_run out d (launch cfg n) ws p"
  shows "node_inv out addr k base os dsk0 (pNode p)"
proof (rule proc_run_induct_from [OF run])
  show "node_inv out addr k base os dsk0 (pNode (launch cfg n))" using inv by (simp add: launch_def)
next
  fix w p q
  assume "proc_step out d w p q" and inv: "node_inv out addr k base os dsk0 (pNode p)"
  then show "node_inv out addr k base os dsk0 (pNode q)"
  proof (cases rule: proc_step.cases)
    case (Happens ev n')
    then show ?thesis using node_step_inv [OF srt ne os inv node_stepI] by simp
  qed (use inv in \<open>simp_all add: stop_discovery_inv\<close>)
qed

section \<open>What an exit leaves undone\<close>

lemma run_snoc: "proc_run out d p ws q \<Longrightarrow> proc_step out d w q r \<Longrightarrow> proc_run out d p (ws @ [w]) r"
  by (induction rule: proc_run.induct) (auto intro: proc_run.intros)

lemma main_to_exit:
  assumes "pMain p = Cancelling err"
  shows "proc_run out d p [Main, Main] (p\<lparr>pCtxDone := True, pMain := Exited (exit_code err)\<rparr>)"
proof -
  let ?p1 = "p\<lparr>pCtxDone := True, pMain := InMain err\<rparr>"
  have "proc_step out d Main p ?p1" by (rule proc_step.Cancel [OF assms])
  moreover have "proc_step out d Main ?p1 (?p1\<lparr>pMain := Exited (exit_code err)\<rparr>)" by (rule proc_step.Exit) simp
  ultimately show ?thesis by (auto intro: proc_run.intros)
qed

text \<open>The shutdown is not graceful: \<open>srv.Start\<close> returns as soon as \<open>Shutdown\<close> is called, not when it has
  finished, and \<open>main\<close> does not wait for the signal goroutine.  Whatever requests are in flight when the
  signal comes, the process can exit with code 0 while \<open>Shutdown\<close> is still waiting for them; after that
  nothing happens any more, so they are never answered.\<close>

theorem shutdown_abandons_requests:
  assumes "pMain p = Serving" and "pSignal p = AwaitSignal"
  shows "\<exists>q. proc_run out d p [Signal, Main, Main, Main, Main] q \<and> pMain q = Exited 0 \<and> pSignal q = Draining
    \<and> nInflight (pNode q) = nInflight (pNode p) \<and> nTasks (pNode q) = nTasks (pNode p) \<and> nOutbox (pNode q) = nOutbox (pNode p)
    \<and> (\<forall>w r. \<not> proc_step out d w q r)"
proof -
  fix e
  let ?p1 = "p\<lparr>pServer := server_shutdown (pServer p), pSignal := Draining\<rparr>"
  let ?p2 = "?p1\<lparr>pMain := Stopping ErrServerClosed\<rparr>"
  let ?p3 = "?p2\<lparr>pNode := stop_discovery e (pNode ?p2), pMain := Cancelling ErrServerClosed\<rparr>"
  let ?q = "?p3\<lparr>pCtxDone := True, pMain := Exited (exit_code ErrServerClosed)\<rparr>"
  have 1: "proc_step out d Signal p ?p1" using assms by (intro proc_step.Caught) simp_all
  have 2: "proc_step out d Main ?p1 ?p2"
    using assms by (intro proc_step.Returns [where fault = None]) (simp_all add: server_start_def server_shutdown_def)
  have 3: "proc_step out d Main ?p2 ?p3" by (rule proc_step.StopDiscovery) simp
  have 4: "proc_run out d ?p3 [Main, Main] ?q" by (rule main_to_exit) simp
  have "proc_run out d p [Signal, Main, Main, Main, Main] ?q" by (intro proc_run.Step [OF 1] proc_run.Step [OF 2] proc_run.Step [OF 3] 4)
  moreover have "\<not> proc_step out d w ?q r" for w r by (rule ended_no_step) (simp add: exit_code_def)
  ultimately show ?thesis by (intro exI [of _ ?q]) (simp add: exit_code_def stop_discovery_def split: prod.split)
qed

text \<open>In file mode a node that has stopped can stay advertised: \<open>Stop\<close> removes its heartbeat file, but the
  loop, which does not prefer the closed channel to its ticker, may beat once more before the exit, and
  then the file is there again, fresh, after the process is gone.\<close>

theorem heartbeat_after_stop:
  assumes main: "pMain p = Stopping err" and loop: "DiscLoop \<in> set (pLoops p)"
    and disc: "nDisc (pNode p) = DFile f" "\<not> fStopped f"
    and ok: "faults e = no_faults" "fs_wf (nOuter (pNode p))" "fs_get (nOuter (pNode p)) (path_of (fDir f)) = Some DirNode"
      "is_abs (fDir f)" "\<forall>ent \<in> set (nOuter (pNode p)). \<forall>c \<in> set (fst ent). proper c"
    and self: "proper (fSelf f)" "\<not> prefix ''.'' (fSelf f)" "CHR 0x0A \<notin> set (fSelf f)" "0 <=s fStale f"
    and own: "fs_get (nOuter (pNode p)) (path_of (fDir f) @ [fSelf f]) = Some (FileNode dat t)"
    and tick: "file_tick e (fst (file_stop e f (nOuter (pNode p)))) (snd (file_stop e f (nOuter (pNode p)))) (Some (nRing (pNode p), []))
      = (f', outer', Some w)"
  shows "fs_get (snd (file_stop e f (nOuter (pNode p)))) (path_of (fDir f) @ [fSelf f]) = None
    \<and> (\<exists>q. proc_run out d p [Main, Part EDiscover, Main, Main] q \<and> pMain q = Exited (exit_code err)
        \<and> fs_get (nOuter (pNode q)) (path_of (fDir f) @ [fSelf f]) = Some (FileNode (fSelf f @ [CHR 0x0A] @ itoa (now e)) (now e)))"
proof -
  let ?p = "path_of (fDir f) @ [fSelf f]" and ?fs = "nOuter (pNode p)" and ?f = "f\<lparr>fStopped := True\<rparr>"
  let ?fs' = "filter (\<lambda>x. fst x \<noteq> ?p) ?fs"
  obtain ring' ms where w: "w = (ring', ms)" by fastforce
  have stop: "file_stop e f ?fs = (?f, ?fs')"
    using disc(2) path_of_path_join_entry [OF ok(4) self(1)] fs_remove_file(1) [OF ok(2) own] by (simp add: file_stop_def ok(1))
  note rest = fs_remove_file(2,3) [OF ok(2) own]
  have names: "\<forall>ent \<in> set ?fs'. \<forall>c \<in> set (fst ent). proper c" using ok(5) by fastforce
  have again: "fs_get outer' ?p = Some (FileNode (fSelf f @ [CHR 0x0A] @ itoa (now e)) (now e))"
    using tick_sees_self [OF ok(1) rest(1), of ?f "Some (nRing (pNode p), [])" f' outer' "Some w"] ok(3,4) names self rest(2) tick
    by (simp add: stop)
  let ?p1 = "p\<lparr>pNode := stop_discovery e (pNode p), pMain := Cancelling err\<rparr>"
  have n1: "nDisc (pNode ?p1) = DFile ?f" "nOuter (pNode ?p1) = ?fs'" "nRing (pNode ?p1) = nRing (pNode p)"
    using disc(1) stop by (simp_all add: stop_discovery_def)
  let ?n2 = "(pNode ?p1)\<lparr>nDisc := DFile f', nOuter := outer', nRing := ring', nLog := nLog (pNode ?p1) @ ms\<rparr>"
  let ?p2 = "?p1\<lparr>pNode := ?n2\<rparr>"
  have "node_event out d EDiscover (pNode ?p1) ?n2"
    by (rule node_event.Discover [of e]) (use tick n1 stop w in simp)
  then have 2: "proc_step out d (Part EDiscover) ?p1 ?p2"
    using loop by (intro proc_step.Happens) (simp_all add: may_happen_def)
  have 1: "proc_step out d Main p ?p1" by (rule proc_step.StopDiscovery [OF main])
  have 3: "proc_run out d ?p2 [Main, Main] (?p2\<lparr>pCtxDone := True, pMain := Exited (exit_code err)\<rparr>)"
    by (rule main_to_exit) simp
  have "proc_run out d p [Main, Part EDiscover, Main, Main] (?p2\<lparr>pCtxDone := True, pMain := Exited (exit_code err)\<rparr>)"
    by (intro proc_run.Step [OF 1] proc_run.Step [OF 2] 3)
  then show ?thesis using stop rest(2) [of ?p] again by auto
qed

section \<open>Witnesses\<close>

text \<open>A started node that is serving a request.\<close>

lemma example_process:
  obtains n p where "startup example_outside example_env example_config empty_disk [] = Some (Inr n)"
    "proc_run example_outside example_decoders (launch example_config n) [Part EArrive] p"
    "pMain p = Serving" "pSignal p = AwaitSignal" "nInflight (pNode p) = [example_request []]" "\<not> srvClosing (pServer p)"
proof -
  obtain n where n: "startup example_outside example_env example_config empty_disk [] = Some (Inr n)" "nInflight n = []"
    using example_start by blast
  let ?n = "n\<lparr>nChecker := IncrPending (nChecker n), nInflight := nInflight n @ [example_request []]\<rparr>"
  have "mux_route (reqMethod (example_request [])) (reqPath (example_request [])) = ToProxy"
    unfolding example_request_def by code_simp
  then have "node_event example_outside example_decoders EArrive n ?n" by (rule node_event.Arrive)
  then have "proc_step example_outside example_decoders (Part EArrive) (launch example_config n) ((launch example_config n)\<lparr>pNode := ?n\<rparr>)"
    by (intro proc_step.Happens) (simp_all add: launch_def may_happen_def)
  then show thesis using n by (intro that [OF n(1)]) (auto intro: proc_run.intros simp: launch_def NewServer_def)
qed

lemma shutdown_abandons_requests_witness:
  "\<exists>n p q. startup example_outside example_env example_config empty_disk [] = Some (Inr n)
    \<and> proc_run example_outside example_decoders (launch example_config n) [Part EArrive] p
    \<and> proc_run example_outside example_decoders p [Signal, Main, Main, Main, Main] q
    \<and> pMain q = Exited 0 \<and> nInflight (pNode q) = [example_request []]"
proof -
  obtain n p where np: "startup example_outside example_env example_config empty_disk [] = Some (Inr n)"
    "proc_run example_outside example_decoders (launch example_config n) [Part EArrive] p"
    "pMain p = Serving" "pSignal p = AwaitSignal" "nInflight (pNode p) = [example_request []]"
    by (rule example_process)
  from shutdown_abandons_requests [OF np(3,4), of example_outside example_decoders] np show ?thesis by auto
qed


text \<open>A node of the heartbeat directory of the example, about to stop.\<close>

definition beating_node :: "Node \<Rightarrow> Node" where
  "beating_node n = n\<lparr>nDisc := DFile \<lparr>fBase = \<lparr>basePeers = [], callbacks = []\<rparr>, fDir = ''/h'', fHeartbeat = 5, fStale = 15,
     fSelf = ''p3'', fStopped = False\<rparr>, nOuter := scan_disk\<rparr>"

lemma heartbeat_after_stop_witness:
  "\<exists>n q. proc_run example_outside example_decoders
       ((launch example_config (beating_node n))\<lparr>pMain := Stopping ErrServerClosed\<rparr>) [Main, Part EDiscover, Main, Main] q
    \<and> pMain q = Exited 0 \<and> fs_get (nOuter (pNode q)) [''h'', ''p3''] = Some (FileNode (''p3'' @ [CHR 0x0A] @ itoa 100) 100)"
proof -
  fix n :: Node
  let ?f = "\<lparr>fBase = \<lparr>basePeers = [], callbacks = []\<rparr>, fDir = ''/h'', fHeartbeat = 5, fStale = 15, fSelf = ''p3'', fStopped = False\<rparr> :: world File"
  let ?p = "(launch example_config (beating_node n))\<lparr>pMain := Stopping ErrServerClosed\<rparr>"
  have p: "pMain ?p = Stopping ErrServerClosed" "DiscLoop \<in> set (pLoops ?p)" "nDisc (pNode ?p) = DFile ?f" "\<not> fStopped ?f"
    "nOuter (pNode ?p) = scan_disk"
    by (simp_all add: launch_def the_loops_def beating_node_def)
  have path: "path_of (fDir ?f) = [''h'']" using scan_example(6) by (simp add: scan_node_def)
  have fs: "faults scan_env = no_faults" "fs_wf (nOuter (pNode ?p))" "fs_get (nOuter (pNode ?p)) (path_of (fDir ?f)) = Some DirNode"
    "is_abs (fDir ?f)" "\<forall>ent \<in> set (nOuter (pNode ?p)). \<forall>c \<in> set (fst ent). proper c"
    using scan_example(1-6) unfolding p(5) path by (simp_all add: scan_node_def)
  have self: "proper (fSelf ?f)" "\<not> prefix ''.'' (fSelf ?f)" "CHR 0x0A \<notin> set (fSelf ?f)" "0 <=s fStale ?f"
    by (simp_all add: proper_def sle_sint)
  have own: "fs_get (nOuter (pNode ?p)) (path_of (fDir ?f) @ [fSelf ?f]) = Some (FileNode (''p3 '' @ [CHR 0x0A] @ ''9'') 90)"
    unfolding p(5) path by (simp add: scan_disk_def fs_get_def)
  let ?st = "file_stop scan_env ?f (nOuter (pNode ?p))"
  obtain f' outer' w where tick: "file_tick scan_env (fst ?st) (snd ?st) (Some (nRing (pNode ?p), [])) = (f', outer', Some w)"
  proof -
    have "\<exists>f' outer' w. file_tick scan_env (fst ?st) (snd ?st) (Some (nRing (pNode ?p), [])) = (f', outer', Some w)"
      by (auto simp: file_tick_def file_scan_def SetPeers_def file_stop_def split: sum.split prod.split)
    then show thesis using that by blast
  qed
  have now: "now scan_env = 100" by (simp add: scan_env_def)
  from heartbeat_after_stop [OF p(1-4) fs self own tick, of example_outside example_decoders]
  show ?thesis unfolding path now by (auto simp: exit_code_def)
qed


end
