(* ===== verification/HashOn.thy ===== *)
theory HashOn
  imports Config Proxy
begin

text \<open>
  The setting \<open>hash_on\<close>, which the configuration validates and the proxy interprets: the two agree on
  the documented forms.
\<close>

section \<open>What \<open>hash_on\<close> means\<close>

text \<open>The documented forms of the setting, how they are written, and the key each stands for.\<close>

datatype hash_mode = ByModel | ByTenant | ByTenantModel | ByHeader string | ByHeaderModel string

primrec mode_text :: "hash_mode \<Rightarrow> string" where
  "mode_text ByModel = ''model''"
| "mode_text ByTenant = ''tenant''"
| "mode_text ByTenantModel = ''tenant/model''"
| "mode_text (ByHeader name) = ''header:'' @ name"
| "mode_text (ByHeaderModel name) = ''header:'' @ name @ ''/model''"

definition scoped :: "string \<Rightarrow> string \<Rightarrow> string" where
  "scoped scope model = (if scope = [] then model else scope @ ''/'' @ model)"

primrec mode_key :: "hash_mode \<Rightarrow> string \<Rightarrow> string \<Rightarrow> header \<Rightarrow> string" where
  "mode_key ByModel model tenant h = model"
| "mode_key ByTenant model tenant h = tenant"
| "mode_key ByTenantModel model tenant h = scoped tenant model"
| "mode_key (ByHeader name) model tenant h = header_get h name"
| "mode_key (ByHeaderModel name) model tenant h = scoped (header_get h name) model"

primrec mode_name_ok :: "hash_mode \<Rightarrow> bool" where
  "mode_name_ok ByModel = True"
| "mode_name_ok ByTenant = True"
| "mode_name_ok ByTenantModel = True"
| "mode_name_ok (ByHeader name) = (name \<noteq> [] \<and> slash \<notin> set name)"
| "mode_name_ok (ByHeaderModel name) = (name \<noteq> [] \<and> slash \<notin> set name)"

lemma split_two_plain: "slash \<notin> set s \<Longrightarrow> split_two s = (s, None)"
  by (auto simp: split_two_def takeWhile_eq_all_conv)

lemma split_two_slash: "slash \<notin> set s \<Longrightarrow> split_two (s @ slash # t) = (s, Some t)"
proof -
  assume s: "slash \<notin> set s"
  then have "takeWhile (\<lambda>c. c \<noteq> slash) (s @ slash # t) = s" "dropWhile (\<lambda>c. c \<noteq> slash) (s @ slash # t) = slash # t"
    by (subst takeWhile_append2 dropWhile_append2; auto)+
  then show ?thesis by (simp add: split_two_def)
qed

lemma header_forms:
  "''header:'' @ s \<noteq> ''model''" "''header:'' @ s \<noteq> ''tenant''" "''header:'' @ s \<noteq> ''tenant/model''"
  "prefix ''header:'' (''header:'' @ s)" "trim_prefix ''header:'' (''header:'' @ s) = s"
  by (simp_all add: trim_prefix_def)

text \<open>C38: Every documented form of \<open>hash_on\<close> passes validation, and the key the proxy builds for it is the
  documented one: the model, the tenant or a header, with the model in its scope where the form says so.\<close>

theorem hash_on_forms:
  assumes "mode_name_ok mode"
  shows "validateHashOn (mode_text mode) = None \<and> buildHashKey model tenant h (mode_text mode) = mode_key mode model tenant h"
proof (cases mode)
  case (ByHeader name)
  then have name: "name \<noteq> []" "slash \<notin> set name" using assms by simp_all
  then have "\<not> suffix ''/model'' name" by (auto simp: suffix_def)
  then have "trim_suffix ''/model'' name = name" by (simp add: trim_suffix_def)
  then show ?thesis using ByHeader name header_forms [of name]
    by (simp add: validateHashOn_def buildHashKey_def split_two_plain Let_def)
next
  case (ByHeaderModel name)
  then have name: "name \<noteq> []" "slash \<notin> set name" using assms by simp_all
  have "trim_suffix ''/model'' (name @ ''/model'') = name" by (simp add: trim_suffix_def suffix_def)
  moreover have "split_two (name @ ''/model'') = (name, Some ''model'')" using split_two_slash [OF name(2), of "''model''"] by simp
  ultimately show ?thesis using ByHeaderModel name header_forms [of "name @ ''/model''"]
    by (simp add: validateHashOn_def buildHashKey_def scoped_def Let_def)
qed (simp_all add: validateHashOn_def buildHashKey_def scoped_def)

lemma hash_on_forms_witness:
  "buildHashKey ''m'' [] [(''X-User'', [''u''])] (mode_text (ByHeaderModel ''X-User'')) = ''u/m''"
proof -
  have "mode_name_ok (ByHeaderModel ''X-User'')" by simp
  moreover have "header_get [(''X-User'', [''u''])] ''X-User'' = ''u''" by code_simp
  ultimately show ?thesis using hash_on_forms [of "ByHeaderModel ''X-User''" "''m''" "[]" "[(''X-User'', [''u''])]"]
    by (simp add: scoped_def)
qed

text \<open>Validation lets through forms that are not documented: after the header's name anything may follow a
  slash, and is ignored when the key is built, so \<open>header:X/modle\<close> silently hashes by the header alone.\<close>

theorem hash_on_ignores_rest:
  assumes "name \<noteq> []" and "slash \<notin> set name" and "slash \<notin> set rest" and "rest \<noteq> ''model''"
  shows "validateHashOn (''header:'' @ name @ slash # rest) = None
    \<and> buildHashKey model tenant h (''header:'' @ name @ slash # rest) = header_get h name"
proof -
  have "trim_suffix ''/model'' (name @ slash # rest) \<noteq> []"
  proof (cases "suffix ''/model'' (name @ slash # rest)")
    case True
    then obtain pre where "name @ slash # rest = pre @ slash # ''model''" by (auto simp: suffix_def)
    then have "split_two (name @ slash # rest) = split_two (pre @ slash # ''model'')" by simp
    have "rest = ''model''"
      using \<open>name @ slash # rest = pre @ slash # ''model''\<close> assms(3)
      by (auto simp: append_eq_append_conv2 append_eq_Cons_conv Cons_eq_append_conv)
    then show ?thesis using assms(4) by simp
  next
    case False
    then show ?thesis using assms(1) by (simp add: trim_suffix_def)
  qed
  then show ?thesis using assms(4) split_two_slash [OF assms(2), of rest] header_forms [of "name @ slash # rest"]
    by (simp add: validateHashOn_def buildHashKey_def Let_def)
qed

lemma hash_on_ignores_rest_witness:
  "validateHashOn ''header:X/modle'' = None \<and> buildHashKey ''m'' [] [(''X'', [''u''])] ''header:X/modle'' = ''u''"
proof -
  have "header_get [(''X'', [''u''])] ''X'' = ''u''" by code_simp
  then show ?thesis using hash_on_ignores_rest [of "''X''" "''modle''" "''m''" "[]" "[(''X'', [''u''])]"] by simp
qed

end
