(* ===== verification/Loadgen.thy ===== *)
theory Loadgen
  imports Http GoSort Complex_Main
begin

text \<open>
  \<open>cmd/loadgen/main.go\<close>: the load generator's requests and the numbers of its report.  Latencies are
  what the clock measured, given from outside; the fractions of the percentiles are rationals.  The
  report is the record of the numbers printed.  The run itself is in \<open>LoadRun\<close>.
\<close>

section \<open>Requests\<close>

record result =
  rAdapter :: string
  rLatency :: int64
  rStatus :: int
  rErr :: string
  rPassthrough :: bool

text \<open>
  \<open>Client.Post\<close> sends the encoded request as JSON.  The body of the answer is not read.
\<close>

definition sendRequest ::
    "http_client \<Rightarrow> (string \<Rightarrow> int64 \<Rightarrow> string) \<Rightarrow> (goerr \<Rightarrow> string) \<Rightarrow> int64 \<Rightarrow> string \<Rightarrow> string \<Rightarrow> int64 \<Rightarrow> result" where
  "sendRequest c enc text latency target model maxTokens =
     (let url = target @ ''/v1/chat/completions'';
          failed = (\<lambda>err. \<lparr>rAdapter = model, rLatency = latency, rStatus = 0, rErr = text err, rPassthrough = False\<rparr>)
      in case newRequest c ''POST'' url of
           Some err \<Rightarrow> failed err
         | None \<Rightarrow>
             (case roundTrip c ''POST'' url (header_set ''Content-Type'' ''application/json'' []) (enc model maxTokens) of
                Inl err \<Rightarrow> failed err
              | Inr resp \<Rightarrow>
                  \<lparr>rAdapter = model, rLatency = latency, rStatus = respStatus resp,
                   rErr = (if 400 \<le> respStatus resp then ''http '' @ itoa (respStatus resp) else []), rPassthrough = False\<rparr>))"

section \<open>Statistics\<close>

record adapterStats =
  sCount :: nat
  sSuccesses :: nat
  sErrors :: nat
  sLatencies :: "int64 list"

definition latenciesOf :: "result list \<Rightarrow> int64 list" where
  "latenciesOf rs = map rLatency rs"

definition percentile :: "int64 list \<Rightarrow> rat \<Rightarrow> int64" where
  "percentile ls p =
     (if ls = [] then 0
      else
        let idx = nat \<lfloor>of_nat (length ls) * p\<rfloor>;
            idx = (if length ls \<le> idx then length ls - 1 else idx)
        in ls ! idx)"

definition pct :: "nat \<Rightarrow> nat \<Rightarrow> rat" where
  "pct a b = (if b = 0 then 0 else of_nat a / of_nat b * 100)"

text \<open>The map of adapters is an association list; a missing entry counts as an empty one.\<close>

definition no_stats :: adapterStats where
  "no_stats = \<lparr>sCount = 0, sSuccesses = 0, sErrors = 0, sLatencies = []\<rparr>"

type_synonym tally = "nat \<times> nat \<times> (string \<times> adapterStats) list"

definition result_key :: "result \<Rightarrow> string" where
  "result_key r = (if rPassthrough r then ''(passthrough)'' else rAdapter r)"

definition add_result :: "tally \<Rightarrow> result \<Rightarrow> tally" where
  "add_result acc r =
     (case acc of (successes, errors, byAdapter) \<Rightarrow>
        let key = result_key r;
            s = (case map_of byAdapter key of Some s \<Rightarrow> s | None \<Rightarrow> no_stats);
            s1 = s\<lparr>sCount := sCount s + 1, sLatencies := sLatencies s @ [rLatency r]\<rparr>;
            store = (\<lambda>s. (key, s) # filter (\<lambda>p. fst p \<noteq> key) byAdapter)
        in if rErr r = [] then (successes + 1, errors, store (s1\<lparr>sSuccesses := sSuccesses s1 + 1\<rparr>))
           else (successes, errors + 1, store (s1\<lparr>sErrors := sErrors s1 + 1\<rparr>)))"

record report_row =
  rowName :: string
  rowCount :: nat
  rowOk :: rat
  rowP50 :: int64
  rowP95 :: int64
  rowP99 :: int64

record report =
  repTotal :: nat
  repSuccesses :: nat
  repErrors :: nat
  repP50 :: int64
  repP95 :: int64
  repP99 :: int64
  repMin :: int64
  repMax :: int64
  repFast :: nat
  repRows :: "report_row list"

definition report_row_of :: "(int64 list \<Rightarrow> int64 list) \<Rightarrow> string \<times> adapterStats \<Rightarrow> report_row" where
  "report_row_of srt ks =
     (case ks of (k, s) \<Rightarrow>
        let ls = srt (sLatencies s)
        in \<lparr>rowName = (if 55 < length k then ''...'' @ drop (length k - 52) k else k), rowCount = sCount s,
            rowOk = pct (sSuccesses s) (sCount s), rowP50 = percentile ls (50 / 100), rowP95 = percentile ls (95 / 100),
            rowP99 = percentile ls (99 / 100)\<rparr>)"

text \<open>\<open>printReport\<close>; without results there is none.\<close>

definition printReport ::
    "(int64 list \<Rightarrow> int64 list) \<Rightarrow> ((string \<times> adapterStats) list \<Rightarrow> (string \<times> adapterStats) list) \<Rightarrow> result list \<Rightarrow> report option" where
  "printReport srt srtKeys results =
     (if results = [] then None
      else case foldl add_result (0, 0, []) results of
        (successes, errors, byAdapter) \<Rightarrow>
          let allLat = srt (latenciesOf results)
          in Some \<lparr>repTotal = length results, repSuccesses = successes, repErrors = errors,
               repP50 = percentile allLat (50 / 100), repP95 = percentile allLat (95 / 100), repP99 = percentile allLat (99 / 100),
               repMin = allLat ! 0, repMax = allLat ! (length allLat - 1),
               repFast = length (filter (\<lambda>l. l <s 100000000) allLat),
               repRows = map (report_row_of srt) (srtKeys byAdapter)\<rparr>)"

section \<open>Lists\<close>

definition splitNonEmpty :: "string \<Rightarrow> char \<Rightarrow> string list" where
  "splitNonEmpty s sep =
     (if s = [] then [] else filter (\<lambda>p. p \<noteq> []) (map trim_space (split_on sep s)))"

fun join_comma :: "string list \<Rightarrow> string" where
  "join_comma [] = []"
| "join_comma [x] = x"
| "join_comma (x # xs) = x @ '', '' @ join_comma xs"

definition truncList :: "string list \<Rightarrow> nat \<Rightarrow> string" where
  "truncList items mx =
     (if length items \<le> mx then join_comma items
      else join_comma (take mx items) @ '', ... +'' @ utoa (length items - mx) @ '' more'')"

section \<open>What the tally holds\<close>

definition stats_of :: "result list \<Rightarrow> adapterStats" where
  "stats_of rs =
     \<lparr>sCount = length rs, sSuccesses = length (filter (\<lambda>r. rErr r = []) rs),
      sErrors = length (filter (\<lambda>r. rErr r \<noteq> []) rs), sLatencies = map rLatency rs\<rparr>"

definition results_for :: "result list \<Rightarrow> string \<Rightarrow> result list" where
  "results_for rs k = filter (\<lambda>r. result_key r = k) rs"

definition stats_for :: "result list \<Rightarrow> string \<Rightarrow> adapterStats option" where
  "stats_for rs k = (if results_for rs k = [] then None else Some (stats_of (results_for rs k)))"

lemma stats_for_default:
  "(case stats_for rs k of Some s \<Rightarrow> s | None \<Rightarrow> no_stats) = stats_of (results_for rs k)"
  by (simp add: stats_for_def stats_of_def no_stats_def)

lemma stats_for_snoc:
  "stats_for (rs @ [r]) k = (if result_key r = k then Some (stats_of (results_for rs k @ [r])) else stats_for rs k)"
  by (simp add: stats_for_def results_for_def)

lemma tally_spec:
  "foldl add_result (0, 0, []) rs = (su, er, by) \<Longrightarrow>
     su = length (filter (\<lambda>r. rErr r = []) rs) \<and> er = length (filter (\<lambda>r. rErr r \<noteq> []) rs)
     \<and> distinct (map fst by) \<and> (\<forall>k. map_of by k = stats_for rs k)"
proof (induction rs arbitrary: su er "by" rule: rev_induct)
  case Nil
  then show ?case by (auto simp: stats_for_def results_for_def)
next
  case (snoc r rs)
  obtain su0 er0 by0 where acc: "foldl add_result (0, 0, []) rs = (su0, er0, by0)" by (metis prod_cases3)
  note ih = snoc.IH [OF acc]
  let ?k = "result_key r"
  have old: "(case map_of by0 ?k of Some s \<Rightarrow> s | None \<Rightarrow> no_stats) = (case stats_for rs ?k of Some s \<Rightarrow> s | None \<Rightarrow> no_stats)"
    using ih by simp
  note old = old [unfolded stats_for_default]
  have step: "add_result (su0, er0, by0) r = (su, er, by)" using snoc.prems acc by simp
  have map_filter: "map_of (filter (\<lambda>p. fst p \<noteq> ?k) by0) k = (if k \<noteq> ?k then map_of by0 k else None)" for k
    by (rule map_of_filter_fst)
  have dist: "distinct (map fst (filter (\<lambda>p. fst p \<noteq> ?k) by0))" using ih by (simp add: distinct_map_filter_fst)
  show ?case
  proof (cases "rErr r = []")
    case True
    then have "su = su0 + 1" "er = er0" "map_of by k = stats_for (rs @ [r]) k" "distinct (map fst by)" for k
      using step map_filter ih dist by (auto simp: add_result_def old stats_for_default Let_def stats_for_snoc stats_of_def)
    then show ?thesis using ih True by simp
  next
    case False
    then have "su = su0" "er = er0 + 1" "map_of by k = stats_for (rs @ [r]) k" "distinct (map fst by)" for k
      using step map_filter ih dist by (auto simp: add_result_def old stats_for_default Let_def stats_for_snoc stats_of_def)
    then show ?thesis using ih False by simp
  qed
qed

section \<open>Properties\<close>

lemma percentile_index:
  assumes "ls \<noteq> []" and "0 \<le> p"
  obtains i where "i < length ls" "percentile ls p = ls ! i" "i = min (nat \<lfloor>of_nat (length ls) * p\<rfloor>) (length ls - 1)"
  using assms that by (cases "length ls \<le> nat \<lfloor>of_nat (length ls) * p\<rfloor>") (auto simp: percentile_def Let_def)

text \<open>A percentile of a sorted non-empty list is one of the latencies, does not decrease with the fraction, and
  for a fraction below one is at least as large as more than that share of the latencies.\<close>

theorem percentile_covers:
  assumes "sorted (map sint ls)" and "ls \<noteq> []" and "0 \<le> p" and "p \<le> q"
  shows "percentile ls p \<in> set ls \<and> sint (percentile ls p) \<le> sint (percentile ls q)
    \<and> (p < 1 \<longrightarrow> of_nat (length ls) * p < of_nat (length (filter (\<lambda>l. sint l \<le> sint (percentile ls p)) ls)))"
proof -
  let ?n = "length ls"
  obtain i where i: "i < ?n" "percentile ls p = ls ! i" "i = min (nat \<lfloor>of_nat ?n * p\<rfloor>) (?n - 1)"
    using percentile_index [OF assms(2,3)] .
  have q0: "0 \<le> q" using assms(3,4) by simp
  obtain j where j: "j < ?n" "percentile ls q = ls ! j" "j = min (nat \<lfloor>of_nat ?n * q\<rfloor>) (?n - 1)"
    using percentile_index [OF assms(2) q0] .
  have "of_nat ?n * p \<le> of_nat ?n * q" using assms(4) by (simp add: mult_left_mono)
  then have "nat \<lfloor>of_nat ?n * p\<rfloor> \<le> nat \<lfloor>of_nat ?n * q\<rfloor>" by (intro nat_mono floor_mono)
  then have ij: "i \<le> j" unfolding i(3) j(3) by (rule min.mono) simp
  have mono: "sint (ls ! a) \<le> sint (ls ! b)" if "a \<le> b" "b < ?n" for a b
    using sorted_nth_mono [OF assms(1), of a b] that by simp
  have "of_nat ?n * p < of_nat (length (filter (\<lambda>l. sint l \<le> sint (percentile ls p)) ls))" if "p < 1"
  proof -
    have "of_nat ?n * p < of_nat ?n" using that assms(2) by simp
    then have "\<lfloor>of_nat ?n * p\<rfloor> < int ?n" by (simp add: floor_less_iff)
    moreover have "0 \<le> \<lfloor>of_nat ?n * p\<rfloor>" using assms(3) by simp
    ultimately have "nat \<lfloor>of_nat ?n * p\<rfloor> < ?n" "int (nat \<lfloor>of_nat ?n * p\<rfloor>) = \<lfloor>of_nat ?n * p\<rfloor>"
      by linarith+
    then have i': "int i = \<lfloor>of_nat ?n * p\<rfloor>" unfolding i(3) by (simp add: min_absorb1)
    have "of_nat ?n * p < of_int (\<lfloor>of_nat ?n * p\<rfloor> + 1)" using floor_correct [of "of_nat ?n * p"] by simp
    then have "of_nat ?n * p < of_nat (i + 1)" by (simp flip: i')
    moreover have "i + 1 \<le> length (filter (\<lambda>l. sint l \<le> sint (percentile ls p)) ls)"
    proof -
      have "\<forall>l \<in> set (take (i + 1) ls). sint l \<le> sint (ls ! i)"
        using i(1) mono by (auto simp: in_set_conv_nth)
      then have "filter (\<lambda>l. sint l \<le> sint (ls ! i)) (take (i + 1) ls) = take (i + 1) ls" by (simp add: filter_id_conv)
      moreover have "length (filter (\<lambda>l. sint l \<le> sint (ls ! i)) (take (i + 1) ls)) \<le> length (filter (\<lambda>l. sint l \<le> sint (ls ! i)) ls)"
        by (metis append_take_drop_id filter_append length_append le_add1)
      ultimately show ?thesis using i(1,2) by simp
    qed
    ultimately show ?thesis by (meson less_le_trans of_nat_mono)
  qed
  then show ?thesis using i j ij mono [of i j] by simp
qed

lemma percentile_covers_witness: "percentile [10, 20, 30, 40] (95 / 100) = 40 \<and> sint (percentile [10, 20, 30, 40] (50 / 100)) \<le> 40"
proof -
  have "sorted (map sint [10, 20, 30, 40 :: int64])" by simp
  then have "sint (percentile [10, 20, 30, 40] (50 / 100)) \<le> sint (percentile [10, 20, 30, 40] (95 / 100))"
    using percentile_covers [of "[10, 20, 30, 40]" "50 / 100" "95 / 100"] by simp
  moreover have "percentile [10, 20, 30, 40] (95 / 100) = (40 :: int64)"
  proof -
    have "\<lfloor>19 / 5 :: rat\<rfloor> = 3" by (simp add: floor_eq_iff)
    then show ?thesis by (simp add: percentile_def Let_def)
  qed
  ultimately show ?thesis by simp
qed

text \<open>A number kept per adapter, summed over the tally, is the number of results it counts.\<close>

lemma tally_sum:
  assumes "foldl add_result (0, 0, []) rs = (su, er, tally)"
    and g: "\<And>k. g (stats_of (results_for rs k)) = length (filter P (results_for rs k))"
  shows "sum_list (map (g \<circ> snd) tally) = length (filter P rs)"
proof -
  note spec = tally_spec [OF assms(1)]
  have keys: "distinct (map fst tally)" using spec by simp
  have dom: "k \<in> fst ` set tally \<longleftrightarrow> k \<in> result_key ` set rs" for k
  proof -
    have "map_of tally k = None \<longleftrightarrow> results_for rs k = []" using spec by (simp add: stats_for_def)
    moreover have "results_for rs k = [] \<longleftrightarrow> k \<notin> result_key ` set rs" by (auto simp: results_for_def filter_empty_conv)
    ultimately show ?thesis using map_of_eq_None_iff [of tally k] by metis
  qed
  have "sum_list (map (g \<circ> snd) tally) = (\<Sum>k \<in> fst ` set tally. length (filter P (results_for rs k)))"
  proof -
    have "g (snd p) = length (filter P (results_for rs (fst p)))" if "p \<in> set tally" for p
    proof -
      have "map_of tally (fst p) = Some (snd p)" using that keys by (simp add: map_of_eq_Some_iff)
      then have "stats_for rs (fst p) = Some (snd p)" using spec by simp
      then have "snd p = stats_of (results_for rs (fst p))" by (simp add: stats_for_def split: if_splits)
      then show ?thesis using g [of "fst p"] by simp
    qed
    then have "map (g \<circ> snd) tally = map (\<lambda>p. length (filter P (results_for rs (fst p)))) tally" by simp
    moreover have "sum_list (map (\<lambda>p. length (filter P (results_for rs (fst p)))) tally)
        = (\<Sum>k \<in> fst ` set tally. length (filter P (results_for rs k)))"
      using keys sum_list_distinct_conv_sum_set [OF keys, of "\<lambda>k. length (filter P (results_for rs k))"] by (simp add: comp_def)
    ultimately show ?thesis by (simp only:)
  qed
  also have "\<dots> = (\<Sum>k \<in> result_key ` set rs. length (filter P (results_for rs k)))"
    using dom by (intro sum.cong) auto
  also have "\<dots> = (\<Sum>k \<in> result_key ` set rs. count (mset (map result_key (filter P rs))) k)"
  proof (intro sum.cong refl)
    fix k
    have "filter P (results_for rs k) = filter (\<lambda>r. k = result_key r) (filter P rs)"
      by (auto simp: results_for_def intro: filter_cong)
    then show "length (filter P (results_for rs k)) = count (mset (map result_key (filter P rs))) k"
      by (simp only: count_mset count_list_eq_length_filter filter_map length_map comp_def)
  qed
  also have "\<dots> = size (mset (map result_key (filter P rs)))"
    unfolding size_multiset_overloaded_eq by (rule sum.mono_neutral_right) (auto simp: count_eq_zero_iff)
  also have "\<dots> = length (filter P rs)" by (simp only: size_mset length_map)
  finally show ?thesis .
qed

text \<open>The report accounts for every result exactly once: successes and errors add up to the total, so do the
  rows, and the tally of each adapter holds exactly its own results.\<close>

theorem report_adds_up:
  assumes "foldl add_result (0, 0, []) rs = (su, er, tally)"
  shows "su + er = length rs \<and> sum_list (map (sCount \<circ> snd) tally) = length rs
    \<and> (\<forall>k. map_of tally k = stats_for rs k)
    \<and> sum_list (map (sSuccesses \<circ> snd) tally) = su \<and> sum_list (map (sErrors \<circ> snd) tally) = er"
proof -
  note spec = tally_spec [OF assms]
  note sums = tally_sum [OF assms]
  have "sum_list (map (sCount \<circ> snd) tally) = length (filter (\<lambda>r. True) rs)"
    by (rule sums) (simp add: stats_of_def)
  moreover have "sum_list (map (sSuccesses \<circ> snd) tally) = length (filter (\<lambda>r. rErr r = []) rs)"
    by (rule sums) (simp add: stats_of_def)
  moreover have "sum_list (map (sErrors \<circ> snd) tally) = length (filter (\<lambda>r. rErr r \<noteq> []) rs)"
    by (rule sums) (simp add: stats_of_def)
  moreover have "length (filter (\<lambda>r. rErr r = []) rs) + length (filter (\<lambda>r. rErr r \<noteq> []) rs) = length rs"
    by (rule sum_length_filter_compl)
  ultimately show ?thesis using spec by simp
qed

lemma report_adds_up_witness:
  "sum_list (map (sCount \<circ> snd) (snd (snd (foldl add_result (0, 0, [])
     [\<lparr>rAdapter = ''a'', rLatency = 5, rStatus = 200, rErr = [], rPassthrough = False\<rparr>,
      \<lparr>rAdapter = ''b'', rLatency = 7, rStatus = 500, rErr = ''http 500'', rPassthrough = True\<rparr>])))) = 2"
proof -
  let ?rs = "[\<lparr>rAdapter = ''a'', rLatency = 5, rStatus = 200, rErr = [], rPassthrough = False\<rparr>,
      \<lparr>rAdapter = ''b'', rLatency = 7, rStatus = 500, rErr = ''http 500'', rPassthrough = True\<rparr>]"
  obtain su er t where "foldl add_result (0, 0, []) ?rs = (su, er, t)" by (metis prod_cases3)
  from report_adds_up [OF this] this show ?thesis by simp
qed

end
