(* ===== verification/JsonRoundtrip.thy ===== *)
theory JsonRoundtrip
  imports GoJson
begin

text \<open>
  Reading what was written: \<open>unmarshal (json_text v)\<close> is \<open>v\<close> for every value whose strings are UTF-8 and whose
  numbers have a finite decimal expansion (\<open>unmarshal_json_text\<close>).  The pieces: an escaped string is read up
  to its closing quote and unescapes to itself; a printed number is read to its last digit; a value's text
  splits into the value's tokens; and the machine, run on them, completes the value.
\<close>

section \<open>Strings\<close>

definition plain_char :: "char \<Rightarrow> bool" where
  "plain_char c \<longleftrightarrow> 32 \<le> byte c \<and> c \<noteq> CHR 0x22 \<and> c \<noteq> CHR 0x5C"

lemma lex_plain:
  "list_all plain_char p \<Longrightarrow> lex_string (p @ t) = map_option (\<lambda>(raw, rest). (p @ raw, rest)) (lex_string t)"
proof (induction p)
  case Nil
  then show ?case by (cases "lex_string t") auto
next
  case (Cons c p)
  then show ?case by (cases "lex_string t") (auto simp: plain_char_def)
qed

lemma hex_digit_val:
  "hex_val (hex_digit n) = Some (n mod 16)" "plain_char (hex_digit n)"
proof -
  have "\<forall>m \<in> set [0..<16]. hex_val (''0123456789abcdef'' ! m) = Some m \<and> plain_char (''0123456789abcdef'' ! m)" by code_simp
  moreover have "n mod 16 \<in> set [0..<16]" by simp
  ultimately show "hex_val (hex_digit n) = Some (n mod 16)" "plain_char (hex_digit n)" unfolding hex_digit_def by blast+
qed

lemma plain_zero: "plain_char CHR ''0''" "hex_val CHR ''0'' = Some 0" "plain_char CHR ''2''" "hex_val CHR ''2'' = Some 2"
  "plain_char CHR ''8''" "hex_val CHR ''8'' = Some 8" "plain_char CHR ''9''" "hex_val CHR ''9'' = Some 9"
  "plain_char CHR ''f''" "hex_val CHR ''f'' = Some 15" "plain_char CHR ''d''" "hex_val CHR ''d'' = Some 13"
  by (simp_all add: plain_char_def hex_val_def is_digit_def)

lemma four_hex_append:
  assumes "length h = 4" and "map hex_val h = [Some a, Some b, Some c, Some d]"
  shows "four_hex (h @ t) = Some (4096 * a + 256 * b + 16 * c + d)"
  using assms by (simp add: four_hex_def)

text \<open>An escape with four digits, and one with a letter, inside a string.\<close>

lemma lex_u:
  assumes "four_hex (h @ t) \<noteq> None" and "list_all plain_char h"
  shows "lex_string (CHR 0x5C # CHR ''u'' # h @ t) = map_option (\<lambda>(raw, rest). (CHR 0x5C # CHR ''u'' # h @ raw, rest)) (lex_string t)"
  using assms lex_plain [OF assms(2), of t] by (cases "lex_string t") auto

lemma lex_letter:
  assumes "d \<in> set [CHR ''b'', CHR ''f'', CHR ''n'', CHR ''r'', CHR ''t'', CHR 0x5C, CHR ''/'', CHR 0x22]"
  shows "lex_string (CHR 0x5C # d # t) = map_option (\<lambda>(raw, rest). (CHR 0x5C # d # raw, rest)) (lex_string t)"
  using assms by (cases "lex_string t") auto

text \<open>The pieces an escaped text is made of.\<close>

lemma escape_ascii_cases:
  assumes "byte c < 128"
  obtains (plain) "escape_ascii c = [c]" "plain_char c"
  | (letter) d where "escape_ascii c = [CHR 0x5C, d]" "escaped_char d = c" "d \<noteq> CHR ''u''"
      "d \<in> set [CHR ''b'', CHR ''f'', CHR ''n'', CHR ''r'', CHR ''t'', CHR 0x5C, CHR ''/'', CHR 0x22]"
  | (code) "escape_ascii c = CHR 0x5C # CHR ''u'' # [CHR ''0'', CHR ''0'', hex_digit (byte c div 16), hex_digit (byte c)]"
proof -
  consider "html_safe c" | "\<not> html_safe c" "c = CHR 0x22 \<or> c = CHR 0x5C" | "byte c = 8" | "byte c = 12" | "byte c = 10"
    | "byte c = 13" | "byte c = 9"
    | "\<not> html_safe c" "c \<noteq> CHR 0x22" "c \<noteq> CHR 0x5C" "byte c \<noteq> 8" "byte c \<noteq> 12" "byte c \<noteq> 10" "byte c \<noteq> 13" "byte c \<noteq> 9"
    by blast
  then show thesis
  proof cases
    case 1
    then show thesis using plain by (simp add: escape_ascii_def html_safe_def plain_char_def)
  next
    case 2
    then show thesis by (intro letter [of c]) (elim disjE; simp add: escape_ascii_def escaped_char_def)+
  next
    case 3
    then have c: "c = CHR 0x08" using of_char_eq_iff [where ?'a = nat, of c "CHR 0x08"] by simp
    show thesis by (rule letter [of "CHR ''b''"]) (simp_all add: escape_ascii_def escaped_char_def html_safe_def c)
  next
    case 4
    then have c: "c = CHR 0x0C" using of_char_eq_iff [where ?'a = nat, of c "CHR 0x0C"] by simp
    show thesis by (rule letter [of "CHR ''f''"]) (simp_all add: escape_ascii_def escaped_char_def html_safe_def c)
  next
    case 5
    then have c: "c = CHR 0x0A" using of_char_eq_iff [where ?'a = nat, of c "CHR 0x0A"] by simp
    show thesis by (rule letter [of "CHR ''n''"]) (simp_all add: escape_ascii_def escaped_char_def html_safe_def c)
  next
    case 6
    then have c: "c = CHR 0x0D" using of_char_eq_iff [where ?'a = nat, of c "CHR 0x0D"] by simp
    show thesis by (rule letter [of "CHR ''r''"]) (simp_all add: escape_ascii_def escaped_char_def html_safe_def c)
  next
    case 7
    then have c: "c = CHR 0x09" using of_char_eq_iff [where ?'a = nat, of c "CHR 0x09"] by simp
    show thesis by (rule letter [of "CHR ''t''"]) (simp_all add: escape_ascii_def escaped_char_def html_safe_def c)
  next
    case 8
    then show thesis by (intro code) (simp add: escape_ascii_def)
  qed
qed

lemma four_hex_code: "four_hex ([CHR ''0'', CHR ''0'', hex_digit (n div 16), hex_digit n] @ t) = Some (16 * (n div 16 mod 16) + n mod 16)"
  by (subst four_hex_append [where a = 0 and b = 0]) (simp_all add: hex_digit_val plain_zero)

lemma lex_ascii:
  assumes "byte c < 128"
  shows "lex_string (escape_ascii c @ t) = map_option (\<lambda>(raw, rest). (escape_ascii c @ raw, rest)) (lex_string t)"
  using assms
proof (cases rule: escape_ascii_cases)
  case plain
  then show ?thesis using lex_plain [of "[c]" t] by simp
next
  case (letter d)
  then show ?thesis using lex_letter [OF letter(4), of t] by simp
next
  case code
  have "four_hex ([CHR ''0'', CHR ''0'', hex_digit (byte c div 16), hex_digit (byte c)] @ t) \<noteq> None"
    by (simp only: four_hex_code) simp
  from lex_u [OF this] show ?thesis by (simp add: code hex_digit_val plain_zero)
qed

lemma lex_rune:
  assumes "\<forall>x \<in> set r. 128 \<le> byte x"
  shows "lex_string (escape_rune r @ t) = map_option (\<lambda>(raw, rest). (escape_rune r @ raw, rest)) (lex_string t)"
proof -
  have "list_all plain_char r" using assms by (force simp: list_all_iff plain_char_def)
  then have p: "lex_string (r @ t) = map_option (\<lambda>(raw, rest). (r @ raw, rest)) (lex_string t)" by (rule lex_plain)
  have u: "lex_string (CHR 0x5C # ''u2028'' @ t) = map_option (\<lambda>(raw, rest). (CHR 0x5C # ''u2028'' @ raw, rest)) (lex_string t)"
    "lex_string (CHR 0x5C # ''u2029'' @ t) = map_option (\<lambda>(raw, rest). (CHR 0x5C # ''u2029'' @ raw, rest)) (lex_string t)"
    using lex_u [of "''2028''" t] lex_u [of "''2029''" t] by (simp_all add: four_hex_def plain_zero)
  show ?thesis using p u by (simp add: escape_rune_def)
qed

lemma lex_escape: "lex_string (escape s @ CHR 0x22 # rest) = Some (escape s, rest)"
proof (induction s rule: escape.induct)
  case 1
  then show ?case by simp
next
  case (2 c cs)
  show ?case
  proof (cases "byte c < 128")
    case True
    then show ?thesis using 2(1) lex_ascii [OF True] by simp
  next
    case big: False
    show ?thesis
    proof (cases "rune_len (c # cs) = 0")
      case True
      then have "lex_string (escape cs @ CHR 0x22 # rest) = Some (escape cs, rest)" using 2(2) big by simp
      moreover have "lex_string (CHR 0x5C # ''ufffd'' @ t) = map_option (\<lambda>(raw, rest). (CHR 0x5C # ''ufffd'' @ raw, rest)) (lex_string t)" for t
        using lex_u [of "''fffd''" t] by (simp add: four_hex_def plain_zero)
      ultimately show ?thesis using True big by (simp add: Let_def)
    next
      case False
      obtain lo hi where "\<forall>x \<in> set (take (rune_len (c # cs)) (c # cs)). 128 \<le> byte x"
        using rune_len_cases [OF refl False] big by metis
      from lex_rune [OF this] 2(3) [OF big refl] False big show ?thesis by (simp add: Let_def)
    qed
  qed
qed

lemma unescape_letter: "d \<noteq> CHR ''u'' \<Longrightarrow> byte d < 128 \<Longrightarrow> unescape (CHR 0x5C # d # t) = escaped_char d # unescape t"
  by simp

lemma unescape_code:
  "four_hex t = Some v \<Longrightarrow> \<not> is_surrogate v \<Longrightarrow> unescape (CHR 0x5C # CHR ''u'' # t) = utf8_encode v @ unescape (drop 4 t)"
  by simp

lemma unescape_ascii:
  assumes "byte c < 128"
  shows "unescape (escape_ascii c @ t) = c # unescape t"
  using assms
proof (cases rule: escape_ascii_cases)
  case plain
  then show ?thesis using assms by (simp add: plain_char_def)
next
  case (letter d)
  have "byte d < 128" using letter(4) by auto
  then show ?thesis by (simp only: letter(1) append_Cons append_Nil unescape_letter [OF letter(3)] letter(2))
next
  case code
  let ?b = "byte c"
  have v: "16 * (?b div 16 mod 16) + ?b mod 16 = ?b" 
  proof -
    have "?b div 16 < 16" using assms by (simp add: less_mult_imp_div_less)
    then have "?b div 16 mod 16 = ?b div 16" by simp
    then show ?thesis by (metis mult_div_mod_eq)
  qed
  have "four_hex ([CHR ''0'', CHR ''0'', hex_digit (?b div 16), hex_digit ?b] @ t) = Some ?b"
    by (simp only: four_hex_code v)
  moreover have "utf8_encode ?b = [c]" using assms by (simp add: utf8_encode_def)
  moreover have "\<not> is_surrogate ?b" using assms by (simp add: is_surrogate_def)
  ultimately show ?thesis using unescape_code [of "[CHR ''0'', CHR ''0'', hex_digit (?b div 16), hex_digit ?b] @ t"]
    by (simp only: code) simp
qed

lemma unescape_rune:
  assumes n: "rune_len s = n" "2 \<le> n"
  shows "unescape (escape_rune (take n s) @ t) = take n s @ unescape t"
proof -
  obtain c cs where s: "s = c # cs" using n by (cases s) (auto simp: rune_len_def)
  have ne: "n \<noteq> 0" using n by simp
  have b: "128 \<le> byte c" using rune_len_cases [OF n(1) [unfolded s] ne] n(2) by fastforce
  have plain: "unescape (take n s @ t) = take n s @ unescape t"
  proof -
    have hd: "take n s @ t = c # (take (n - 1) cs @ t)" using n by (cases n) (simp_all add: s)
    have r: "rune_len (c # (take (n - 1) cs @ t)) = n" using rune_len_prefix [OF n(1) ne, of t] by (simp add: hd)
    have c: "c \<noteq> CHR 0x5C" using b by auto
    have le: "n \<le> length s" using rune_len_le [of s] n by simp
    have "unescape (take n s @ t) = take n (take n s @ t) @ unescape (drop n (take n s @ t))"
      unfolding hd using b c r ne by (simp add: Let_def)
    then show ?thesis using le by simp
  qed
  have e: "four_hex (''2028'' @ t) = Some 8232" "four_hex (''2029'' @ t) = Some 8233"
    by (simp_all add: four_hex_def hex_val_def is_digit_def)
  have u: "utf8_encode 8232 = [CHR 0xE2, CHR 0x80, CHR 0xA8]" "utf8_encode 8233 = [CHR 0xE2, CHR 0x80, CHR 0xA9]"
    by (simp_all add: utf8_encode_def char_of_def bit_iff_odd)
  show ?thesis
    using plain unescape_code [OF e(1)] unescape_code [OF e(2)] u by (auto simp: escape_rune_def is_surrogate_def simp del: unescape.simps)
qed

lemma unescape_escape: "valid_utf8 s \<Longrightarrow> unescape (escape s) = s"
proof (induction s rule: escape.induct)
  case 1
  then show ?case by simp
next
  case (2 c cs)
  let ?n = "rune_len (c # cs)"
  have v: "?n \<noteq> 0" "valid_utf8 (drop ?n (c # cs))" using 2(4) by (simp_all add: valid_utf8.simps [of "c # cs"] split: if_splits)
  show ?case
  proof (cases "byte c < 128")
    case True
    then have n: "?n = 1" by (simp add: rune_len_def lead_def)
    then show ?thesis using True v 2(1) by (simp add: unescape_ascii)
  next
    case False
    then have n: "2 \<le> ?n" using rune_len_cases [OF refl v(1)] by fastforce
    have "unescape (escape (c # cs)) = take ?n (c # cs) @ unescape (escape (drop ?n (c # cs)))"
      using False v(1) by (simp add: Let_def unescape_rune [OF refl n])
    then show ?thesis using 2(3) [OF False refl v(1) v(2)] by simp
  qed
qed

lemma tokens_string:
  "valid_utf8 s \<Longrightarrow> tokens_of (json_string s @ rest) = TStr s # tokens_of rest"
  by (simp add: json_string_def json_space_def lex_escape unescape_escape)

section \<open>Numbers\<close>

definition ends_number :: "string \<Rightarrow> bool" where
  "ends_number rest \<longleftrightarrow> rest = [] \<or> \<not> is_digit (hd rest) \<and> hd rest \<notin> {CHR ''.'', CHR ''e'', CHR ''E''}"

lemma utoa_leading: "hd (utoa n) = CHR ''0'' \<longleftrightarrow> n = 0"
proof (induction n rule: utoa.induct)
  case (1 n)
  show ?case
  proof (cases "n < 10")
    case True
    have "hd (utoa n) = char_of (48 + n)" using True by (simp add: utoa.simps [of n])
    moreover have "byte (char_of (48 + n)) = 48 + n" using True by simp
    moreover have "byte CHR ''0'' = 48" by simp
    ultimately show ?thesis by (metis add_cancel_left_right char_of_char)
  next
    case False
    then show ?thesis using 1 by (simp add: utoa.simps [of n])
  qed
qed

lemma utoa_single: "hd (utoa n) = CHR ''0'' \<Longrightarrow> utoa n = ''0''"
  using utoa_leading [of n] by (simp add: utoa.simps [of 0] char_of_def bit_iff_odd)

text \<open>The digits of a printed number are read as one number.\<close>

lemma number_digits:
  assumes "u = [] \<or> \<not> is_digit (hd u)" and "t = utoa n @ u"
  shows "(if t \<noteq> [] \<and> hd t = CHR ''0'' then [hd t] else takeWhile is_digit t) = utoa n"
  using takeWhile_digits(1) [OF utoa_digits assms(1), of n] utoa_single [of n] by (cases "hd (utoa n) = CHR ''0''") (auto simp: assms(2))

lemma minus_digit: "\<not> is_digit CHR ''-''" "\<not> is_digit CHR ''.''"
  by (simp_all add: is_digit_def)

definition with_sign :: "bool \<Rightarrow> string \<Rightarrow> string" where
  "with_sign neg t = (if neg then CHR ''-'' # t else t)"

lemma sign_parts:
  assumes "t = utoa n @ u"
  shows "(with_sign neg t \<noteq> [] \<and> hd (with_sign neg t) = CHR ''-'') = neg"
    and "(if neg then tl (with_sign neg t) else with_sign neg t) = t"
  using digit_not_space [OF utoa_hd [of n]] assms by (auto simp: with_sign_def)

lemma lex_exponent_none: "ends_number rest \<Longrightarrow> lex_exponent rest = Some (None, rest)"
  by (auto simp: lex_exponent_def ends_number_def)

lemma lex_number_int:
  assumes "ends_number rest"
  shows "lex_number (with_sign neg (utoa n @ rest)) = Some (JInt (if neg then - int n else int n), rest)"
proof -
  have u: "rest = [] \<or> \<not> is_digit (hd rest)" "\<not> (rest \<noteq> [] \<and> hd rest = CHR ''.'')" using assms by (auto simp: ends_number_def)
  have drop: "drop (length (utoa n)) (utoa n @ rest) = rest" by simp
  show ?thesis unfolding lex_number_def Let_def
    by (simp only: sign_parts [OF refl] number_digits [OF u(1) refl] drop u(2) lex_exponent_none [OF assms] utoa_ne if_False if_True
        option.case prod.case digits_val_utoa simp_thms) simp
qed

lemma lex_number_frac:
  assumes "ends_number rest" and "fs \<noteq> []" and "list_all is_digit fs"
  shows "lex_number (with_sign neg (utoa n @ CHR ''.'' # fs @ rest))
    = Some (JNum ((if neg then - 1 else 1) * (of_nat n + fraction_val fs)), rest)"
proof -
  have r: "rest = [] \<or> \<not> is_digit (hd rest)" using assms by (auto simp: ends_number_def)
  let ?u = "CHR ''.'' # fs @ rest"
  have u: "?u = [] \<or> \<not> is_digit (hd ?u)" "(?u \<noteq> [] \<and> hd ?u = CHR ''.'') = True" by (simp_all add: minus_digit)
  have drop: "drop (length (utoa n)) (utoa n @ ?u) = ?u" by simp
  have f: "takeWhile is_digit (tl ?u) = fs" "dropWhile is_digit (tl ?u) = rest" using takeWhile_digits [OF assms(3) r] by simp_all
  show ?thesis unfolding lex_number_def Let_def
    by (simp only: sign_parts [OF refl] number_digits [OF u(1) refl] drop u(2) f assms(2) lex_exponent_none [OF assms(1)] utoa_ne if_False if_True
        option.case prod.case digits_val_utoa simp_thms) (simp add: power_ten_def)
qed

text \<open>The digits of a fraction, read back.\<close>

definition decimal :: "nat \<Rightarrow> rat \<Rightarrow> bool" where
  "decimal n x \<longleftrightarrow> of_int \<lfloor>10 ^ n * x\<rfloor> = 10 ^ n * x"

lemma digit_of_tenth:
  fixes x :: rat
  assumes "0 \<le> x" and "x < 1"
  shows "nat \<lfloor>10 * x\<rfloor> < 10" and "of_nat (nat \<lfloor>10 * x\<rfloor>) = (of_int \<lfloor>10 * x\<rfloor> :: rat)"
proof -
  have "0 \<le> \<lfloor>10 * x\<rfloor>" "\<lfloor>10 * x\<rfloor> < 10" using assms by (simp_all add: floor_less_iff)
  then have "nat \<lfloor>10 * x\<rfloor> < 10" "of_nat (nat \<lfloor>10 * x\<rfloor>) = (of_int \<lfloor>10 * x\<rfloor> :: rat)" by (simp_all only: nat_less_iff of_nat_nat)
  then show "nat \<lfloor>10 * x\<rfloor> < 10" "of_nat (nat \<lfloor>10 * x\<rfloor>) = (of_int \<lfloor>10 * x\<rfloor> :: rat)" by blast+
qed

lemma fraction_round:
  assumes "0 \<le> x" and "x < 1" and "decimal n x"
  shows "fraction_val (fraction_digits n x) = x \<and> list_all is_digit (fraction_digits n x)"
  using assms
proof (induction n arbitrary: x)
  case 0
  then have "x = of_int \<lfloor>x\<rfloor>" by (simp only: decimal_def power_0 mult_1)
  moreover have "\<lfloor>x\<rfloor> = 0" using 0 by (simp add: floor_eq_iff)
  ultimately show ?case by (simp add: fraction_val_def)
next
  case (Suc n)
  show ?case
  proof (cases "x = 0")
    case True
    then show ?thesis by (simp add: fraction_val_def)
  next
    case False
    let ?d = "\<lfloor>10 * x\<rfloor>" and ?r = "10 * x - of_int \<lfloor>10 * x\<rfloor>"
    have r: "0 \<le> ?r" "?r < 1" using of_int_floor_le [of "10 * x"] floor_correct [of "10 * x"] by linarith+
    have "10 ^ n * ?r = 10 ^ Suc n * x - of_int (10 ^ n * ?d)" by (simp add: algebra_simps)
    moreover have "10 ^ Suc n * x = of_int \<lfloor>10 ^ Suc n * x\<rfloor>" using Suc.prems(3) by (simp only: decimal_def)
    ultimately have "10 ^ n * ?r = of_int (\<lfloor>10 ^ Suc n * x\<rfloor> - 10 ^ n * ?d)" by (metis of_int_diff)
    then have dec: "decimal n ?r" unfolding decimal_def by (metis floor_of_int)
    note d = digit_of_tenth [OF Suc.prems(1,2)]
    from Suc.IH [OF r dec] show ?thesis using False d by (simp add: fraction_val_def)
  qed
qed


definition json_number :: "rat \<Rightarrow> json" where
  "json_number q = (if of_int \<lfloor>q\<rfloor> = q then JInt \<lfloor>q\<rfloor> else JNum q)"

lemma lex_float:
  assumes "ends_number rest" and "decimal 17 \<bar>q\<bar>"
  shows "lex_number (float_text q @ rest) = Some (json_number q, rest)"
proof -
  let ?a = "\<bar>q\<bar>" and ?f = "\<bar>q\<bar> - of_int \<lfloor>\<bar>q\<bar>\<rfloor>"
  let ?ds = "fraction_digits 17 ?f" and ?n = "nat \<lfloor>\<bar>q\<bar>\<rfloor>"
  have f: "0 \<le> ?f" "?f < 1" using of_int_floor_le [of ?a] floor_correct [of ?a] by linarith+
  have n: "of_nat ?n = (of_int \<lfloor>?a\<rfloor> :: rat)" by simp
  have "10 ^ 17 * ?f = of_int (\<lfloor>10 ^ 17 * ?a\<rfloor> - 10 ^ 17 * \<lfloor>?a\<rfloor>)"
    using assms(2) [unfolded decimal_def] by (simp only: of_int_diff right_diff_distrib of_int_mult of_int_power of_int_numeral)
  then have "decimal 17 ?f" unfolding decimal_def by (metis floor_of_int)
  from fraction_round [OF f this] have ds: "fraction_val ?ds = ?f" "list_all is_digit ?ds" by blast+
  have sgn: "(if q < 0 then - 1 else 1) * ?a = q" by simp
  show ?thesis
  proof (cases "?ds = []")
    case True
    then have f0: "?f = 0" using ds by (simp add: fraction_val_def)
    then have a: "?a = of_int (int ?n)" by simp
    have "float_text q @ rest = with_sign (q < 0) (utoa ?n @ rest)" using True by (simp add: float_text_def with_sign_def Let_def)
    moreover have "json_number q = JInt (if q < 0 then - int ?n else int ?n)"
    proof -
      have "q = of_int (if q < 0 then - int ?n else int ?n)" 
      proof (cases "q < 0")
        case True
        then have "- q = of_int (int ?n)" using a by linarith
        then have "q = - of_int (int ?n)" by linarith
        then show ?thesis using True by (simp only: if_True of_int_minus)
      next
        case False
        then have "q = of_int (int ?n)" using a by linarith
        then show ?thesis using False by (simp only: if_False)
      qed
      then show ?thesis unfolding json_number_def by (metis floor_of_int)
    qed
    ultimately show ?thesis using lex_number_int [OF assms(1)] by simp
  next
    case False
    have "?f \<noteq> 0" using False by (auto simp: numeral_eq_Suc)
    moreover have "of_int \<lfloor>q\<rfloor> = q \<Longrightarrow> ?f = 0" by (metis abs_of_nonneg abs_of_nonpos diff_self floor_of_int linear of_int_minus)
    ultimately have "json_number q = JNum q" by (auto simp: json_number_def)
    moreover have "float_text q @ rest = with_sign (q < 0) (utoa ?n @ CHR ''.'' # ?ds @ rest)"
      using False by (simp add: float_text_def with_sign_def Let_def)
    moreover have "of_nat ?n + fraction_val ?ds = ?a" using ds n by simp
    ultimately show ?thesis using lex_number_frac [OF assms(1) False ds(2)] sgn by simp
  qed
qed

text \<open>The head of a printed number.\<close>

lemma tokens_number:
  assumes "lex_number s = Some (v, rest)" and "s \<noteq> []" and "hd s = CHR ''-'' \<or> is_digit (hd s)"
  shows "tokens_of s = TVal v # tokens_of rest"
proof -
  obtain c cs where s: "s = c # cs" using assms(2) by (cases s) auto
  have "\<not> json_space c" "c \<notin> {CHR ''{'', CHR ''}'', CHR ''['', CHR '']'', CHR '':'', CHR '','', CHR 0x22}"
    using assms(3) by (auto simp: s json_space_def is_digit_def)
  then show ?thesis using assms by (simp add: s)
qed

lemma with_sign_head: "with_sign neg (utoa n @ t) \<noteq> [] \<and> (hd (with_sign neg (utoa n @ t)) = CHR ''-'' \<or> is_digit (hd (with_sign neg (utoa n @ t))))"
  using utoa_hd [of n] by (simp add: with_sign_def)

lemma tokens_int: "ends_number rest \<Longrightarrow> tokens_of (itoa i @ rest) = TVal (JInt i) # tokens_of rest"
proof -
  assume e: "ends_number rest"
  let ?n = "nat \<bar>i\<bar>"
  have i: "itoa i @ rest = with_sign (i < 0) (utoa ?n @ rest)" by (simp add: itoa_def with_sign_def)
  show ?thesis using tokens_number [OF lex_number_int [OF e]] with_sign_head unfolding i by fastforce
qed

lemma tokens_float: "ends_number rest \<Longrightarrow> decimal 17 \<bar>q\<bar> \<Longrightarrow> tokens_of (float_text q @ rest) = TVal (json_number q) # tokens_of rest"
proof -
  assume e: "ends_number rest" and d: "decimal 17 \<bar>q\<bar>"
  let ?u = "(let ds = fraction_digits 17 (\<bar>q\<bar> - of_int \<lfloor>\<bar>q\<bar>\<rfloor>) in if ds = [] then [] else CHR ''.'' # ds) @ rest"
  have f: "float_text q @ rest = with_sign (q < 0) (utoa (nat \<lfloor>\<bar>q\<bar>\<rfloor>) @ ?u)" by (simp add: float_text_def with_sign_def Let_def)
  show ?thesis using tokens_number [OF lex_float [OF e d]] with_sign_head unfolding f by blast
qed

section \<open>Values\<close>

text \<open>What a value is once it has been read: a number without a fraction is an integer.\<close>

fun as_read :: "json \<Rightarrow> json" where
  "as_read (JNum q) = json_number q"
| "as_read (JArr vs) = JArr (map as_read vs)"
| "as_read (JObj ms) = JObj (map (\<lambda>(k, v). (k, as_read v)) ms)"
| "as_read v = v"

fun json_ok :: "json \<Rightarrow> bool" where
  "json_ok (JStr s) = valid_utf8 s"
| "json_ok (JNum q) = decimal 17 \<bar>q\<bar>"
| "json_ok (JArr vs) = list_all json_ok vs"
| "json_ok (JObj ms) = list_all (\<lambda>(k, v). valid_utf8 k \<and> json_ok v) ms"
| "json_ok v = True"

text \<open>The tokens of a value.\<close>

fun commas :: "token list list \<Rightarrow> token list" where
  "commas [] = []"
| "commas [ts] = ts"
| "commas (ts # us # tss) = ts @ TComma # commas (us # tss)"

fun tokens :: "json \<Rightarrow> token list" where
  "tokens (JStr s) = [TStr s]"
| "tokens (JNum q) = [TVal (json_number q)]"
| "tokens (JArr vs) = TOpenArr # commas (map tokens vs) @ [TCloseArr]"
| "tokens (JObj ms) = TOpenObj # commas (map (\<lambda>(k, v). TStr k # TColon # tokens v) ms) @ [TCloseObj]"
| "tokens v = [TVal v]"

lemma ends_comma: "ends_number (CHR '','' # t)" "ends_number (CHR '']'' # t)" "ends_number (CHR ''}'' # t)"
  by (simp_all add: ends_number_def is_digit_def)

lemma tokens_punctuation:
  "tokens_of (CHR '','' # t) = TComma # tokens_of t" "tokens_of (CHR '':'' # t) = TColon # tokens_of t"
  "tokens_of (CHR ''['' # t) = TOpenArr # tokens_of t" "tokens_of (CHR '']'' # t) = TCloseArr # tokens_of t"
  "tokens_of (CHR ''{'' # t) = TOpenObj # tokens_of t" "tokens_of (CHR ''}'' # t) = TCloseObj # tokens_of t"
  by (simp_all add: json_space_def)

lemma tokens_words:
  "tokens_of (''true'' @ t) = TVal (JBool True) # tokens_of t" "tokens_of (''false'' @ t) = TVal (JBool False) # tokens_of t"
  "tokens_of (''null'' @ t) = TVal JNull # tokens_of t"
  by (simp_all add: json_space_def is_digit_def)

text \<open>A list of pieces, each of which is read as its tokens.\<close>

lemma tokens_join:
  assumes "\<And>x rest. x \<in> set xs \<Longrightarrow> ends_number rest \<Longrightarrow> tokens_of (f x @ rest) = g x @ tokens_of rest" and "ends_number rest"
  shows "tokens_of (join_with CHR '','' (map f xs) @ rest) = commas (map g xs) @ tokens_of rest"
  using assms
proof (induction xs)
  case Nil
  then show ?case by simp
next
  case (Cons x xs)
  show ?case
  proof (cases xs)
    case Nil
    then show ?thesis using Cons.prems by simp
  next
    case (Cons y ys)
    then show ?thesis using Cons.IH Cons.prems(1) [of x "CHR '','' # join_with CHR '','' (map f xs) @ rest"] Cons.prems
      by (simp add: ends_comma tokens_punctuation del: tokens_of.simps)
  qed
qed

lemma tokens_text:
  "json_ok v \<Longrightarrow> ends_number rest \<Longrightarrow> tokens_of (json_text v @ rest) = tokens v @ tokens_of rest"
proof (induction v arbitrary: rest)
  case (JStr s)
  then show ?case by (simp add: tokens_string del: tokens_of.simps)
next
  case (JInt i)
  then show ?case by (simp add: tokens_int del: tokens_of.simps)
next
  case (JNum q)
  then show ?case by (simp add: tokens_float del: tokens_of.simps)
next
  case JNull
  then show ?case using tokens_words by (simp del: tokens_of.simps)
next
  case (JBool b)
  then show ?case using tokens_words by (simp del: tokens_of.simps)
next
  case (JArr vs)
  have "tokens_of (join_with CHR '','' (map json_text vs) @ CHR '']'' # rest) = commas (map tokens vs) @ tokens_of (CHR '']'' # rest)"
    using JArr by (intro tokens_join) (auto simp: list_all_iff ends_comma)
  then show ?case by (simp add: tokens_punctuation del: tokens_of.simps)
next
  case (JObj ms)
  let ?f = "\<lambda>(k, v). json_string k @ '':'' @ json_text v" and ?g = "\<lambda>(k, v). TStr k # TColon # tokens v"
  have "tokens_of (?f x @ r) = ?g x @ tokens_of r" if x: "x \<in> set ms" and r: "ends_number r" for x r
  proof -
    obtain k v where kv: "x = (k, v)" by (cases x)
    have "valid_utf8 k" "json_ok v" using JObj.prems(1) x by (auto simp: kv list_all_iff)
    moreover have "tokens_of (json_text v @ r) = tokens v @ tokens_of r"
      using JObj.IH [of x v] x r calculation by (simp add: kv)
    ultimately show ?thesis by (simp add: kv tokens_string tokens_punctuation del: tokens_of.simps)
  qed
  then have "tokens_of (join_with CHR '','' (map ?f ms) @ CHR ''}'' # rest) = commas (map ?g ms) @ tokens_of (CHR ''}'' # rest)"
    by (intro tokens_join) (auto simp: ends_comma)
  then show ?case by (simp add: tokens_punctuation del: tokens_of.simps)
qed

section \<open>The machine\<close>

text \<open>Run on the tokens of a value where one is wanted, the machine completes the value.\<close>

definition awaits :: "pstate \<Rightarrow> frame list \<Rightarrow> bool" where
  "awaits st fs \<longleftrightarrow> (\<forall>t. t \<noteq> TCloseArr \<longrightarrow> parse_step st t = begin_value fs t)"

lemma awaits_want: "awaits (Want fs) fs" "awaits (WantElem fs) (InArr [] # fs)"
  by (simp_all add: awaits_def)

fun run :: "pstate \<Rightarrow> token list \<Rightarrow> pstate option" where
  "run st [] = Some st"
| "run st (t # ts) = (case parse_step st t of None \<Rightarrow> None | Some st' \<Rightarrow> run st' ts)"

lemma run_append: "run st (ts @ us) = (case run st ts of None \<Rightarrow> None | Some st' \<Rightarrow> run st' us)"
  by (induction ts arbitrary: st) (auto split: option.splits)

lemma run_all: "parse_all st ts = (case run st ts of Some (Done v) \<Rightarrow> Some v | _ \<Rightarrow> None)"
  by (induction ts arbitrary: st) (auto split: option.splits pstate.splits)

lemma run_elements:
  assumes "\<And>v st fs. v \<in> set vs \<Longrightarrow> awaits st fs \<Longrightarrow> run st (tokens v) = Some (complete_value (as_read v) fs)"
    and "vs \<noteq> []" and "awaits st (InArr ws # fs)"
  shows "run st (commas (map tokens vs)) = Some (InArray (ws @ map as_read vs) fs)"
  using assms
proof (induction vs arbitrary: st ws)
  case (Cons v vs)
  note v = Cons.prems(1) [OF list.set_intros(1) Cons.prems(3)]
  show ?case
  proof (cases vs)
    case Nil
    then show ?thesis using v by simp
  next
    case (Cons w vs')
    have "run (Want (InArr (ws @ [as_read v]) # fs)) (commas (map tokens vs)) = Some (InArray ((ws @ [as_read v]) @ map as_read vs) fs)"
      using Cons Cons.prems(1) by (intro Cons.IH) (auto simp: awaits_want)
    then show ?thesis using Cons v by (simp add: run_append)
  qed
qed simp

lemma run_members:
  assumes "\<And>x fs. x \<in> set ms \<Longrightarrow> run (Want fs) (tokens (snd x)) = Some (complete_value (as_read (snd x)) fs)"
    and "ms \<noteq> []" and "st = WantKey ws fs \<or> (st = WantFirstKey fs \<and> ws = [])"
  shows "run st (commas (map (\<lambda>(k, v). TStr k # TColon # tokens v) ms)) = Some (InObject (ws @ map (\<lambda>(k, v). (k, as_read v)) ms) fs)"
  using assms
proof (induction ms arbitrary: st ws)
  case (Cons x ms)
  obtain k v where kv: "x = (k, v)" by (cases x)
  have v: "run st (TStr k # TColon # tokens v) = Some (InObject (ws @ [(k, as_read v)]) fs)"
    using Cons.prems(1) [of x] Cons.prems(3) by (auto simp: kv)
  show ?case
  proof (cases ms)
    case Nil
    then show ?thesis using v by (simp add: kv)
  next
    case (Cons y ms')
    have "run (WantKey (ws @ [(k, as_read v)]) fs) (commas (map (\<lambda>(k, v). TStr k # TColon # tokens v) ms))
        = Some (InObject ((ws @ [(k, as_read v)]) @ map (\<lambda>(k, v). (k, as_read v)) ms) fs)"
      using Cons Cons.prems(1) by (intro Cons.IH) auto
    moreover have "commas (map (\<lambda>(k, v). TStr k # TColon # tokens v) (x # ms))
        = (TStr k # TColon # tokens v) @ TComma # commas (map (\<lambda>(k, v). TStr k # TColon # tokens v) ms)"
      using Cons by (simp add: kv)
    ultimately show ?thesis using v by (simp only: run_append) (simp add: kv)
  qed
qed simp

lemma run_tokens: "awaits st fs \<Longrightarrow> run st (tokens v) = Some (complete_value (as_read v) fs)"
proof (induction v arbitrary: st fs)
  case (JArr vs)
  then have open_arr: "parse_step st TOpenArr = Some (WantElem fs)" by (simp add: awaits_def)
  show ?case
  proof (cases "vs = []")
    case True
    then show ?thesis using open_arr by simp
  next
    case False
    with run_elements [OF JArr.IH False awaits_want(2)] show ?thesis using open_arr by (simp add: run_append)
  qed
next
  case (JObj ms)
  then have open_obj: "parse_step st TOpenObj = Some (WantFirstKey fs)" by (simp add: awaits_def)
  have each: "run (Want gs) (tokens (snd x)) = Some (complete_value (as_read (snd x)) gs)" if "x \<in> set ms" for x gs
    using JObj.IH [OF that, of "snd x"] awaits_want(1) by (cases x) auto
  show ?case
  proof (cases "ms = []")
    case True
    then show ?thesis using open_obj by simp
  next
    case False
    with run_members [OF each False, of "WantFirstKey fs" "[]"] show ?thesis using open_obj by (simp add: run_append)
  qed
qed (auto simp: awaits_def)

lemma unmarshal_json_text:
  assumes "json_ok v"
  shows "unmarshal (json_text v) = Some (as_read v)"
proof -
  have "tokens_of (json_text v @ []) = tokens v @ tokens_of []" by (rule tokens_text [OF assms]) (simp add: ends_number_def)
  then show ?thesis using run_tokens [OF awaits_want(1), of "[]" v] by (simp add: unmarshal_def run_all)
qed

end
