(* ===== verification/JsonValid.thy ===== *)
theory JsonValid
  imports GoJson
begin

text \<open>
  Strings that come out of the JSON reader are UTF-8, whatever bytes it was given: escapes stand for
  code points, and bytes that form none are replaced.
\<close>

section \<open>UTF-8\<close>

lemma valid_utf8_Nil [simp]: "valid_utf8 []"
  by (simp add: valid_utf8.simps)

lemma valid_utf8_cons_rune:
  assumes "rune_len r = length r" and "r \<noteq> []"
  shows "valid_utf8 (r @ t) = valid_utf8 t"
proof -
  have "rune_len (r @ t) = length r" using rune_len_prefix [of r "length r" t] assms by simp
  then show ?thesis using assms(2) by (subst valid_utf8.simps) simp
qed

lemma valid_utf8_append: "valid_utf8 s \<Longrightarrow> valid_utf8 (s @ t) = valid_utf8 t"
proof (induction s rule: valid_utf8.induct)
  case (1 s)
  show ?case
  proof (cases "s = []")
    case False
    let ?n = "rune_len s"
    have n: "?n \<noteq> 0" "valid_utf8 (drop ?n s)" using 1(2) False by (simp_all add: valid_utf8.simps [of s] split: if_splits)
    have r: "rune_len (take ?n s) = length (take ?n s)" "take ?n s \<noteq> []"
      using rune_len_prefix [OF refl n(1), of "[]"] rune_len_le [of s] n(1) False by auto
    have "valid_utf8 (take ?n s @ (drop ?n s @ t)) = valid_utf8 (drop ?n s @ t)" by (rule valid_utf8_cons_rune [OF r])
    then have "valid_utf8 (s @ t) = valid_utf8 (drop ?n s @ t)" by (metis append.assoc append_take_drop_id)
    then show ?thesis using 1(1) [OF False n(1) n(2)] by simp
  qed simp
qed

lemma valid_utf8_ascii: "byte c < 128 \<Longrightarrow> valid_utf8 (c # t) = valid_utf8 t"
  using valid_utf8_cons_rune [of "[c]" t] by (simp add: rune_len_def lead_def)

lemma valid_utf8_take: "rune_len s = n \<Longrightarrow> n \<noteq> 0 \<Longrightarrow> valid_utf8 (take n s @ t) = valid_utf8 t"
  using rune_len_prefix [of s n "[]"] rune_len_le [of s] by (intro valid_utf8_cons_rune) (auto simp: rune_len_def)

lemma valid_replacement: "valid_utf8 (replacement @ t) = valid_utf8 t"
  by (intro valid_utf8_cons_rune) (simp_all add: replacement_def rune_len_def lead_def byte_in_def)

text \<open>A code point of several bytes: its head and the bytes after it.\<close>

lemma byte_char_of: "(n :: nat) < 256 \<Longrightarrow> byte (char_of n) = n"
  by simp

lemma rune_three:
  fixes a b w :: nat
  assumes "a < 16" "b < 64" "w < 64" "a = 0 \<longrightarrow> 32 \<le> b" "a = 13 \<longrightarrow> b < 32"
  shows "rune_len [char_of (224 + a), char_of (128 + b), char_of (128 + w)] = 3"
proof -
  have "lead (224 + a) = (3, if a = 0 then 160 else 128, if a = 13 then 159 else 191)" using assms(1) by (auto simp: lead_def)
  moreover have "byte (char_of (224 + a)) = 224 + a" "byte (char_of (128 + b)) = 128 + b" "byte (char_of (128 + w)) = 128 + w"
    using assms by (simp_all only: byte_char_of)
  ultimately show ?thesis using assms by (simp add: rune_len_def byte_in_def del: of_char_of, auto)
qed

lemma rune_four:
  fixes a b w x :: nat
  assumes "a < 5" "b < 64" "w < 64" "x < 64" "a = 0 \<longrightarrow> 16 \<le> b" "a = 4 \<longrightarrow> b < 16"
  shows "rune_len [char_of (240 + a), char_of (128 + b), char_of (128 + w), char_of (128 + x)] = 4"
proof -
  have "lead (240 + a) = (4, if a = 0 then 144 else 128, if a = 4 then 143 else 191)" using assms(1) by (auto simp: lead_def)
  moreover have "byte (char_of (240 + a)) = 240 + a" "byte (char_of (128 + b)) = 128 + b" "byte (char_of (128 + w)) = 128 + w"
      "byte (char_of (128 + x)) = 128 + x"
    using assms by (simp_all only: byte_char_of)
  ultimately show ?thesis using assms by (simp add: rune_len_def byte_in_def del: of_char_of, auto)
qed

lemma valid_encode: "valid_utf8 (utf8_encode v @ t) = valid_utf8 t"
proof -
  consider (one) "v < 0x80" | (two) "0x80 \<le> v" "v < 0x800" | (bad) "0x800 \<le> v" "(0xD800 \<le> v \<and> v < 0xE000) \<or> 0x10FFFF < v"
    | (three) "0x800 \<le> v" "\<not> (0xD800 \<le> v \<and> v < 0xE000)" "v < 0x10000"
    | (four) "0x10000 \<le> v" "v \<le> 0x10FFFF" by linarith
  then show ?thesis
  proof cases
    case one
    then show ?thesis by (simp add: utf8_encode_def valid_utf8_ascii byte_char_of)
  next
    case two
    have "2 \<le> v div 64" "v div 64 < 32" using two by (simp_all add: div_le_mono [of 128 v 64, simplified] less_mult_imp_div_less)
    then have "lead (192 + v div 64) = (2, 128, 191)" by (simp add: lead_def)
    then show ?thesis using two \<open>v div 64 < 32\<close>
      by (simp add: utf8_encode_def, intro valid_utf8_cons_rune [of "[_, _]", simplified])
        (simp_all add: rune_len_def byte_in_def byte_char_of del: of_char_of)
  next
    case bad
    then show ?thesis by (auto simp: utf8_encode_def valid_replacement)
  next
    case three
    let ?a = "v div 4096" and ?b = "v div 64 mod 64"
    have a: "?a < 16" using three by (simp add: less_mult_imp_div_less)
    have b: "v div 64 = 64 * ?a + ?b" by (simp add: div_mult2_eq [of v 64 64, simplified])
    have c: "?a = 0 \<longrightarrow> 32 \<le> ?b" using b three(1) div_le_mono [of "0x800" v 64] by simp
    have d: "?a = 13 \<longrightarrow> ?b < 32"
    proof
      assume "?a = 13"
      moreover have "v < 0xD800"
      proof (rule ccontr)
        assume "\<not> v < 0xD800"
        then have "0xE000 \<le> v" using three(2) by simp
        then have "14 \<le> ?a" using div_le_mono [of "0xE000" v 4096] by simp
        then show False using \<open>?a = 13\<close> by simp
      qed
      then have "v div 64 < 864" by (simp add: less_mult_imp_div_less)
      ultimately show "?b < 32" using b by simp
    qed
    have e: "utf8_encode v = [char_of (224 + ?a), char_of (128 + ?b), char_of (128 + v mod 64)]"
      using three by (auto simp: utf8_encode_def)
    have "rune_len [char_of (224 + ?a), char_of (128 + ?b), char_of (128 + v mod 64)] = 3"
      using a c d by (intro rune_three) simp_all
    then show ?thesis unfolding e by (intro valid_utf8_cons_rune) simp_all
  next
    case four
    let ?a = "v div 262144" and ?b = "v div 4096 mod 64"
    have a: "?a < 5" using four by (simp add: less_mult_imp_div_less)
    have b: "v div 4096 = 64 * ?a + ?b" by (simp add: div_mult2_eq [of v 4096 64, simplified])
    have c: "?a = 0 \<longrightarrow> 16 \<le> ?b" using b four(1) div_le_mono [of "0x10000" v 4096] by simp
    have d: "?a = 4 \<longrightarrow> ?b < 16"
    proof -
      have "v div 4096 < 272" using four(2) by (simp add: less_mult_imp_div_less)
      then show ?thesis using b by simp
    qed
    have e: "utf8_encode v = [char_of (240 + ?a), char_of (128 + ?b), char_of (128 + v div 64 mod 64), char_of (128 + v mod 64)]"
      using four by (simp add: utf8_encode_def)
    have "rune_len [char_of (240 + ?a), char_of (128 + ?b), char_of (128 + v div 64 mod 64), char_of (128 + v mod 64)] = 4"
      using a c d by (intro rune_four) simp_all
    then show ?thesis unfolding e by (intro valid_utf8_cons_rune) simp_all
  qed
qed


lemma escaped_ascii: "byte d < 128 \<Longrightarrow> byte (escaped_char d) < 128"
  by (simp add: escaped_char_def)

text \<open>\<open>t\<close> is read to UTF-8.\<close>

lemma valid_unescape: "valid_utf8 (unescape s)"
proof (induction s rule: unescape.induct)
  case 1
  then show ?case by simp
next
  case (2 c cs)
  show ?case
  proof (cases "c = CHR 0x5C \<and> cs \<noteq> [] \<and> byte (hd cs) < 128")
    case esc: True
    show ?thesis
    proof (cases "hd cs = CHR ''u''")
      case True
      then show ?thesis using 2(1-4) [OF esc True] esc
        by (auto simp: valid_replacement valid_encode split: option.split)
    next
      case False
      then show ?thesis using 2(5) [OF esc False] esc escaped_ascii by (simp add: valid_utf8_ascii)
    qed
  next
    case plain: False
    have u: "unescape (c # cs) = (if byte c < 128 then c # unescape cs else let n = rune_len (c # cs)
        in if n = 0 then replacement @ unescape cs else take n (c # cs) @ unescape (drop n (c # cs)))"
      by (simp only: unescape.simps plain if_False)
    show ?thesis
    proof (cases "byte c < 128")
      case True
      then show ?thesis using 2(6) [OF plain True] by (simp only: u if_True valid_utf8_ascii)
    next
      case False
      show ?thesis
      proof (cases "rune_len (c # cs) = 0")
        case True
        then show ?thesis using 2(7) [OF plain False refl True] False by (simp only: u if_True refl [of "0 :: nat", THEN eqTrueI] if_False Let_def valid_replacement)
      next
        case n: False
        then show ?thesis using 2(8) [OF plain False refl n] False by (simp only: u if_False Let_def valid_utf8_take [OF refl n])
      qed
    qed
  qed
qed

section \<open>The reader\<close>

fun valid_json :: "json \<Rightarrow> bool" where
  "valid_json (JStr s) = valid_utf8 s"
| "valid_json (JArr vs) = list_all valid_json vs"
| "valid_json (JObj ms) = list_all (\<lambda>(k, v). valid_utf8 k \<and> valid_json v) ms"
| "valid_json v = True"

fun valid_token :: "token \<Rightarrow> bool" where
  "valid_token (TStr s) = valid_utf8 s"
| "valid_token (TVal v) = valid_json v"
| "valid_token t = True"

lemma lex_number_valid: "lex_number s = Some (v, rest) \<Longrightarrow> valid_json v"
  by (auto simp: lex_number_def Let_def split: if_splits option.splits)

lemma tokens_valid: "list_all valid_token (tokens_of s)"
proof (induction "length s" arbitrary: s rule: less_induct)
  case less
  show ?case
  proof (cases s)
    case (Cons c cs)
    have ih: "list_all valid_token (tokens_of t)" if "length t \<le> length cs" for t using that less by (simp add: Cons)
    have str: "list_all valid_token (tokens_of rest)" if "lex_string cs = Some (raw, rest)" for raw rest
      by (rule ih) (use lex_string_shorter [OF that] in simp)
    have num: "list_all valid_token (tokens_of rest)" "valid_json v" if "lex_number (c # cs) = Some (v, rest)" for v rest
      using lex_number_shorter [OF that] lex_number_valid [OF that] by (auto intro: ih)
    show ?thesis unfolding Cons
      by (simp add: ih str num valid_unescape split: option.split prod.split)
  qed simp
qed

abbreviation valid_members :: "(string \<times> json) list \<Rightarrow> bool" where
  "valid_members ms \<equiv> list_all (\<lambda>(k, v). valid_utf8 k \<and> valid_json v) ms"

fun valid_frame :: "frame \<Rightarrow> bool" where
  "valid_frame (InArr vs) = list_all valid_json vs"
| "valid_frame (InObj ms k) = (valid_members ms \<and> valid_utf8 k)"

fun valid_state :: "pstate \<Rightarrow> bool" where
  "valid_state (Want fs) = list_all valid_frame fs"
| "valid_state (WantElem fs) = list_all valid_frame fs"
| "valid_state (InArray vs fs) = (list_all valid_json vs \<and> list_all valid_frame fs)"
| "valid_state (WantFirstKey fs) = list_all valid_frame fs"
| "valid_state (WantKey ms fs) = (valid_members ms \<and> list_all valid_frame fs)"
| "valid_state (WantColon ms k fs) = (valid_members ms \<and> valid_utf8 k \<and> list_all valid_frame fs)"
| "valid_state (InObject ms fs) = (valid_members ms \<and> list_all valid_frame fs)"
| "valid_state (Done v) = valid_json v"

lemma valid_complete: "valid_json v \<Longrightarrow> list_all valid_frame fs \<Longrightarrow> valid_state (complete_value v fs)"
  by (cases "(v, fs)" rule: complete_value.cases) auto

lemma valid_begin: "valid_token t \<Longrightarrow> list_all valid_frame fs \<Longrightarrow> begin_value fs t = Some st \<Longrightarrow> valid_state st"
  by (cases t) (auto simp: valid_complete)

lemma valid_step: "valid_token t \<Longrightarrow> valid_state st \<Longrightarrow> parse_step st t = Some st' \<Longrightarrow> valid_state st'"
proof (cases st)
  case (WantElem fs)
  then show "valid_token t \<Longrightarrow> valid_state st \<Longrightarrow> parse_step st t = Some st' \<Longrightarrow> valid_state st'"
    using valid_begin [of t "InArr [] # fs" st'] by (auto simp: valid_complete split: if_splits)
qed (auto simp: valid_complete split: if_splits token.splits dest: valid_begin)

lemma valid_all: "list_all valid_token ts \<Longrightarrow> valid_state st \<Longrightarrow> parse_all st ts = Some v \<Longrightarrow> valid_json v"
  by (induction ts arbitrary: st) (auto split: option.splits pstate.splits dest: valid_step)

lemma valid_first: "list_all valid_token ts \<Longrightarrow> valid_state st \<Longrightarrow> parse_first st ts = Some v \<Longrightarrow> valid_json v"
proof (induction ts arbitrary: st)
  case Nil
  then show ?case by (cases st) auto
next
  case (Cons t ts)
  show ?case
  proof (cases "\<exists>u. st = Done u")
    case False
    then have "parse_first st (t # ts) = (case parse_step st t of None \<Rightarrow> None | Some st' \<Rightarrow> parse_first st' ts)" by (cases st) auto
    then obtain st' where "parse_step st t = Some st'" "parse_first st' ts = Some v" using Cons.prems(3) by (auto split: option.splits)
    then show ?thesis using Cons valid_step [of t st st'] by simp
  qed (use Cons.prems in auto)
qed

lemma unmarshal_valid: "unmarshal s = Some v \<Longrightarrow> valid_json v"
  unfolding unmarshal_def by (rule valid_all [OF tokens_valid]) auto

lemma decode_first_valid: "decode_first s = Some v \<Longrightarrow> valid_json v"
  unfolding decode_first_def by (rule valid_first [OF tokens_valid]) auto

end
