(* ===== verification/GoStruct.thy ===== *)
theory GoStruct
  imports JsonRoundtrip JsonValid
begin

text \<open>
  How \<open>encoding/json\<close> fills a structure: each member of an object goes to the field whose name it
  bears, or, failing that, to one whose name it bears up to case; other members are skipped, \<open>null\<close>
  leaves a field as it is, and a value of another type is an error.  A type is its list of fields, each
  with the function that stores a value in it.
\<close>

section \<open>Names\<close>

text \<open>
  Folding of case as the package does it, on names in ASCII: besides the letters, U+017F folds to \<open>S\<close>
  and U+212A to \<open>K\<close>.
\<close>

fun fold_name :: "string \<Rightarrow> string" where
  "fold_name [] = []"
| "fold_name (c # cs) =
     (if c = CHR 0xC5 \<and> take 1 cs = [CHR 0xBF] then CHR ''S'' # fold_name (drop 1 cs)
      else if c = CHR 0xE2 \<and> take 2 cs = [CHR 0x84, CHR 0xAA] then CHR ''K'' # fold_name (drop 2 cs)
      else to_upper c # fold_name cs)"

type_synonym 'r field = "string \<times> (json \<Rightarrow> 'r \<Rightarrow> 'r option)"

definition find_field :: "'r field list \<Rightarrow> string \<Rightarrow> (json \<Rightarrow> 'r \<Rightarrow> 'r option) option" where
  "find_field tys k =
     (case map_of tys k of
        Some f \<Rightarrow> Some f
      | None \<Rightarrow> map_option snd (find (\<lambda>p. fold_name (fst p) = fold_name k) tys))"

section \<open>Structures\<close>

fun store_members :: "'r field list \<Rightarrow> (string \<times> json) list \<Rightarrow> 'r \<Rightarrow> 'r option" where
  "store_members tys [] r = Some r"
| "store_members tys ((k, v) # ms) r =
     (case find_field tys k of
        None \<Rightarrow> store_members tys ms r
      | Some f \<Rightarrow> (case f v r of None \<Rightarrow> None | Some r' \<Rightarrow> store_members tys ms r'))"

definition store_struct :: "'r field list \<Rightarrow> json \<Rightarrow> 'r \<Rightarrow> 'r option" where
  "store_struct tys v r =
     (case v of JNull \<Rightarrow> Some r | JObj ms \<Rightarrow> store_members tys ms r | _ \<Rightarrow> None)"

section \<open>Fields\<close>

definition store_string :: "json \<Rightarrow> string \<Rightarrow> string option" where
  "store_string v old = (case v of JNull \<Rightarrow> Some old | JStr s \<Rightarrow> Some s | _ \<Rightarrow> None)"

definition store_int64 :: "json \<Rightarrow> int64 \<Rightarrow> int64 option" where
  "store_int64 v old =
     (case v of JNull \<Rightarrow> Some old
      | JInt i \<Rightarrow> (if - (2 ^ 63) \<le> i \<and> i < 2 ^ 63 then Some (of_int i) else None) | _ \<Rightarrow> None)"

text \<open>A number that rounds to infinity is out of range.\<close>

definition float_range :: "rat \<Rightarrow> bool" where
  "float_range q \<longleftrightarrow> \<bar>q\<bar> < 2 ^ 1024 - 2 ^ 970"

definition store_float64 :: "json \<Rightarrow> rat \<Rightarrow> rat option" where
  "store_float64 v old =
     (case v of JNull \<Rightarrow> Some old
      | JInt i \<Rightarrow> (if float_range (of_int i) then Some (of_int i) else None)
      | JNum q \<Rightarrow> (if float_range q then Some q else None) | _ \<Rightarrow> None)"

definition store_bool :: "json \<Rightarrow> bool \<Rightarrow> bool option" where
  "store_bool v old = (case v of JNull \<Rightarrow> Some old | JBool b \<Rightarrow> Some b | _ \<Rightarrow> None)"

text \<open>The elements of an array go into the slice that is there, and into new ones.\<close>

fun store_elements :: "(json \<Rightarrow> 'a \<Rightarrow> 'a option) \<Rightarrow> 'a \<Rightarrow> json list \<Rightarrow> 'a list \<Rightarrow> 'a list option" where
  "store_elements f zero [] olds = Some []"
| "store_elements f zero (v # vs) olds =
     (case f v (case olds of [] \<Rightarrow> zero | x # _ \<Rightarrow> x) of
        None \<Rightarrow> None
      | Some x \<Rightarrow> map_option (\<lambda>xs. x # xs) (store_elements f zero vs (drop 1 olds)))"

definition store_slice :: "(json \<Rightarrow> 'a \<Rightarrow> 'a option) \<Rightarrow> 'a \<Rightarrow> json \<Rightarrow> 'a list \<Rightarrow> 'a list option" where
  "store_slice f zero v olds =
     (case v of JNull \<Rightarrow> Some [] | JArr vs \<Rightarrow> store_elements f zero vs olds | _ \<Rightarrow> None)"

text \<open>A field of a record: where its value is and how it is changed.\<close>

definition field :: "string \<Rightarrow> (json \<Rightarrow> 'a \<Rightarrow> 'a option) \<Rightarrow> ('r \<Rightarrow> 'a) \<Rightarrow> (('a \<Rightarrow> 'a) \<Rightarrow> 'r \<Rightarrow> 'r) \<Rightarrow> 'r field" where
  "field name store get upd = (name, \<lambda>v r. map_option (\<lambda>x. upd (\<lambda>_. x) r) (store v (get r)))"

text \<open>\<open>Unmarshal\<close> and \<open>Decode\<close> into a zero value.\<close>

definition unmarshal_struct :: "'r field list \<Rightarrow> 'r \<Rightarrow> string \<Rightarrow> 'r option" where
  "unmarshal_struct tys zero s = (case unmarshal s of None \<Rightarrow> None | Some v \<Rightarrow> store_struct tys v zero)"

definition decode_struct :: "'r field list \<Rightarrow> 'r \<Rightarrow> string \<Rightarrow> 'r option" where
  "decode_struct tys zero s = (case decode_first s of None \<Rightarrow> None | Some v \<Rightarrow> store_struct tys v zero)"

section \<open>Lemmas\<close>

lemma parse_first_run: "run st ts = Some (Done v) \<Longrightarrow> parse_first st (ts @ us) = Some v"
proof (induction ts arbitrary: st)
  case Nil
  then show ?case by simp
next
  case (Cons t ts)
  then obtain st' where st': "parse_step st t = Some st'" "run st' ts = Some (Done v)" by (auto split: option.splits)
  then have "parse_first st ((t # ts) @ us) = parse_first st' (ts @ us)" by (cases st) auto
  then show ?case using Cons.IH [OF st'(2)] by simp
qed

text \<open>A decoder reads the value it is given, whatever follows it.\<close>

lemma decode_first_json_text:
  assumes "json_ok v" and "ends_number rest"
  shows "decode_first (json_text v @ rest) = Some (as_read v)"
  using parse_first_run [of "Want []" "tokens v" "as_read v"] run_tokens [OF awaits_want(1), of "[]" v] tokens_text [OF assms]
  by (simp add: decode_first_def)

lemma decode_first_text: "json_ok v \<Longrightarrow> decode_first (json_text v) = Some (as_read v)"
  using decode_first_json_text [of v "[]"] by (simp add: ends_number_def)

lemma ends_newline: "ends_number [CHR 0x0A]"
  by (simp add: ends_number_def is_digit_def)

lemma store_elements_strings: "store_elements store_string zero (map JStr xs) olds = Some xs"
  by (induction xs arbitrary: olds) (simp_all add: store_string_def)

lemma store_number:
  "float_range q \<Longrightarrow> store_float64 (json_number q) old = Some q"
  by (auto simp: json_number_def store_float64_def)

lemma find_field_exact: "map_of tys k = Some f \<Longrightarrow> find_field tys k = Some f"
  by (simp add: find_field_def)

lemma find_field_in:
  assumes "find_field tys k = Some f"
  shows "\<exists>p \<in> set tys. snd p = f"
proof (cases "map_of tys k")
  case None
  then obtain p where p: "find (\<lambda>p. fold_name (fst p) = fold_name k) tys = Some p" "snd p = f"
    using assms by (auto simp: find_field_def)
  then have "p \<in> set tys" by (auto simp: find_Some_iff)
  then show ?thesis using p(2) by blast
next
  case (Some g)
  then show ?thesis using assms by (force simp: find_field_def dest: map_of_SomeD)
qed

text \<open>What holds of the zero value and is kept by every field holds of what is read.\<close>

lemma store_members_inv:
  assumes "store_members tys ms r = Some r'" and "P r"
    and "\<forall>p \<in> set tys. \<forall>m \<in> set ms. \<forall>r r'. snd p (snd m) r = Some r' \<longrightarrow> P r \<longrightarrow> P r'"
  shows "P r'"
  using assms
proof (induction ms arbitrary: r)
  case (Cons m ms)
  obtain k v where m: "m = (k, v)" by (cases m)
  have keep: "\<forall>p \<in> set tys. \<forall>m \<in> set ms. \<forall>r r'. snd p (snd m) r = Some r' \<longrightarrow> P r \<longrightarrow> P r'" using Cons.prems(3) by simp
  show ?case
  proof (cases "find_field tys k")
    case None
    then have "store_members tys ms r = Some r'" using Cons.prems(1) by (simp add: m)
    then show ?thesis using Cons.prems(2) keep by (rule Cons.IH)
  next
    case (Some f)
    then obtain r1 where r1: "f v r = Some r1" "store_members tys ms r1 = Some r'"
      using Cons.prems(1) by (auto simp: m split: option.splits)
    obtain p where "p \<in> set tys" "snd p = f" using find_field_in [OF Some] by blast
    then have "P r1" using Cons.prems(2,3) r1(1) by (simp add: m)
    from r1(2) this keep show ?thesis by (rule Cons.IH)
  qed
qed simp

end
