(* ===== verification/Codecs.thy ===== *)
theory Codecs
  imports Loraplex Loadgen GoStruct
begin

text \<open>
  The JSON texts the program exchanges, with the tags of its structures: the \<open>model\<close> of a request
  (\<open>internal/proxy/body.go\<close>), the bodies of eviction and warm-up (\<open>internal/admin/handler.go\<close>), the answer
  on \<open>/healthz\<close> (\<open>internal/health/checker.go\<close>), the endpoints of Kubernetes
  (\<open>internal/discovery/k8s.go\<close>) and the requests of the load generator (\<open>cmd/loadgen/main.go\<close>).
  They are instances of the parameters of the components, and give their theorems for the program as
  it is.
\<close>

section \<open>The model of a request\<close>

text \<open>The body is read as a map of raw members, of which the last one of a name counts.\<close>

definition body_model :: "string \<Rightarrow> string option" where
  "body_model body =
     (case unmarshal body of
        Some (JObj parsed) \<Rightarrow>
          (case map_of (rev parsed) ''model'' of
             Some raw \<Rightarrow> store_string raw []
           | None \<Rightarrow> None)
      | _ \<Rightarrow> None)"

section \<open>Administration\<close>

definition evictRequest :: "string field list" where
  "evictRequest = [(''adapter'', store_string)]"

definition warmupRequest :: "string list field list" where
  "warmupRequest = [(''adapters'', store_slice store_string [])]"

definition go_codec :: json_codec where
  "go_codec =
     \<lparr>jEncode = json_text, jEvict = decode_struct evictRequest [], jWarmup = decode_struct warmupRequest []\<rparr>"

section \<open>Health\<close>

definition HealthResponse_json :: "HealthResponse \<Rightarrow> json" where
  "HealthResponse_json h =
     JObj [(''status'', JStr (hStatus h)), (''load'', JNum (hLoad h)), (''pending'', JInt (sint (hPending h))),
       (''vllm_healthy'', JBool (hVLLM h))]"

definition HealthResponse_fields :: "HealthResponse field list" where
  "HealthResponse_fields =
     [field ''status'' store_string hStatus hStatus_update, field ''load'' store_float64 hLoad hLoad_update,
      field ''pending'' store_int64 hPending hPending_update, field ''vllm_healthy'' store_bool hVLLM hVLLM_update]"

definition no_health :: HealthResponse where
  "no_health = \<lparr>hStatus = [], hLoad = 0, hPending = 0, hVLLM = False\<rparr>"

definition health_encode :: "HealthResponse \<Rightarrow> string" where
  "health_encode h = json_text (HealthResponse_json h)"

definition health_decode :: "string \<Rightarrow> HealthResponse option" where
  "health_decode = decode_struct HealthResponse_fields no_health"

section \<open>Kubernetes\<close>

definition k8sAddress_fields :: "string field list" where
  "k8sAddress_fields = [(''ip'', store_string)]"

definition k8sPort_fields :: "k8sPort field list" where
  "k8sPort_fields = [field ''name'' store_string portName portName_update, field ''port'' store_int64 portNumber portNumber_update]"

definition k8sSubset_fields :: "k8sSubset field list" where
  "k8sSubset_fields =
     [field ''addresses'' (store_slice (store_struct k8sAddress_fields) []) subsetAddresses subsetAddresses_update,
      field ''ports'' (store_slice (store_struct k8sPort_fields) \<lparr>portName = [], portNumber = 0\<rparr>) subsetPorts subsetPorts_update]"

definition k8sEndpoints_fields :: "k8sSubset list field list" where
  "k8sEndpoints_fields =
     [(''subsets'', store_slice (store_struct k8sSubset_fields) \<lparr>subsetAddresses = [], subsetPorts = []\<rparr>)]"

definition endpoints_decode :: "string \<Rightarrow> k8sSubset list option" where
  "endpoints_decode = decode_struct k8sEndpoints_fields []"

section \<open>The load generator\<close>

definition loadgen_body :: "string \<Rightarrow> int64 \<Rightarrow> string" where
  "loadgen_body model maxTokens =
     json_text (json_map
       [(''model'', JStr model), (''messages'', JArr [json_map [(''role'', JStr ''user''), (''content'', JStr ''Hello'')]]),
        (''max_tokens'', JInt (sint maxTokens)), (''temperature'', JInt 0)])"

section \<open>All of them\<close>

definition go_decoders :: decoders where
  "go_decoders = \<lparr>dBody = body_model, dAdmin = go_codec, dHealthz = health_decode, dEndpoints = endpoints_decode\<rparr>"

section \<open>Eviction\<close>

lemma decoded_adapter_valid:
  assumes "jEvict go_codec b = Some adapter"
  shows "valid_utf8 adapter"
proof -
  obtain v where v: "decode_first b = Some v" "store_struct evictRequest v [] = Some adapter"
    using assms by (auto simp: go_codec_def decode_struct_def split: option.splits)
  note valid = decode_first_valid [OF v(1)]
  show ?thesis
  proof (cases v)
    case (JObj ms)
    have "store_members evictRequest ms [] = Some adapter" using v(2) JObj by (simp add: store_struct_def)
    then show ?thesis
    proof (rule store_members_inv)
      have "list_all (\<lambda>(k, v). valid_utf8 k \<and> valid_json v) ms" using valid JObj by simp
      then have each: "valid_json (snd m)" if "m \<in> set ms" for m using that by (auto simp: list_all_iff)
      then show "\<forall>p \<in> set evictRequest. \<forall>m \<in> set ms. \<forall>r r'. snd p (snd m) r = Some r' \<longrightarrow> valid_utf8 r \<longrightarrow> valid_utf8 r'"
        by (auto simp: evictRequest_def store_string_def split: json.splits dest: each)
    qed simp
  qed (use v(2) in \<open>auto simp: store_struct_def\<close>)
qed

lemma valid_literal:
  "list_all (\<lambda>c. byte c < 128) s \<Longrightarrow> valid_utf8 s"
  by (induction s) (auto simp: valid_utf8_ascii)

lemma evict_body_round:
  assumes "valid_utf8 adapter"
  shows "jEvict go_codec (evict_body go_codec adapter) = Some adapter"
proof -
  have "decode_first (json_text (JObj [(''adapter'', JStr adapter)])) = Some (JObj [(''adapter'', JStr adapter)])"
    using assms by (subst decode_first_text) (simp_all add: valid_literal)
  then show ?thesis
    by (simp add: go_codec_def evict_body_def decode_struct_def store_struct_def evictRequest_def find_field_exact store_string_def)
qed



section \<open>Health\<close>

lemma health_report_decimal: "decimal 17 \<bar>checker_load 200 c\<bar>"
proof -
  let ?k = "sint (pendingCount c)"
  have "10 ^ 17 * \<bar>of_int ?k / 200 :: rat\<bar> = of_int (500000000000000 * \<bar>?k\<bar>)" by simp
  then have "decimal 17 \<bar>of_int ?k / 200\<bar>" unfolding decimal_def by (metis floor_of_int)
  moreover have "decimal 17 \<bar>1\<bar>"
  proof -
    have "10 ^ 17 * \<bar>1 :: rat\<bar> = of_int 100000000000000000" by simp
    then show ?thesis unfolding decimal_def by (metis floor_of_int)
  qed
  ultimately show ?thesis by (auto simp: checker_load_def Let_def)
qed

lemma health_report_range: "float_range (checker_load 200 c)"
proof -
  let ?k = "sint (pendingCount c)"
  have k: "- (2 ^ 63) \<le> ?k" "?k < 2 ^ 63" using sint_range_size [of "pendingCount c"] by (simp_all add: word_size)
  have "\<bar>checker_load 200 c\<bar> \<le> 2 ^ 63"
  proof -
    have "\<bar>of_int ?k / 200 :: rat\<bar> = of_int \<bar>?k\<bar> / 200" by simp
    also have "\<dots> \<le> of_int \<bar>?k\<bar>" by simp
    also have "\<dots> \<le> of_int (2 ^ 63)" using k by (intro of_int_le_iff [THEN iffD2]) linarith
    finally show ?thesis by (auto simp: checker_load_def Let_def)
  qed
  also have "(2 :: rat) ^ 63 < 2 ^ 1024 - 2 ^ 970" by simp
  finally show ?thesis by (simp add: float_range_def)
qed

lemma health_round_trip:
  assumes "json_ok (HealthResponse_json h)" and "float_range (hLoad h)" and "ends_number rest"
  shows "health_decode (health_encode h @ rest) = Some h"
proof -
  have r: "of_int (sint (hPending h)) = hPending h" "- (2 ^ 63) \<le> sint (hPending h)" "sint (hPending h) < 2 ^ 63"
    using sint_range_size [of "hPending h"] by (simp_all add: word_size)
  show ?thesis
    unfolding health_decode_def decode_struct_def health_encode_def decode_first_json_text [OF assms(1,3)]
    using r store_number [OF assms(2)]
    by (cases h) (simp add: HealthResponse_json_def store_struct_def HealthResponse_fields_def field_def find_field_exact
      store_string_def store_int64_def store_bool_def no_health_def)
qed

text \<open>What a node answers on \<open>/healthz\<close> is what another one reads.\<close>

lemma health_reply_read: "health_decode (replyBody (health_ServeHTTP health_encode c)) = Some (health_response c)"
  unfolding health_ServeHTTP_def using health_report_decimal [of c] health_report_range [of c]
  by (simp add: health_response_def health_round_trip ends_newline HealthResponse_json_def valid_literal)

lemma Owner_update_load:
  assumes "ring_inv r" and "Owner sha key r = Some p"
  shows "Owner sha key (UpdatePeerLoad (Addr p) l r) = Some (p\<lparr>Load := l\<rparr>)"
proof -
  have found: "map_of (peers r) b = Some p \<Longrightarrow> b = Addr p" for b using assms(1) by (simp add: ring_inv_def)
  show ?thesis using assms(2) found by (auto simp: Owner_def Let_def split: if_splits)
qed

lemma sent_below:
  assumes "ring_inv r" and "Owner sha key r = Some p" and "Addr p \<noteq> self r"
  shows "ForwardTo (Decide sha (UpdatePeerLoad (Addr p) l r) f key False) \<noteq> None \<longleftrightarrow> l < threshold f"
  using Owner_update_load [OF assms(1,2), of l] assms(3) by (simp add: Decide_def IsSelf_def not_le)



text \<open>A check looks at nothing but the body of the answer: whatever its status, an answer whose body is a JSON object
  without the member \<open>load\<close> (an error report, say), or is \<open>null\<close>, makes the peer an idle one.\<close>

theorem error_report_reads_as_idle:
  assumes req: "newRequest (cClient c) ''GET'' (''http://'' @ Addr p @ ''/healthz'') = None"
    and answer: "roundTrip (cClient c) ''GET'' (''http://'' @ Addr p @ ''/healthz'') [] [] = Inr resp"
    and body: "respBody resp = json_text v @ rest" "json_ok v" "ends_number rest"
    and shape: "v = JNull \<or> (\<exists>ms. v = JObj ms \<and> (\<forall>k \<in> fst ` set ms. find_field HealthResponse_fields k = None))"
  shows "checkPeer health_decode c p r = UpdatePeerLoad (Addr p) 0 r"
proof -
  have skip: "\<forall>k \<in> fst ` set ms. find_field tys k = None \<Longrightarrow> store_members tys (map (\<lambda>(k, v). (k, as_read v)) ms) x = Some x"
    for ms and tys :: "'r field list" and x
    by (induction ms) auto
  have "store_struct HealthResponse_fields (as_read v) no_health = Some no_health"
    using shape skip by (auto simp: store_struct_def)
  then have "health_decode (respBody resp) = Some no_health"
    by (simp add: health_decode_def decode_struct_def body decode_first_json_text)
  then show ?thesis using req answer by (simp add: checkPeer_def no_health_def)
qed

section \<open>The requests of the load generator\<close>

lemma json_map_ok: "json_ok (json_map ms) = json_ok (JObj ms)"
  by (simp add: json_map_def list_all_iff)

lemma map_of_rev: "distinct (map fst xs) \<Longrightarrow> map_of (rev xs) = map_of xs"
  by (rule map_of_inject_set [THEN iffD2]) (simp_all flip: rev_map)

lemma json_map_member:
  assumes "distinct (map fst ms)"
  shows "map_of (rev (map (\<lambda>(k, v). (k, f v)) (sort_key fst ms))) k = map_option f (map_of ms k)"
proof -
  have fst_map: "map fst (map (\<lambda>(k, v). (k, f v)) xs) = map fst xs" for xs by (induction xs) auto
  have "mset (map fst (sort_key fst ms)) = mset (map fst ms)" by simp
  then have d: "distinct (map fst (sort_key fst ms))" using assms mset_eq_imp_distinct_iff by blast
  then have "map_of (rev (map (\<lambda>(k, v). (k, f v)) (sort_key fst ms))) = map_of (map (\<lambda>(k, v). (k, f v)) (sort_key fst ms))"
    by (intro map_of_rev) (simp only: fst_map)
  moreover have "map_of (sort_key fst ms) = map_of ms" using d assms by (intro map_of_inject_set [THEN iffD2]) simp_all
  ultimately show ?thesis by (simp add: map_of_map)
qed

lemma loadgen_body_model:
  assumes "valid_utf8 model"
  shows "body_model (loadgen_body model maxTokens) = Some model"
proof -
  let ?ms = "[(''model'', JStr model), (''messages'', JArr [json_map [(''role'', JStr ''user''), (''content'', JStr ''Hello'')]]),
        (''max_tokens'', JInt (sint maxTokens)), (''temperature'', JInt 0)]"
  have "json_ok (json_map ?ms)" using assms by (simp add: json_map_ok valid_literal)
  then have "unmarshal (loadgen_body model maxTokens) = Some (as_read (json_map ?ms))"
    unfolding loadgen_body_def by (rule unmarshal_json_text)
  moreover have "distinct (map fst ?ms)" by simp
  from json_map_member [OF this, of as_read "''model''"]
  have "map_of (rev (map (\<lambda>(k, v). (k, as_read v)) (sort_key fst ?ms))) ''model'' = Some (JStr model)" by simp
  ultimately show ?thesis by (simp add: body_model_def json_map_def store_string_def del: sort_key_simps)
qed

text \<open>What the load generator sends as a request for an adapter is one: if the proxy can read the body, it takes the
  request for one to exactly the adapter the generator drew and counts in its report.\<close>

theorem loadgen_asks_for_its_adapter:
  assumes sent: "reqBody r = loadgen_body (rAdapter (sendRequest c loadgen_body txt lat target model maxTokens)) maxTokens"
    and utf8: "valid_utf8 model"
    and read: "reqBodyErr r = None" "length (reqBody r) \<le> maxBodySize"
  shows "\<exists>info. ExtractRequestInfo body_model r ho = Inr info \<and> infoModel info = model \<and> infoBody info = reqBody r"
proof -
  have "rAdapter (sendRequest c loadgen_body txt lat target model maxTokens) = model"
    by (simp add: sendRequest_def Let_def split: option.split sum.split)
  then have b: "reqBody r = loadgen_body model maxTokens" using sent by simp
  have "loadgen_body model maxTokens \<noteq> []" by (simp add: loadgen_body_def json_map_def)
  then show ?thesis using read by (simp add: ExtractRequestInfo_def read_body_def b loadgen_body_model [OF utf8] Let_def)
qed


section \<open>Witnesses\<close>


text \<open>A client that is answered by one handler, whatever it asks.\<close>

definition answered_by :: "response \<Rightarrow> http_client" where
  "answered_by resp = \<lparr>newRequest = (\<lambda>m u. None), roundTrip = (\<lambda>m u h b. Inr resp)\<rparr>"

text \<open>The routing of a key of \<open>p2\<close> after \<open>p2\<close> reported \<open>k\<close> requests in service.\<close>

definition routed_after_report :: "nat \<Rightarrow> RouteDecision" where
  "routed_after_report k =
     (let theirs = (NewChecker unreachable ''p2'' [] 10)\<lparr>pendingCount := of_nat k\<rparr>;
          resp = \<lparr>respStatus = 200, respHeader = [], respBody = replyBody (health_ServeHTTP health_encode theirs), respErr = None\<rparr>
      in Decide example_sha
           (checkPeer health_decode (NewChecker (answered_by resp) ''p1'' [] 10) \<lparr>Addr = ''p2'', Load = 0\<rparr> (example_ring [''p1'', ''p2'']))
           (NewForwarder answering (4 / 5)) ''c'' False)"


lemma error_report_reads_as_idle_witness:
  "checkPeer health_decode (NewChecker (answered_by \<lparr>respStatus = 503, respHeader = [],
      respBody = json_text (JObj [(''error'', JStr ''no model loaded'')]), respErr = None\<rparr>) ''p1'' [] 10)
     \<lparr>Addr = ''p2'', Load = 1\<rparr> (example_ring [''p1'', ''p2'']) = UpdatePeerLoad ''p2'' 0 (example_ring [''p1'', ''p2''])"
proof -
  let ?v = "JObj [(''error'', JStr ''no model loaded'')]"
  let ?resp = "\<lparr>respStatus = 503, respHeader = [], respBody = json_text ?v, respErr = None\<rparr>"
  let ?c = "NewChecker (answered_by ?resp) ''p1'' [] 10" and ?p = "\<lparr>Addr = ''p2'', Load = 1 :: float64\<rparr>"
  have c: "newRequest (cClient ?c) ''GET'' (''http://'' @ Addr ?p @ ''/healthz'') = None"
    "roundTrip (cClient ?c) ''GET'' (''http://'' @ Addr ?p @ ''/healthz'') [] [] = Inr ?resp"
    by (simp_all add: NewChecker_def answered_by_def)
  have b: "respBody ?resp = json_text ?v @ []" "json_ok ?v" "ends_number []"
    by (simp_all add: valid_literal ends_number_def)
  have "list_all (\<lambda>n. fold_name n \<noteq> fold_name ''error'') [''status'', ''load'', ''pending'', ''vllm_healthy'']" by code_simp
  then have "find_field HealthResponse_fields ''error'' = None"
    by (simp add: find_field_def HealthResponse_fields_def field_def)
  then have s: "?v = JNull \<or> (\<exists>ms. ?v = JObj ms \<and> (\<forall>k \<in> fst ` set ms. find_field HealthResponse_fields k = None))" by simp
  from error_report_reads_as_idle [OF c b s] show ?thesis by simp
qed

lemma loadgen_asks_for_its_adapter_witness:
  "\<exists>info. ExtractRequestInfo body_model
     \<lparr>reqMethod = ''POST'', reqPath = ''/v1/chat/completions'', reqQuery = [], reqHeader = [],
      reqBody = loadgen_body ''a'' 10, reqBodyErr = None, reqGone = False\<rparr> ''model'' = Inr info \<and> infoModel info = ''a''"
proof -
  let ?r = "\<lparr>reqMethod = ''POST'', reqPath = ''/v1/chat/completions'', reqQuery = [], reqHeader = [],
      reqBody = loadgen_body ''a'' 10, reqBodyErr = None, reqGone = False\<rparr>"
  have s: "reqBody ?r = loadgen_body (rAdapter (sendRequest unreachable loadgen_body (\<lambda>e. []) 0 ''t'' ''a'' 10)) 10"
    by (simp add: sendRequest_def unreachable_def)
  have "length (loadgen_body ''a'' 10) \<le> maxBodySize"
    by (simp add: loadgen_body_def json_map_def insort_key.simps less_eq_list_code json_string_def escape_ascii_def html_safe_def
      itoa_def utoa.simps [of 10] utoa.simps [of 0] utoa.simps [of "Suc 0"] maxBodySize_def)
  then have l: "length (reqBody ?r) \<le> maxBodySize" by simp
  from loadgen_asks_for_its_adapter [OF s _ _ l, of "''model''"] show ?thesis by (auto simp: valid_literal)
qed

end
