(* ===== verification/MockVllm.thy ===== *)
theory MockVllm
  imports Codecs
begin

text \<open>
  \<open>cmd/mock-vllm/main.go\<close>: the server that stands in for vLLM in the end-to-end tests and under the load
  generator, and the proxy in front of it.  The clock (in seconds) and the random numbers come from
  outside; how long an answer takes is not modelled.
\<close>

section \<open>The server\<close>

record Mock =
  mockListen :: string
  mockModel :: string
  mockLatency :: int64

text \<open>The flags' defaults.\<close>

definition default_mock :: Mock where
  "default_mock = \<lparr>mockListen = '':8000'', mockModel = ''mock-llama-8b'', mockLatency = 10000000\<rparr>"

definition json_answer :: "json \<Rightarrow> reply" where
  "json_answer v =
     \<lparr>replyStatus = 200, replyHeader = header_set ''Content-Type'' ''application/json'' [], replyBody = json_text v @ [CHR 0x0A]\<rparr>"

definition mock_models :: "Mock \<Rightarrow> int \<Rightarrow> reply" where
  "mock_models k unix =
     json_answer (json_map
       [(''object'', JStr ''list''),
        (''data'', JArr [json_map [(''id'', JStr (mockModel k)), (''object'', JStr ''model''), (''created'', JInt unix),
           (''owned_by'', JStr ''vllm'')]])])"

text \<open>The request, decoded into a map: errors are ignored, the last member of a name counts.\<close>

definition mock_request :: "string \<Rightarrow> (string \<times> json) list" where
  "mock_request body = (case decode_first body of Some (JObj ms) \<Rightarrow> ms | _ \<Rightarrow> [])"

definition mock_req_model :: "Mock \<Rightarrow> string \<Rightarrow> string" where
  "mock_req_model k body =
     (let reqModel = (case map_of (rev (mock_request body)) ''model'' of Some (JStr m) \<Rightarrow> m | _ \<Rightarrow> [])
      in if reqModel = [] then mockModel k else reqModel)"

definition mock_stream :: "string \<Rightarrow> bool" where
  "mock_stream body = (case map_of (rev (mock_request body)) ''stream'' of Some (JBool b) \<Rightarrow> b | _ \<Rightarrow> False)"

definition chat_id :: "nat \<Rightarrow> json" where
  "chat_id n = JStr (''chatcmpl-'' @ utoa n)"

definition mock_chunk :: "nat \<Rightarrow> string \<Rightarrow> json \<Rightarrow> json \<Rightarrow> json" where
  "mock_chunk n reqModel delta finish =
     json_map
       [(''id'', chat_id n), (''object'', JStr ''chat.completion.chunk''), (''model'', JStr reqModel),
        (''choices'', JArr [json_map [(''index'', JInt 0), (''delta'', delta), (''finish_reason'', finish)]])]"

definition mock_completion :: "nat \<Rightarrow> int \<Rightarrow> string \<Rightarrow> json" where
  "mock_completion n unix reqModel =
     json_map
       [(''id'', chat_id n), (''object'', JStr ''chat.completion''), (''created'', JInt unix), (''model'', JStr reqModel),
        (''choices'', JArr [json_map
           [(''index'', JInt 0),
            (''message'', json_map [(''role'', JStr ''assistant''),
               (''content'', JStr (''Hello! I'' @ [CHR 0x27] @ ''m a mock vLLM response.''))]),
            (''finish_reason'', JStr ''stop'')]]),
        (''usage'', json_map [(''prompt_tokens'', JInt 10), (''completion_tokens'', JInt 8), (''total_tokens'', JInt 18)])]"

definition sse_data :: "string \<Rightarrow> string" where
  "sse_data d = ''data: '' @ d @ [CHR 0x0A, CHR 0x0A]"

text \<open>The events of a stream, one after the other; \<open>rnd i\<close> is the random number drawn at place \<open>i\<close>.\<close>

definition mock_events :: "(nat \<Rightarrow> nat) \<Rightarrow> string \<Rightarrow> string list" where
  "mock_events rnd reqModel =
     [json_text (mock_chunk (rnd 0) reqModel (json_map [(''role'', JStr ''assistant''), (''content'', JStr ''Hello'')]) JNull),
      json_text (mock_chunk (rnd 1) reqModel (JObj []) (JStr ''stop'')),
      ''[DONE]'']"

definition mock_chat :: "Mock \<Rightarrow> int \<Rightarrow> (nat \<Rightarrow> nat) \<Rightarrow> string \<Rightarrow> reply" where
  "mock_chat k unix rnd body =
     (let reqModel = mock_req_model k body
      in if mock_stream body then
           \<lparr>replyStatus = 200,
            replyHeader = header_set ''Connection'' ''keep-alive'' (header_set ''Cache-Control'' ''no-cache''
              (header_set ''Content-Type'' ''text/event-stream'' [])),
            replyBody = concat (map sse_data (mock_events rnd reqModel))\<rparr>
         else json_answer (mock_completion (rnd 0) unix reqModel))"

text \<open>The routes of the default mux.\<close>

definition mock_handle :: "Mock \<Rightarrow> int \<Rightarrow> (nat \<Rightarrow> nat) \<Rightarrow> request \<Rightarrow> reply" where
  "mock_handle k unix rnd r =
     (let p = (if reqMethod r = ''CONNECT'' then reqPath r else clean_url_path (reqPath r))
      in if p \<noteq> reqPath r then redirect_reply r p
         else if p = ''/health'' then \<lparr>replyStatus = 200, replyHeader = [], replyBody = []\<rparr>
         else if p = ''/v1/models'' then mock_models k unix
         else if p = ''/v1/chat/completions'' then mock_chat k unix rnd (reqBody r)
         else http_error ''404 page not found'' 404)"

text \<open>The server as the other end of a client: the path and the query are what follows its base URL.\<close>

definition request_of :: "string \<Rightarrow> string \<Rightarrow> header \<Rightarrow> string \<Rightarrow> request" where
  "request_of m target h b =
     \<lparr>reqMethod = m, reqPath = takeWhile (\<lambda>c. c \<noteq> CHR ''?'') target, reqQuery = drop 1 (dropWhile (\<lambda>c. c \<noteq> CHR ''?'') target),
      reqHeader = h, reqBody = b, reqBodyErr = None, reqGone = False\<rparr>"

definition answer_of :: "reply \<Rightarrow> response" where
  "answer_of rep = \<lparr>respStatus = replyStatus rep, respHeader = replyHeader rep, respBody = replyBody rep, respErr = None\<rparr>"

definition mock_client :: "string \<Rightarrow> Mock \<Rightarrow> int \<Rightarrow> (nat \<Rightarrow> nat) \<Rightarrow> http_client" where
  "mock_client base k unix rnd =
     \<lparr>newRequest = (\<lambda>m u. None),
      roundTrip = (\<lambda>m u h b.
        if prefix base u then Inr (answer_of (mock_handle k unix rnd (request_of m (drop (length base) u) h b)))
        else Inl (Errorf ''connection refused''))\<rparr>"

section \<open>The mock's answers\<close>

lemma valid_utoa: "valid_utf8 (utoa n)"
  using utoa_digits [of n] by (intro valid_literal) (auto simp: list_all_iff is_digit_def)

lemma chat_id_ok: "json_ok (chat_id n)"
  by (simp add: chat_id_def valid_utf8_append valid_literal valid_utoa del: append.simps)

text \<open>A member of a map with its own keys, after it has been written and read.\<close>

definition reads_member :: "string \<Rightarrow> string \<Rightarrow> string \<Rightarrow> bool" where
  "reads_member text name val \<longleftrightarrow>
     (\<exists>ms. decode_first text = Some (JObj ms) \<and> map_of (rev ms) name = Some (JStr val))"

lemma reads_member_map:
  assumes "json_ok (JObj ms)" and "distinct (map fst ms)" and "map_of ms name = Some (JStr val)" and "ends_number rest"
  shows "reads_member (json_text (json_map ms) @ rest) name val"
  using decode_first_json_text [of "json_map ms" rest] json_map_member [OF assms(2), of as_read name] assms
  by (simp add: reads_member_def json_map_ok) (simp add: json_map_def)

lemma completion_model:
  "valid_utf8 m \<Longrightarrow> ends_number rest \<Longrightarrow> reads_member (json_text (mock_completion n unix m) @ rest) ''model'' m"
  unfolding mock_completion_def by (rule reads_member_map) (simp_all add: chat_id_ok json_map_ok valid_literal)

lemma chunk_model:
  "valid_utf8 m \<Longrightarrow> json_ok delta \<Longrightarrow> json_ok fin \<Longrightarrow> reads_member (json_text (mock_chunk n m delta fin)) ''model'' m"
  using reads_member_map [where rest = "[]" and name = "''model''"]
  by (simp add: mock_chunk_def chat_id_ok json_map_ok valid_literal ends_number_def)

lemma mock_model_valid:
  assumes "valid_utf8 (mockModel k)"
  shows "valid_utf8 (mock_req_model k body)"
proof -
  have "valid_utf8 m" if "map_of (rev (mock_request body)) ''model'' = Some (JStr m)" for m
  proof -
    have "(''model'', JStr m) \<in> set (mock_request body)" using map_of_SomeD [OF that] by simp
    moreover have "valid_json (JObj (mock_request body))"
      using decode_first_valid [of body] by (auto simp: mock_request_def split: option.split json.split)
    ultimately show ?thesis by (auto simp: list_all_iff)
  qed
  then show ?thesis using assms by (auto simp: mock_req_model_def Let_def split: option.split json.split)
qed

lemma chat_model:
  assumes "valid_utf8 (mockModel k)" and "\<not> mock_stream body"
  shows "reads_member (replyBody (mock_chat k unix rnd body)) ''model'' (mock_req_model k body)"
  using completion_model [OF mock_model_valid [OF assms(1)] ends_newline] assms(2)
  by (simp add: mock_chat_def json_answer_def Let_def)

lemma chat_status: "replyStatus (mock_chat k unix rnd body) = 200"
  by (simp add: mock_chat_def json_answer_def Let_def)

text \<open>The mock answers every chat request with 200, in the name of the model it was asked for, or of its own when the
  body names none or is no JSON: one JSON object, or, for a stream, events of which all but the last are
  JSON objects and the last says that the stream is done.\<close>

theorem mock_answers_as_the_model:
  assumes "valid_utf8 (mockModel k)"
  shows "replyStatus (mock_chat k unix rnd body) = 200
    \<and> (\<not> mock_stream body \<longrightarrow> reads_member (replyBody (mock_chat k unix rnd body)) ''model'' (mock_req_model k body))
    \<and> (mock_stream body \<longrightarrow> (\<exists>evs. replyBody (mock_chat k unix rnd body) = concat (map sse_data (evs @ [''[DONE]'']))
        \<and> evs \<noteq> [] \<and> (\<forall>ev \<in> set evs. reads_member ev ''model'' (mock_req_model k body))))"
proof (intro conjI impI)
  let ?m = "mock_req_model k body"
  note valid = mock_model_valid [OF assms, of body]
  show "replyStatus (mock_chat k unix rnd body) = 200" by (rule chat_status)
  assume s: "mock_stream body"
  let ?evs = "butlast (mock_events rnd ?m)"
  have "replyBody (mock_chat k unix rnd body) = concat (map sse_data (?evs @ [''[DONE]'']))"
    using s by (simp add: mock_chat_def mock_events_def Let_def)
  moreover have "?evs \<noteq> [] \<and> (\<forall>ev \<in> set ?evs. reads_member ev ''model'' ?m)"
    using valid by (simp add: mock_events_def chunk_model json_map_ok valid_literal)
  ultimately show "\<exists>evs. replyBody (mock_chat k unix rnd body) = concat (map sse_data (evs @ [''[DONE]'']))
      \<and> evs \<noteq> [] \<and> (\<forall>ev \<in> set evs. reads_member ev ''model'' ?m)" by blast
next
  assume "\<not> mock_stream body"
  then show "reads_member (replyBody (mock_chat k unix rnd body)) ''model'' (mock_req_model k body)"
    using completion_model [OF mock_model_valid [OF assms] ends_newline]
    by (simp add: mock_chat_def json_answer_def Let_def)
qed


section \<open>The proxy in front of it\<close>

lemma answered_by_vllm:
  assumes "ExtractRequestInfo json r (hashOn p) = Inr info" and "toVLLM (ServeHTTP e json sha ring f p r m fs) \<noteq> []"
  shows "servedReply (ServeHTTP e json sha ring f p r m fs) = fst (proxyToVLLM p r (infoBody info))
    \<and> toVLLM (ServeHTTP e json sha ring f p r m fs) = snd (proxyToVLLM p r (infoBody info))"
proof (cases rule: serve_cases [where e = e and json = json and sha = sha and ring = ring and f = f and p = p and r = r and m = m and fs = fs])
  case (local i sent ms)
  let ?s1 = "served_start m fs\<lparr>toPeers := sent, servedMetrics := ms\<rparr>"
  have i: "i = info" using local(1) assms(1) by simp
  show ?thesis using assms(2) unfolding local(2)
    by (cases rule: locally_cases [where e = e and p = p and r = r and info = i and base = "base_request p i" and ?s1.0 = ?s1])
      (auto simp: i split: if_splits)
qed (use assms in auto)

lemma parse_all_first: "parse_all st ts = Some v \<Longrightarrow> parse_first st ts = Some v"
proof (induction ts arbitrary: st)
  case Nil
  then show ?case by (cases st) auto
next
  case (Cons t ts)
  then obtain st' where st': "parse_step st t = Some st'" "parse_all st' ts = Some v" by (auto split: option.splits)
  then have "parse_first st (t # ts) = parse_first st' ts" by (cases st) auto
  then show ?case using Cons.IH [OF st'(2)] by simp
qed

text \<open>What is the model to the proxy is the model to vLLM.\<close>

lemma same_model:
  assumes "body_model body = Some m" and "m \<noteq> []"
  shows "mock_req_model k body = m"
proof -
  obtain ms raw where ms: "unmarshal body = Some (JObj ms)" "map_of (rev ms) ''model'' = Some raw" "store_string raw [] = Some m"
    using assms(1) by (auto simp: body_model_def split: option.splits json.splits)
  have "decode_first body = Some (JObj ms)" using ms(1) parse_all_first by (simp add: unmarshal_def decode_first_def)
  moreover have "raw = JStr m" using ms(3) assms(2) by (auto simp: store_string_def split: json.splits)
  ultimately show ?thesis using ms(2) assms(2) by (simp add: mock_req_model_def mock_request_def Let_def)
qed

lemma extract_model:
  assumes "ExtractRequestInfo json r ho = Inr info" and "infoModel info \<noteq> []"
  shows "json (infoBody info) = Some (infoModel info) \<and> infoBody info = reqBody r"
  using assms extract_body [OF assms(1)]
  by (auto simp: ExtractRequestInfo_def read_body_def Let_def split: sum.splits if_splits option.splits)


text \<open>With \<open>fallback_to_base_model\<close> the request of an adapter that cannot be had goes to vLLM as it is: the model it names is
  still the adapter, not the base model the README promises to serve, although it is counted as
  \<open>fallback-base\<close>.\<close>

theorem fallback_still_asks_for_the_adapter:
  assumes info: "ExtractRequestInfo body_model r (hashOn p) = Inr info" "\<not> base_request p info"
    and fallback: "fallbackBase p" "marked r"
    and absent: "EnsureAdapter e m (infoModel info) fs = (Inl err, m', fs', ms, ts)"
    and ok: "newRequest (vllmClient p) (reqMethod r) (vllmURL p @ reqPath r @ (if reqQuery r \<noteq> [] then ''?'' @ reqQuery r else [])) = None"
  shows "\<exists>q. toVLLM (ServeHTTP e body_model sha ring f p r m fs) = [q] \<and> body_model (sentBody q) = Some (infoModel info)
    \<and> infoModel info \<noteq> baseModel p
    \<and> servedMetrics (ServeHTTP e body_model sha ring f p r m fs) = ms @ RecordRequest (infoTenant info) ''fallback-base''"
proof -
  have ne: "infoModel info \<noteq> []" "infoModel info \<noteq> baseModel p" using info(2) by (simp_all add: base_request_def)
  note body = extract_model [OF info(1) ne(1)]
  have s: "ServeHTTP e body_model sha ring f p r m fs = serve_locally e p r info False (served_start m fs)"
    using info ne fallback(2) by (simp add: ServeHTTP_def served_start_def Decide_def marked_def Let_def)
  have "\<exists>q. snd (proxyToVLLM p r (infoBody info)) = [q] \<and> sentBody q = infoBody info"
    using ok by (auto simp: proxyToVLLM_def Let_def split: sum.split)
  then show ?thesis using absent fallback(1) body ne unfolding s
    by (auto simp: serve_locally_def Let_def)
qed


section \<open>Witnesses\<close>

definition mocked_proxy :: Proxy where
  "mocked_proxy = NewProxy ''http://vllm:8000'' ''base'' ''model'' True (mock_client ''http://vllm:8000'' default_mock 100 (\<lambda>i. i))"

definition chat_request :: "header \<Rightarrow> string \<Rightarrow> request" where
  "chat_request h model =
     \<lparr>reqMethod = ''POST'', reqPath = ''/v1/chat/completions'', reqQuery = [], reqHeader = h,
      reqBody = json_text (json_map [(''model'', JStr model)]), reqBodyErr = None, reqGone = False\<rparr>"

lemma chat_request_info:
  assumes "valid_utf8 model" and "length (reqBody (chat_request h model)) \<le> maxBodySize"
  shows "ExtractRequestInfo body_model (chat_request h model) ''model''
    = Inr \<lparr>infoModel = model, infoTenant = header_get h ''X-Tenant-ID'', infoHashKey = model, infoBody = reqBody (chat_request h model)\<rparr>"
    and "decode_first (reqBody (chat_request h model)) = Some (JObj [(''model'', JStr model)])"
proof -
  have v: "json_ok (json_map [(''model'', JStr model)])" using assms(1) by (simp add: json_map_ok valid_literal)
  have "body_model (reqBody (chat_request h model)) = Some model"
    using unmarshal_json_text [OF v] by (simp add: chat_request_def body_model_def json_map_def store_string_def)
  then show "ExtractRequestInfo body_model (chat_request h model) ''model''
    = Inr \<lparr>infoModel = model, infoTenant = header_get h ''X-Tenant-ID'', infoHashKey = model, infoBody = reqBody (chat_request h model)\<rparr>"
    using assms(2) by (simp add: ExtractRequestInfo_def read_body_def) (simp add: chat_request_def json_map_def buildHashKey_def Let_def)
  show "decode_first (reqBody (chat_request h model)) = Some (JObj [(''model'', JStr model)])"
    using decode_first_text [OF v] by (simp add: chat_request_def json_map_def)
qed

lemma chat_request_small: "length model \<le> 100 \<Longrightarrow> list_all html_safe model \<Longrightarrow> length (reqBody (chat_request h model)) \<le> maxBodySize"
proof -
  assume a: "length model \<le> 100" "list_all html_safe model"
  have "escape model = model" using a(2) by (induction model) (auto simp: escape_ascii_def html_safe_def)
  then show ?thesis using a(1) by (simp add: chat_request_def json_map_def json_string_def escape_ascii_def html_safe_def maxBodySize_def)
qed

lemma mock_answers_as_the_model_witness:
  "reads_member (replyBody (mock_chat default_mock 100 (\<lambda>i. i) (reqBody (chat_request [] ''a'')))) ''model'' ''a''"
proof -
  let ?b = "reqBody (chat_request [] ''a'')"
  have d: "decode_first ?b = Some (JObj [(''model'', JStr ''a'')])"
    by (rule chat_request_info) (simp_all add: valid_literal chat_request_small html_safe_def)
  then have "\<not> mock_stream ?b" "mock_req_model default_mock ?b = ''a''"
    by (simp_all add: mock_stream_def mock_req_model_def mock_request_def)
  moreover have "valid_utf8 (mockModel default_mock)" by (simp add: default_mock_def valid_literal)
  ultimately show ?thesis using mock_answers_as_the_model [of default_mock 100 "\<lambda>i. i" ?b] by simp
qed



lemma fallback_still_asks_for_the_adapter_witness:
  "\<exists>q. toVLLM (ServeHTTP example_env body_model example_sha (example_ring [''p1'', ''p2'']) (NewForwarder answering 1) mocked_proxy
      (chat_request [(HeaderForwarded, [''true''])] ''b'') example_manager empty_disk) = [q] \<and> body_model (sentBody q) = Some ''b''"
proof -
  let ?r = "chat_request [(HeaderForwarded, [''true''])] ''b''"
  let ?i = "\<lparr>infoModel = ''b'', infoTenant = header_get [(HeaderForwarded, [''true''])] ''X-Tenant-ID'', infoHashKey = ''b'', infoBody = reqBody ?r\<rparr>"
  have small: "valid_utf8 ''b''" "length (reqBody ?r) \<le> maxBodySize"
    by (simp_all add: valid_literal chat_request_small html_safe_def)
  have i: "ExtractRequestInfo body_model ?r (hashOn mocked_proxy) = Inr ?i"
    using chat_request_info(1) [OF small] by (simp add: mocked_proxy_def NewProxy_def)
  have canon: "canonical HeaderForwarded = HeaderForwarded" by code_simp
  have p: "\<not> base_request mocked_proxy ?i" "fallbackBase mocked_proxy" "marked ?r"
    by (simp_all add: base_request_def mocked_proxy_def NewProxy_def marked_def chat_request_def header_get_def header_values_def canon)
  obtain err m' fs' ms ts where absent: "EnsureAdapter example_env example_manager (infoModel ?i) empty_disk = (Inl err, m', fs', ms, ts)"
  proof -
    have "isl (fst (EnsureAdapter example_env example_manager ''b'' empty_disk))" by code_simp
    then show thesis using that by (cases "EnsureAdapter example_env example_manager ''b'' empty_disk"; case_tac a) auto
  qed
  have n: "newRequest (vllmClient mocked_proxy) (reqMethod ?r)
      (vllmURL mocked_proxy @ reqPath ?r @ (if reqQuery ?r \<noteq> [] then ''?'' @ reqQuery ?r else [])) = None"
    by (simp add: mocked_proxy_def NewProxy_def mock_client_def)
  from fallback_still_asks_for_the_adapter [OF i p absent n, of example_sha "example_ring [''p1'', ''p2'']" "NewForwarder answering 1"]
  show ?thesis by auto
qed

end
