(* ===== verification/LoadRun.thy ===== *)
theory LoadRun
  imports Codecs
begin

text \<open>
  The run of the load generator (\<open>main\<close> of \<open>cmd/loadgen/main.go\<close>): workers that draw a model, send a request
  for it and record the answer until they are told to stop, and the main loop that prints the progress, stops
  them at the deadline, waits for them and prints the report.  The clock, the random numbers, the answers
  and their latencies are the environment's, and so is the order of the steps.
\<close>

section \<open>Flags\<close>

record LoadFlags =
  lfTarget :: string
  lfAdapters :: string
  lfBaseModel :: string
  lfConcurrency :: int64
  lfDuration :: int64
  lfWarmup :: int64
  lfZipfS :: rat
  lfMix :: rat
  lfMaxTokens :: int64
  lfReportInterval :: int64

definition default_flags :: LoadFlags where
  "default_flags =
     \<lparr>lfTarget = ''http://localhost:9090'', lfAdapters = [], lfBaseModel = [], lfConcurrency = 4, lfDuration = 60 * second,
      lfWarmup = 10 * second, lfZipfS = 3 / 2, lfMix = 1 / 5, lfMaxTokens = 10, lfReportInterval = 5 * second\<rparr>"

definition adapter_list :: "LoadFlags \<Rightarrow> string list" where
  "adapter_list F = splitNonEmpty (lfAdapters F) CHR '',''"

section \<open>State\<close>

text \<open>A worker is at the head of its loop, waits for an answer, has one to record, or has left.\<close>

datatype worker = AtHead | Sending string bool | Recording result | Left

datatype load_main = Starting | Reporting | Joining | Finished "report option" | NoAdapters | Crashed string

text \<open>A line of the progress: requests, results and the median.\<close>

type_synonym progress = "int64 \<times> nat \<times> int64"

record LoadRun =
  lrNow :: int
  lrWarmEnd :: int
  lrDeadline :: int
  lrResults :: "result list"
  lrDone :: bool
  lrTotal :: int64
  lrWorkers :: "worker list"
  lrMain :: load_main
  lrPrinted :: "progress list"

text \<open>Without adapters the program exits with status 1; \<open>range\<close> over a negative count starts no worker.\<close>

definition load_start :: "LoadFlags \<Rightarrow> int \<Rightarrow> LoadRun" where
  "load_start F t =
     \<lparr>lrNow = t, lrWarmEnd = t + sint (lfWarmup F), lrDeadline = 0, lrResults = [], lrDone = False, lrTotal = 0,
      lrWorkers = (if adapter_list F = [] then [] else replicate (nat (sint (lfConcurrency F))) AtHead),
      lrMain = (if adapter_list F = [] then NoAdapters else Starting), lrPrinted = []\<rparr>"

section \<open>Steps\<close>

text \<open>
  The draw of a model from a random fraction and a Zipf number; \<open>NewZipf\<close> returns nil for a skew of at most
  1, and drawing from nil panics.
\<close>

definition draw_model :: "LoadFlags \<Rightarrow> rat \<Rightarrow> nat \<Rightarrow> (string \<times> bool) option" where
  "draw_model F u idx =
     (let passthrough = (u < lfMix F \<and> lfBaseModel F \<noteq> [])
      in if passthrough then Some (lfBaseModel F, True)
         else if lfZipfS F \<le> 1 then None
         else Some (adapter_list F ! idx, False))"

definition progress_line :: "(int64 list \<Rightarrow> int64 list) \<Rightarrow> LoadRun \<Rightarrow> progress" where
  "progress_line srt s =
     (let n = length (lrResults s);
          p50 = (if 0 < n then srt (latenciesOf (lrResults s)) ! (n div 2) else 0)
      in (lrTotal s, n, p50))"

definition running :: "LoadRun \<Rightarrow> bool" where
  "running s \<longleftrightarrow> lrMain s \<in> {Starting, Reporting, Joining}"

definition set_worker :: "nat \<Rightarrow> worker \<Rightarrow> LoadRun \<Rightarrow> LoadRun" where
  "set_worker i w s = s\<lparr>lrWorkers := (lrWorkers s)[i := w]\<rparr>"

inductive load_act ::
    "LoadFlags \<Rightarrow> (int64 list \<Rightarrow> int64 list) \<Rightarrow> ((string \<times> adapterStats) list \<Rightarrow> (string \<times> adapterStats) list) \<Rightarrow>
     LoadRun \<Rightarrow> LoadRun \<Rightarrow> bool" for F srt srtKeys where
  Draw: "running s \<Longrightarrow> i < length (lrWorkers s) \<Longrightarrow> lrWorkers s ! i = AtHead \<Longrightarrow> \<not> lrDone s \<Longrightarrow>
    0 \<le> u \<Longrightarrow> u < 1 \<Longrightarrow> idx < length (adapter_list F) \<Longrightarrow> draw_model F u idx = Some (model, pt) \<Longrightarrow>
    load_act F srt srtKeys s (set_worker i (Sending model pt) s)"
| DrawNil: "running s \<Longrightarrow> i < length (lrWorkers s) \<Longrightarrow> lrWorkers s ! i = AtHead \<Longrightarrow> \<not> lrDone s \<Longrightarrow>
    0 \<le> u \<Longrightarrow> u < 1 \<Longrightarrow> idx < length (adapter_list F) \<Longrightarrow> draw_model F u idx = None \<Longrightarrow>
    load_act F srt srtKeys s (s\<lparr>lrMain := Crashed ''rand: nil Zipf''\<rparr>)"
| Leave: "running s \<Longrightarrow> i < length (lrWorkers s) \<Longrightarrow> lrWorkers s ! i = AtHead \<Longrightarrow> lrDone s \<Longrightarrow>
    load_act F srt srtKeys s (set_worker i Left s)"
| Answer: "running s \<Longrightarrow> i < length (lrWorkers s) \<Longrightarrow> lrWorkers s ! i = Sending model pt \<Longrightarrow>
    r = (sendRequest c loadgen_body etext latency (lfTarget F) model (lfMaxTokens F))\<lparr>rPassthrough := pt\<rparr> \<Longrightarrow>
    load_act F srt srtKeys s (set_worker i (Recording r) (s\<lparr>lrTotal := lrTotal s + 1\<rparr>))"
| Record: "running s \<Longrightarrow> i < length (lrWorkers s) \<Longrightarrow> lrWorkers s ! i = Recording r \<Longrightarrow>
    load_act F srt srtKeys s (set_worker i AtHead
      (s\<lparr>lrResults := (if lrWarmEnd s < lrNow s then lrResults s @ [r] else lrResults s)\<rparr>))"
| Begin: "lrMain s = Starting \<Longrightarrow>
    load_act F srt srtKeys s
      (if lfReportInterval F <=s 0 then s\<lparr>lrMain := Crashed ''non-positive interval for NewTicker''\<rparr>
       else s\<lparr>lrMain := Reporting, lrDeadline := lrNow s + sint (lfWarmup F + lfDuration F)\<rparr>)"
| Report: "lrMain s = Reporting \<Longrightarrow> load_act F srt srtKeys s (s\<lparr>lrPrinted := lrPrinted s @ [progress_line srt s]\<rparr>)"
| Deadline: "lrMain s = Reporting \<Longrightarrow> lrDeadline s \<le> lrNow s \<Longrightarrow> load_act F srt srtKeys s (s\<lparr>lrDone := True, lrMain := Joining\<rparr>)"
| Join: "lrMain s = Joining \<Longrightarrow> list_all (\<lambda>w. w = Left) (lrWorkers s) \<Longrightarrow>
    load_act F srt srtKeys s (s\<lparr>lrMain := Finished (printReport srt srtKeys (lrResults s))\<rparr>)"

text \<open>Between the acts the clock goes on.\<close>

inductive load_step ::
    "LoadFlags \<Rightarrow> (int64 list \<Rightarrow> int64 list) \<Rightarrow> ((string \<times> adapterStats) list \<Rightarrow> (string \<times> adapterStats) list) \<Rightarrow>
     LoadRun \<Rightarrow> LoadRun \<Rightarrow> bool" for F srt srtKeys where
  Act: "load_act F srt srtKeys s s' \<Longrightarrow> load_step F srt srtKeys s s'"
| Clock: "running s \<Longrightarrow> lrNow s \<le> t \<Longrightarrow> load_step F srt srtKeys s (s\<lparr>lrNow := t\<rparr>)"

inductive_cases load_actE: "load_act F srt srtKeys s s'"

lemma set_worker_fields [simp]:
  "lrNow (set_worker i w s) = lrNow s" "lrWarmEnd (set_worker i w s) = lrWarmEnd s" "lrDeadline (set_worker i w s) = lrDeadline s"
  "lrResults (set_worker i w s) = lrResults s" "lrDone (set_worker i w s) = lrDone s" "lrTotal (set_worker i w s) = lrTotal s"
  "lrMain (set_worker i w s) = lrMain s" "lrPrinted (set_worker i w s) = lrPrinted s"
  "lrWorkers (set_worker i w s) = (lrWorkers s)[i := w]"
  by (simp_all add: set_worker_def)

section \<open>Invariant\<close>

text \<open>A model that may be asked for, with the mark of a passthrough request.\<close>

definition drawn :: "LoadFlags \<Rightarrow> string \<Rightarrow> bool \<Rightarrow> bool" where
  "drawn F model pt \<longleftrightarrow> (if pt then model = lfBaseModel F \<and> model \<noteq> [] else model \<in> set (adapter_list F))"

fun worker_ok :: "LoadFlags \<Rightarrow> bool \<Rightarrow> worker \<Rightarrow> bool" where
  "worker_ok F dn AtHead = True"
| "worker_ok F dn (Sending model pt) = drawn F model pt"
| "worker_ok F dn (Recording r) = drawn F (rAdapter r) (rPassthrough r)"
| "worker_ok F dn Left = dn"

definition load_inv :: "LoadFlags \<Rightarrow> LoadRun \<Rightarrow> bool" where
  "load_inv F s \<longleftrightarrow>
     list_all (worker_ok F (lrDone s)) (lrWorkers s)
     \<and> list_all (\<lambda>r. drawn F (rAdapter r) (rPassthrough r)) (lrResults s)
     \<and> (lrMain s \<in> {Starting, Reporting} \<longrightarrow> \<not> lrDone s) \<and> (lrMain s = Joining \<longrightarrow> lrDone s)
     \<and> (\<forall>rep. lrMain s = Finished rep \<longrightarrow> list_all (\<lambda>w. w = Left) (lrWorkers s))
     \<and> (lrMain s = NoAdapters \<longrightarrow> adapter_list F = [])"

lemma draw_model_drawn: "draw_model F u idx = Some (model, pt) \<Longrightarrow> idx < length (adapter_list F) \<Longrightarrow> drawn F model pt"
  by (auto simp: draw_model_def drawn_def Let_def split: if_splits)

lemma sendRequest_adapter [simp]: "rAdapter (sendRequest c enc etext lat target model mt) = model"
  by (simp add: sendRequest_def Let_def split: option.split sum.split)

lemma list_all_update: "list_all P xs \<Longrightarrow> P x \<Longrightarrow> list_all P (xs[i := x])"
  by (auto simp: list_all_iff dest!: set_update_subset_insert [THEN subsetD])

lemma load_inv_start: "load_inv F (load_start F t)"
  by (auto simp: load_inv_def load_start_def list_all_iff)

lemma load_inv_act: "load_act F srt srtKeys s s' \<Longrightarrow> load_inv F s \<Longrightarrow> load_inv F s'"
proof (induction rule: load_act.induct)
  case (Draw s i u idx model pt)
  then show ?case using draw_model_drawn [OF Draw(8,7)] by (auto simp: load_inv_def running_def intro!: list_all_update)
next
  case (DrawNil s i u idx)
  then show ?case by (auto simp: load_inv_def)
next
  case (Leave s i)
  then show ?case by (auto simp: load_inv_def running_def intro!: list_all_update)
next
  case (Answer s i model pt r c etext latency)
  then have "drawn F model pt" by (auto simp: load_inv_def list_all_length)
  then show ?case using Answer by (auto simp: load_inv_def running_def intro!: list_all_update)
next
  case (Record s i r)
  then have "drawn F (rAdapter r) (rPassthrough r)" by (auto simp: load_inv_def list_all_length)
  then show ?case using Record by (auto simp: load_inv_def running_def intro!: list_all_update)
next
  case (Begin s)
  then show ?case by (auto simp: load_inv_def)
next
  case (Report s)
  then show ?case by (auto simp: load_inv_def)
next
  case (Deadline s)
  have "worker_ok F True w" if "worker_ok F d w" for d w using that by (cases w) auto
  then show ?case using Deadline by (auto simp: load_inv_def list_all_iff)
next
  case (Join s)
  then show ?case by (auto simp: load_inv_def)
qed

lemma load_inv_reachable: "(load_step F srt srtKeys)\<^sup>*\<^sup>* (load_start F t) s \<Longrightarrow> load_inv F s"
proof (induction rule: rtranclp_induct)
  case base
  then show ?case by (rule load_inv_start)
next
  case (step s s')
  from step(2) show ?case
  proof cases
    case Act
    then show ?thesis using step(3) by (rule load_inv_act)
  next
    case (Clock t)
    then show ?thesis using step(3) by (simp add: load_inv_def)
  qed
qed


text \<open>Reachable states, by induction over the acts alone: the clock changes nothing else.\<close>

lemma load_reachable_induct:
  assumes reach: "(load_step F srt srtKeys)\<^sup>*\<^sup>* (load_start F t) s"
    and start: "P (load_start F t)"
    and clock: "\<And>s t. P s \<Longrightarrow> P (s\<lparr>lrNow := t\<rparr>)"
    and act: "\<And>s s'. load_inv F s \<Longrightarrow> P s \<Longrightarrow> load_act F srt srtKeys s s' \<Longrightarrow> P s'"
  shows "P s"
  using reach
proof (induction rule: rtranclp_induct)
  case base
  then show ?case by (rule start)
next
  case (step s s')
  from step(2) show ?case
  proof cases
    case Act
    then show ?thesis using act load_inv_reachable [OF step(1)] step(3) by blast
  next
    case (Clock t)
    then show ?thesis using clock [OF step(3)] by simp
  qed
qed

section \<open>The report\<close>

lemma finished_report:
  assumes "(load_step F srt srtKeys)\<^sup>*\<^sup>* (load_start F t) s"
  shows "lrMain s = Finished rep \<Longrightarrow> rep = printReport srt srtKeys (lrResults s)"
proof -
  have "\<forall>rep. lrMain s = Finished rep \<longrightarrow> rep = printReport srt srtKeys (lrResults s)"
    by (rule load_reachable_induct [OF assms])
      (auto simp: load_start_def running_def split: if_splits elim!: load_act.cases)
  then show "lrMain s = Finished rep \<Longrightarrow> rep = printReport srt srtKeys (lrResults s)" by blast
qed

text \<open>The report of a run accounts for what was measured: it is the report of the recorded results, each of which was for
  one of the given adapters or a passthrough request for the base model; its total is their number, of
  which successes and errors take each exactly one, and so do the rows of the adapters.\<close>

theorem load_report_accounts:
  assumes reach: "(load_step F srt srtKeys)\<^sup>*\<^sup>* (load_start F t) s" and fin: "lrMain s = Finished rep"
    and perm: "\<And>xs. mset (srtKeys xs) = mset xs"
  shows "rep = printReport srt srtKeys (lrResults s)
    \<and> (\<forall>r \<in> set (lrResults s). drawn F (rAdapter r) (rPassthrough r))
    \<and> (\<forall>rep'. rep = Some rep' \<longrightarrow> repTotal rep' = length (lrResults s)
         \<and> repSuccesses rep' + repErrors rep' = repTotal rep' \<and> sum_list (map rowCount (repRows rep')) = repTotal rep')"
proof (intro conjI allI impI)
  show rep: "rep = printReport srt srtKeys (lrResults s)" by (rule finished_report [OF reach fin])
  show "\<forall>r \<in> set (lrResults s). drawn F (rAdapter r) (rPassthrough r)"
    using load_inv_reachable [OF reach] by (simp add: load_inv_def list_all_iff)
  fix rep'
  assume some: "rep = Some rep'"
  obtain su er tally where t: "foldl add_result (0, 0, []) (lrResults s) = (su, er, tally)" by (metis prod_cases3)
  note adds = report_adds_up [OF t]
  have f: "repTotal rep' = length (lrResults s)" "repSuccesses rep' = su" "repErrors rep' = er"
      "repRows rep' = map (report_row_of srt) (srtKeys tally)"
    using some rep by (auto simp: printReport_def t Let_def split: if_splits)
  have "rowCount (report_row_of srt ks) = sCount (snd ks)" for ks by (cases ks) (simp add: report_row_of_def Let_def)
  then have "sum_list (map rowCount (repRows rep')) = sum_list (map (sCount \<circ> snd) (srtKeys tally))" by (simp add: f comp_def)
  also have "\<dots> = sum_list (map (sCount \<circ> snd) tally)"
    using perm [of tally] by (metis mset_map sum_mset_sum_list)
  finally show "sum_list (map rowCount (repRows rep')) = repTotal rep'" using adds f by simp
  show "repTotal rep' = length (lrResults s)" by (rule f(1))
  show "repSuccesses rep' + repErrors rep' = repTotal rep'" using adds f by simp
qed

section \<open>The end of a run\<close>

fun worker_left :: "worker \<Rightarrow> nat" where
  "worker_left AtHead = 1"
| "worker_left (Sending model pt) = 3"
| "worker_left (Recording r) = 2"
| "worker_left Left = 0"

definition work_left :: "LoadRun \<Rightarrow> nat" where
  "work_left s = sum_list (map worker_left (lrWorkers s)) + (if lrMain s = Joining then 1 else 0)"

lemma work_update:
  assumes "i < length ws" and "worker_left w < worker_left (ws ! i)"
  shows "sum_list (map worker_left (ws[i := w])) < sum_list (map worker_left ws)"
  using assms
proof (induction ws arbitrary: i)
  case (Cons x ws)
  then show ?case by (cases i) auto
qed simp

lemma work_decreases:
  assumes "load_act F srt srtKeys s s'" and "load_inv F s" and "lrDone s"
  shows "lrDone s' \<and> work_left s' < work_left s"
  using assms
  by (cases rule: load_act.cases) (auto simp: work_left_def load_inv_def running_def intro: work_update)

lemma work_bound: "work_left s \<le> 3 * length (lrWorkers s) + 1"
proof -
  have "worker_left w \<le> 3" for w by (cases w) auto
  then have "sum_list (map worker_left ws) \<le> 3 * length ws" for ws by (induction ws) (auto simp: add_mono)
  from this [of "lrWorkers s"] show ?thesis by (simp add: work_left_def)
qed

lemma work_to_do:
  assumes "load_inv F s" and "lrDone s" and "running s"
  shows "\<exists>s'. load_act F srt srtKeys s s'"
proof (cases "list_all (\<lambda>w. w = Left) (lrWorkers s)")
  case True
  have "lrMain s = Joining" using assms by (auto simp: load_inv_def running_def)
  then show ?thesis using load_act.Join [OF _ True] by blast
next
  case False
  then obtain i where i: "i < length (lrWorkers s)" "lrWorkers s ! i \<noteq> Left" by (auto simp: list_all_length)
  show ?thesis
  proof (cases "lrWorkers s ! i")
    case AtHead
    then show ?thesis using load_act.Leave [OF assms(3) i(1) _ assms(2)] by blast
  next
    case (Sending m pt)
    then show ?thesis using load_act.Answer [OF assms(3) i(1) _ refl] by blast
  next
    case (Recording r)
    then show ?thesis using load_act.Record [OF assms(3) i(1)] by blast
  qed (use i in simp)
qed

text \<open>C40: A run ends: once the deadline has passed, at most three acts per worker and one of
  the main loop remain, in whatever order they happen, and there is always one to do until the report
  has been printed.\<close>

theorem load_run_ends:
  assumes reach: "(load_step F srt srtKeys)\<^sup>*\<^sup>* (load_start F t) s" and dn: "lrDone s" "running s"
    and acts: "(load_act F srt srtKeys ^^ n) s s'"
  shows "n \<le> 3 * length (lrWorkers s) + 1 \<and> ((\<exists>s''. load_act F srt srtKeys s' s'') \<or> (\<exists>rep. lrMain s' = Finished rep))"
proof -
  have inv: "load_inv F s" by (rule load_inv_reachable [OF reach])
  have "n + work_left s' \<le> work_left s \<and> load_inv F s' \<and> lrDone s' \<and> (running s' \<or> (\<exists>rep. lrMain s' = Finished rep))"
    using acts
  proof (induction n arbitrary: s')
    case 0
    then show ?case using inv dn by simp
  next
    case (Suc n)
    then obtain s1 where s1: "(load_act F srt srtKeys ^^ n) s s1" "load_act F srt srtKeys s1 s'" by auto
    note ih = Suc.IH [OF s1(1)]
    have "running s' \<or> (\<exists>rep. lrMain s' = Finished rep)"
      using s1(2) ih by (cases rule: load_act.cases) (auto simp: running_def load_inv_def)
    then show ?case using ih work_decreases [OF s1(2)] load_inv_act [OF s1(2)] by fastforce
  qed
  then show ?thesis using work_bound [of s] work_to_do by fastforce
qed

section \<open>Crashes\<close>

text \<open>The generator needs a skew above 1 and a positive report interval: with these no reachable state has crashed, while
  with a skew of at most 1 and no base model no request is ever sent, and as long as the run goes on the
  next draw of any worker panics.\<close>

theorem load_crashes_on_flat_skew:
  assumes reach: "(load_step F srt srtKeys)\<^sup>*\<^sup>* (load_start F t) s"
  shows "(1 < lfZipfS F \<and> 0 < sint (lfReportInterval F) \<longrightarrow> (\<forall>why. lrMain s \<noteq> Crashed why))
    \<and> (lfZipfS F \<le> 1 \<and> lfBaseModel F = [] \<longrightarrow>
        lrTotal s = 0 \<and> lrResults s = []
        \<and> (running s \<and> \<not> lrDone s \<longrightarrow>
            (\<forall>w \<in> set (lrWorkers s). \<exists>s'. load_act F srt srtKeys s s' \<and> lrMain s' = Crashed ''rand: nil Zipf'')))"
proof (intro conjI impI)
  assume F: "1 < lfZipfS F \<and> 0 < sint (lfReportInterval F)"
  then have d: "draw_model F u idx = None \<Longrightarrow> False" for u idx by (auto simp: draw_model_def Let_def split: if_splits)
  show "\<forall>why. lrMain s \<noteq> Crashed why"
    by (rule load_reachable_induct [OF reach])
      (use F in \<open>auto simp: load_start_def running_def sle_sint split: if_splits elim!: load_act.cases dest: d\<close>)
next
  assume F: "lfZipfS F \<le> 1 \<and> lfBaseModel F = []"
  then have d: "draw_model F u idx = None" for u idx by (simp add: draw_model_def Let_def)
  have p: "lrTotal s = 0 \<and> lrResults s = [] \<and> (\<forall>w \<in> set (lrWorkers s). w = AtHead \<or> w = Left) \<and> (lrWorkers s \<noteq> [] \<longrightarrow> adapter_list F \<noteq> [])"
  proof (rule load_reachable_induct [OF reach])
    fix s s'
    let ?P = "\<lambda>s. lrTotal s = 0 \<and> lrResults s = [] \<and> (\<forall>w \<in> set (lrWorkers s). w = AtHead \<or> w = Left) \<and> (lrWorkers s \<noteq> [] \<longrightarrow> adapter_list F \<noteq> [])"
    assume P: "?P s" and act: "load_act F srt srtKeys s s'"
    have at: "i < length (lrWorkers s) \<Longrightarrow> lrWorkers s ! i = AtHead \<or> lrWorkers s ! i = Left" for i using P by simp
    from act show "?P s'"
    proof cases
      case (Leave i)
      then show ?thesis using P by (auto dest!: set_update_subset_insert [THEN subsetD])
    next
      case (Answer i model pt r c etext latency)
      then show ?thesis using at [of i] by simp
    next
      case (Record i r)
      then show ?thesis using at [of i] by simp
    qed (use P d in auto)
  qed (auto simp: load_start_def)
  then show "lrTotal s = 0" "lrResults s = []" by blast+
  assume go: "running s \<and> \<not> lrDone s"
  show "\<forall>w \<in> set (lrWorkers s). \<exists>s'. load_act F srt srtKeys s s' \<and> lrMain s' = Crashed ''rand: nil Zipf''"
  proof
    fix w
    assume "w \<in> set (lrWorkers s)"
    then obtain i where i: "i < length (lrWorkers s)" "lrWorkers s ! i = w" by (auto simp: in_set_conv_nth)
    have "w \<noteq> Left" using load_inv_reachable [OF reach] go i by (auto simp: load_inv_def list_all_length)
    then have "lrWorkers s ! i = AtHead" using p i by auto
    moreover have "0 < length (adapter_list F)" using p i by auto
    ultimately have "load_act F srt srtKeys s (s\<lparr>lrMain := Crashed ''rand: nil Zipf''\<rparr>)"
      using go i(1) d by (intro load_act.DrawNil [where u = 0 and idx = 0]) auto
    then show "\<exists>s'. load_act F srt srtKeys s s' \<and> lrMain s' = Crashed ''rand: nil Zipf''" by force
  qed
qed


section \<open>Witnesses\<close>

text \<open>One worker, one adapter, no warm-up and no duration; a server that answers.\<close>

definition example_flags :: LoadFlags where
  "example_flags = default_flags\<lparr>lfAdapters := ''a'', lfConcurrency := 1, lfDuration := 0, lfWarmup := 0\<rparr>"

lemma load_adapters: "adapter_list example_flags = [''a'']"
  by code_simp

definition example_result :: result where
  "example_result = \<lparr>rAdapter = ''a'', rLatency = 5, rStatus = 200, rErr = [], rPassthrough = False\<rparr>"

definition example_at :: "worker \<Rightarrow> load_main \<Rightarrow> int \<Rightarrow> int64 \<Rightarrow> result list \<Rightarrow> LoadRun" where
  "example_at w main t n rs =
     \<lparr>lrNow = t, lrWarmEnd = 0, lrDeadline = 0, lrResults = rs, lrDone = (main \<notin> {Starting, Reporting}), lrTotal = n,
      lrWorkers = [w], lrMain = main, lrPrinted = []\<rparr>"

abbreviation "example_load \<equiv> load_step example_flags (sort_key sint) id"

lemma load_example_start: "load_start example_flags 0 = example_at AtHead Starting 0 0 []"
  by (simp add: load_start_def load_adapters example_at_def) (simp add: example_flags_def default_flags_def)

lemma load_example_reach: "example_load\<^sup>*\<^sup>* (load_start example_flags 0) (example_at AtHead Joining 1 1 [example_result])"
proof -
  let ?act = "load_act example_flags (sort_key sint) id"
  let ?c = "answered_by \<lparr>respStatus = 200, respHeader = [], respBody = [], respErr = None\<rparr>"
  have a1: "?act (example_at AtHead Starting 0 0 []) (example_at AtHead Reporting 0 0 [])"
    using load_act.Begin [of "example_at AtHead Starting 0 0 []" example_flags]
    by (simp add: example_at_def example_flags_def default_flags_def second_def sle_sint)
  have a2: "?act (example_at AtHead Reporting 0 0 []) (example_at (Sending ''a'' False) Reporting 0 0 [])"
  proof -
    have "draw_model example_flags 0 0 = Some (''a'', False)"
      by (simp add: draw_model_def load_adapters) (simp add: example_flags_def default_flags_def)
    then show ?thesis using load_act.Draw [of "example_at AtHead Reporting 0 0 []" 0 0 0 example_flags "''a''" False]
      by (simp add: example_at_def running_def load_adapters set_worker_def)
  qed
  have a3: "?act (example_at (Sending ''a'' False) Reporting 0 0 []) (example_at (Recording example_result) Reporting 0 1 [])"
  proof -
    let ?s = "example_at (Sending ''a'' False) Reporting 0 0 []"
    have "?act ?s (set_worker 0 (Recording example_result) (?s\<lparr>lrTotal := lrTotal ?s + 1\<rparr>))"
      by (rule load_act.Answer [where model = "''a''" and pt = False and c = ?c and latency = 5 and etext = "\<lambda>e. []"])
        (simp_all add: example_at_def running_def sendRequest_def answered_by_def example_result_def)
    then show ?thesis by (simp add: example_at_def set_worker_def)
  qed
  have a4: "example_load (example_at (Recording example_result) Reporting 0 1 []) (example_at (Recording example_result) Reporting 1 1 [])"
    using load_step.Clock [of "example_at (Recording example_result) Reporting 0 1 []" 1]
    by (simp add: example_at_def running_def)
  have a5: "?act (example_at (Recording example_result) Reporting 1 1 []) (example_at AtHead Reporting 1 1 [example_result])"
    using load_act.Record [of "example_at (Recording example_result) Reporting 1 1 []" 0 example_result]
    by (simp add: example_at_def running_def set_worker_def)
  have a6: "?act (example_at AtHead Reporting 1 1 [example_result]) (example_at AtHead Joining 1 1 [example_result])"
    using load_act.Deadline [of "example_at AtHead Reporting 1 1 [example_result]"] by (simp add: example_at_def)
  note one = r_into_rtranclp [where r = example_load]
  note b1 = one [OF load_step.Act [OF a1]] and b2 = one [OF load_step.Act [OF a2]] and b3 = one [OF load_step.Act [OF a3]]
    and b4 = one [OF a4] and b5 = one [OF load_step.Act [OF a5]] and b6 = one [OF load_step.Act [OF a6]]
  show ?thesis unfolding load_example_start
    by (rule rtranclp_trans [OF b1 rtranclp_trans [OF b2 rtranclp_trans [OF b3 rtranclp_trans [OF b4 rtranclp_trans [OF b5 b6]]]]])
qed

lemma load_example_finish:
  "(load_act example_flags (sort_key sint) id ^^ 2) (example_at AtHead Joining 1 1 [example_result])
     (example_at Left (Finished (printReport (sort_key sint) id [example_result])) 1 1 [example_result])"
proof -
  let ?act = "load_act example_flags (sort_key sint) id"
  have "?act (example_at AtHead Joining 1 1 [example_result]) (example_at Left Joining 1 1 [example_result])"
    using load_act.Leave [of "example_at AtHead Joining 1 1 [example_result]" 0] by (simp add: example_at_def running_def set_worker_def)
  moreover have "?act (example_at Left Joining 1 1 [example_result])
      (example_at Left (Finished (printReport (sort_key sint) id [example_result])) 1 1 [example_result])"
    using load_act.Join [of "example_at Left Joining 1 1 [example_result]"] by (simp add: example_at_def)
  ultimately show ?thesis by (auto simp: numeral_2_eq_2)
qed

lemma load_run_ends_witness:
  "\<exists>n s'. (load_act example_flags (sort_key sint) id ^^ n) (example_at AtHead Joining 1 1 [example_result]) s' \<and> n \<le> 4
     \<and> ((\<exists>s''. load_act example_flags (sort_key sint) id s' s'') \<or> (\<exists>rep. lrMain s' = Finished rep))"
proof -
  have dn: "lrDone (example_at AtHead Joining 1 1 [example_result])" "running (example_at AtHead Joining 1 1 [example_result])"
    by (simp_all add: example_at_def running_def)
  have "length (lrWorkers (example_at AtHead Joining 1 1 [example_result])) = 1" by (simp add: example_at_def)
  then show ?thesis using load_run_ends [OF load_example_reach dn load_example_finish] load_example_finish by force
qed

lemma load_report_accounts_witness:
  "\<exists>rep. printReport (sort_key sint) id [example_result] = Some rep \<and> repTotal rep = 1 \<and> sum_list (map rowCount (repRows rep)) = 1"
proof -
  let ?s = "example_at Left (Finished (printReport (sort_key sint) id [example_result])) 1 1 [example_result]"
  have "example_load\<^sup>*\<^sup>* (example_at AtHead Joining 1 1 [example_result]) ?s"
    using load_example_finish by (auto simp: numeral_2_eq_2 intro: load_step.Act converse_rtranclp_into_rtranclp)
  with load_example_reach have reach: "example_load\<^sup>*\<^sup>* (load_start example_flags 0) ?s" by (rule rtranclp_trans)
  have fin: "lrMain ?s = Finished (printReport (sort_key sint) id [example_result])" "lrResults ?s = [example_result]"
    by (simp_all add: example_at_def)
  have "printReport (sort_key sint) id [example_result] \<noteq> None" by (auto simp: printReport_def Let_def split: prod.splits)
  then show ?thesis using load_report_accounts [OF reach fin(1)] fin(2) by auto
qed

lemma load_crashes_on_flat_skew_witness:
  "\<exists>s'. load_act (example_flags\<lparr>lfZipfS := 1\<rparr>) (sort_key sint) id (load_start (example_flags\<lparr>lfZipfS := 1\<rparr>) 0) s'
     \<and> lrMain s' = Crashed ''rand: nil Zipf''"
proof -
  let ?F = "example_flags\<lparr>lfZipfS := 1\<rparr>"
  have "adapter_list ?F = [''a'']" using load_adapters by (simp add: adapter_list_def)
  then have "lrWorkers (load_start ?F 0) = [AtHead]" "running (load_start ?F 0)" "\<not> lrDone (load_start ?F 0)"
    by (simp_all add: load_start_def running_def) (simp add: example_flags_def default_flags_def)
  moreover have "lfZipfS ?F \<le> 1" "lfBaseModel ?F = []" by (simp_all add: example_flags_def default_flags_def)
  ultimately show ?thesis using load_crashes_on_flat_skew [of ?F "sort_key sint" id 0 "load_start ?F 0"] by simp
qed

end
