(* ===== verification/Spec2Isabelle.thy ===== *)
theory Spec2Isabelle
  imports Cluster Lifecycle HashOn MockVllm LoadRun
begin

text \<open>
  A verification library for loraplex, a proxy in front of vLLM servers that caches LoRA adapters on
  local disk and spreads the requests for them over a ring of peers.

  \<^bold>\<open>Parts of the program.\<close>  A request enters through the server (\<open>internal/server\<close>), which counts it
  (\<open>internal/health\<close>) and hands it to the proxy (\<open>internal/proxy\<close>).  The proxy reads model and tenant,
  builds the key to hash, and asks the forwarder (\<open>internal/routing/forwarder.go\<close>) whether a peer of
  the ring (\<open>internal/routing/ring.go\<close>) owns it.  A request that stays here needs its adapter on disk:
  the cache manager (\<open>internal/cache/manager.go\<close>) finds it in the store (\<open>store.go\<close>, indexed by the
  LRU list of \<open>lru.go\<close>, with metadata of \<open>meta.go\<close>) or fetches it from the origins
  (\<open>internal/origin\<close>).  Discovery (\<open>internal/discovery\<close>) tells the ring who the peers are, the health
  checker tells it their loads, the administration interface (\<open>internal/admin\<close>) evicts and warms up,
  and \<open>cmd/loraplex\<close> builds all of it from the configuration (\<open>internal/config\<close>), runs it and ends it on a
  signal.  Beside it stand a load generator (\<open>cmd/loadgen\<close>) and a mock of vLLM (\<open>cmd/mock-vllm\<close>).

  \<^bold>\<open>Theories.\<close>
    \<^item> \<open>Prelude\<close>: 64-bit words as Go's \<open>int64\<close>, errors, shared lemmas, and the locales \<open>op_machine\<close> and
      \<open>refined_machine\<close> of components whose operations keep an invariant or refine an abstract one.
    \<^item> \<open>GoPath\<close>, \<open>FileSystem\<close>, \<open>GoSort\<close>, \<open>GoParse\<close>, \<open>Http\<close>: what the code uses of Go's library: path
      cleaning and joining, a file system as an association list with a fault function, \<open>sort.Slice\<close>
      (the locale \<open>slice_sorter\<close>) and \<open>sort.Search\<close>, \<open>Sscanf\<close> and \<open>ParseDuration\<close>, headers and
      clients.
    \<^item> \<open>GoUtf8\<close>, \<open>GoJson\<close>, \<open>JsonRoundtrip\<close>, \<open>JsonValid\<close>, \<open>GoStruct\<close>: \<open>encoding/json\<close>: its text, its reader (a
      scanner and a stack machine), that what is written is read back, that every string read is UTF-8, and
      how a structure is filled.
    \<^item> \<open>Lru\<close>: the index; refinement of the plain recency list, minimal eviction.
    \<^item> \<open>Metrics\<close>: the calls to the collectors, and which calls are declared.
    \<^item> \<open>Meta\<close>, \<open>Store\<close>: metadata, validation of IDs, rebuilding the index, making room, removing.
    \<^item> \<open>Origin\<close>: HTTP, Hugging Face and S3 origins under the locale \<open>origin_contract\<close>.
    \<^item> \<open>Manager\<close>: ensuring, evicting and revalidating adapters, and the cache as a step relation.
    \<^item> \<open>Ring\<close>: lookups as nearest points clockwise; owners do not depend on the order of the peers, and
      joining or leaving moves only the keys it must.
    \<^item> \<open>Forwarder\<close>: routing decisions and forwarding with fallback, over the locale \<open>peer_directory\<close>
      that the ring provides.
    \<^item> \<open>Proxy\<close>: the request handler; no forwarding loops, no adapter request to vLLM without the adapter.
    \<^item> \<open>Config\<close>, \<open>HashOn\<close>: defaults, validation, sizes, loading, and the meaning of \<open>hash_on\<close>.
    \<^item> \<open>Discovery\<close>: the fixed list, heartbeat files and Kubernetes endpoints, each a \<open>peer_source\<close>.
    \<^item> \<open>Health\<close>, \<open>Admin\<close>, \<open>Server\<close>: load and checks, the administration interface, the routes.
    \<^item> \<open>Node\<close>, \<open>Loraplex\<close>: a whole node as a step relation, its invariant, and its start from a
      configuration.
    \<^item> \<open>Lifecycle\<close>: the process around a node: main goroutine, signal goroutine and loops, interleaved; it ends
      after a signal, and how.
    \<^item> \<open>Cluster\<close>: nodes that are each other's peers: serving ends, and an adapter has one home.
    \<^item> \<open>Codecs\<close>: the JSON the program exchanges, and the theorems on eviction and health with it.
    \<^item> \<open>MockVllm\<close>: the mock of vLLM, and chat requests through the proxy to it and back.
    \<^item> \<open>Loadgen\<close>, \<open>LoadRun\<close>: the load generator's statistics, and its run as a step relation.

  \<^bold>\<open>State and operations.\<close>  A Go structure is a record, a method a function that returns the changed
  record, an error a value of \<open>goerr\<close> on the left of a sum, a panic the value \<open>None\<close>.  A method that
  runs under a mutex or in a singleflight group is one step; goroutines are values (revalidations,
  checks, evictions to send) that a later step of \<open>cache_step\<close> or \<open>node_step\<close> runs, in any order.
  Everything that may fail asks the fault function of its environment, which maps a call and its path
  to an error, so that every theorem without a hypothesis on faults holds for all failures.

  \<^bold>\<open>Termination.\<close>  No definition needs fuel: the loops are structural recursions or have a measure (the
  interval of the binary search, the points of the ring not yet seen, the text left to parse, the
  directory entries left to visit).  Calls from node to node are bounded by rounds of forwarding
  (\<open>Cluster\<close>), two of which are enough.  That loops which wait for events end is proved of the step relations.

  \<^bold>\<open>Parameters.\<close>  SHA-256 (its first four bytes), the YAML decoder, the text of the metadata record and of the
  hub's answers, the HTTP peers, the object store, the environment and the host name are arguments of
  the definitions.  The components take JSON codecs as arguments too; \<open>Codecs\<close> has the program's own.

  \<^bold>\<open>Not modelled.\<close>  Permissions and symbolic links; rounding of floating point numbers (loads,
  thresholds and fractions are rationals); the duration of requests; timeouts, which are failures of a
  client; concurrent calls for one adapter beyond what singleflight serialises, and so the temporary
  directory that IDs such as \<open>a/b\<close> and \<open>a__b\<close> share; connections, and what \<open>/metrics\<close> prints; flag parsing and
  logging; the limit on the nesting of JSON; escaped paths in the routes; white space outside ASCII; and
  the mocks of the end-to-end tests.  The heartbeat directory is on a file system apart from the cache's.
\<close>

end
